(* ===== verification/Prelude.thy ===== *)
theory Prelude
  imports Main "HOL-Library.Word" "HOL-Library.Sublist" "HOL-Library.Monad_Syntax"
begin

text \<open>
  Shared vocabulary of the development: machine integers and bytes, the outcome of a Rust
  computation (a value, an error value, a panic, or a run that never ends), the standard
  library's integer parsing and printing, the model of an input stream as the list of results its
  successive \<open>read\<close> calls give, and the generic lemmas on lists, words and outcomes that the
  component theories use.
\<close>

section \<open>Machine types\<close>

type_synonym u8 = "8 word"
type_synonym u32 = "32 word"
type_synonym u64 = "64 word"
type_synonym bytes = "u8 list"
type_synonym uchar = nat \<comment> \<open>a Rust \<open>char\<close>: a Unicode scalar value\<close>
type_synonym ustring = "uchar list"

definition bstr :: "string \<Rightarrow> bytes" where
  "bstr s = map of_char s"

definition ustr :: "string \<Rightarrow> ustring" where
  "ustr s = map of_char s"

definition brange :: "nat \<Rightarrow> nat \<Rightarrow> bytes" where
  \<comment> \<open>the inclusive range \<open>l..=r\<close> of bytes\<close>
  "brange l r = map of_nat [l..<Suc r]"

definition usize_limit :: nat where
  "usize_limit = 2 ^ 64"

definition isize_limit :: nat where
  \<comment> \<open>\<open>isize::MAX + 1\<close>: a vector of this many bytes panics with a capacity overflow\<close>
  "isize_limit = 2 ^ 63"

lemma isize_less_usize: "isize_limit < usize_limit"
  by (simp add: isize_limit_def usize_limit_def)

section \<open>Outcomes\<close>

text \<open>
  \<open>Ok\<close> and \<open>Err\<close> are the two constructors of \<open>Result\<close>; \<open>Panic\<close> is an unwinding panic (failed
  assertion, \<open>unwrap\<close> of nothing, index or slice out of range, checked overflow); \<open>Diverge\<close> is a
  computation that never returns.
\<close>

datatype ('e, 'a) outcome = Ok 'a | Err 'e | Panic | Diverge

fun obind :: "('e, 'a) outcome \<Rightarrow> ('a \<Rightarrow> ('e, 'b) outcome) \<Rightarrow> ('e, 'b) outcome" where
  "obind (Ok x) f = f x"
| "obind (Err e) f = Err e"
| "obind Panic f = Panic"
| "obind Diverge f = Diverge"

fun omap_err :: "('e \<Rightarrow> 'f) \<Rightarrow> ('e, 'a) outcome \<Rightarrow> ('f, 'a) outcome" where
  "omap_err g (Ok x) = Ok x"
| "omap_err g (Err e) = Err (g e)"
| "omap_err g Panic = Panic"
| "omap_err g Diverge = Diverge"

fun returns :: "('e, 'a) outcome \<Rightarrow> bool" where
  \<comment> \<open>the computation returns to its caller, with a value or an error value\<close>
  "returns (Ok x) = True"
| "returns (Err e) = True"
| "returns Panic = False"
| "returns Diverge = False"

named_theorems outcome_simps \<open>inversion of outcomes\<close>

lemma obind_Ok_iff [outcome_simps]:
  "obind m f = Ok y \<longleftrightarrow> (\<exists>x. m = Ok x \<and> f x = Ok y)"
  by (cases m) auto

lemma obind_Err_iff [outcome_simps]:
  "obind m f = Err e \<longleftrightarrow> m = Err e \<or> (\<exists>x. m = Ok x \<and> f x = Err e)"
  by (cases m) auto

lemma obind_Panic_iff [outcome_simps]:
  "obind m f = Panic \<longleftrightarrow> m = Panic \<or> (\<exists>x. m = Ok x \<and> f x = Panic)"
  by (cases m) auto

lemma obind_Diverge_iff [outcome_simps]:
  "obind m f = Diverge \<longleftrightarrow> m = Diverge \<or> (\<exists>x. m = Ok x \<and> f x = Diverge)"
  by (cases m) auto

lemma obind_assoc: "obind (obind m f) g = obind m (\<lambda>x. obind (f x) g)"
  by (cases m) auto

lemma returns_obind:
  "returns (obind m f) \<longleftrightarrow> returns m \<and> (\<forall>x. m = Ok x \<longrightarrow> returns (f x))"
  by (cases m) auto

lemma omap_err_Ok_iff [outcome_simps]: "omap_err g m = Ok x \<longleftrightarrow> m = Ok x"
  by (cases m) auto

lemma returns_iff: "returns m \<longleftrightarrow> m \<noteq> Panic \<and> m \<noteq> Diverge"
  by (cases m) auto

lemma returns_omap_err [simp]: "returns (omap_err g m) = returns m"
  by (cases m) auto

text \<open>
  Stateful code returns the new state beside its outcome, on every path: \<open>sbind\<close> continues with the
  state of a successful step and stops with the state of any other.
\<close>

fun sbind :: "'s \<times> ('e, 'a) outcome \<Rightarrow> ('s \<Rightarrow> 'a \<Rightarrow> 's \<times> ('e, 'b) outcome) \<Rightarrow> 's \<times> ('e, 'b) outcome"
where
  "sbind (s, Ok x) k = k s x"
| "sbind (s, Err e) k = (s, Err e)"
| "sbind (s, Panic) k = (s, Panic)"
| "sbind (s, Diverge) k = (s, Diverge)"

lemma sbind_Ok_iff [outcome_simps]:
  "sbind m k = (t, Ok y) \<longleftrightarrow> (\<exists>s x. m = (s, Ok x) \<and> k s x = (t, Ok y))"
  by (cases m; cases "snd m") auto

section \<open>Integers as text: the standard library's parsing and printing\<close>

definition digit_val :: "nat \<Rightarrow> nat \<Rightarrow> nat option" where
  \<comment> \<open>\<open>char::to_digit(radix)\<close> on a code point or byte value\<close>
  "digit_val radix c =
     (let d = (if 48 \<le> c \<and> c \<le> 57 then Some (c - 48)
               else if 97 \<le> c \<and> c \<le> 122 then Some (c - 87)
               else if 65 \<le> c \<and> c \<le> 90 then Some (c - 55) else None)
      in case d of None \<Rightarrow> None | Some v \<Rightarrow> if v < radix then Some v else None)"

fun digits_val :: "nat \<Rightarrow> nat \<Rightarrow> nat list \<Rightarrow> nat option" where
  "digits_val radix acc [] = Some acc"
| "digits_val radix acc (c # cs) =
     (case digit_val radix c of None \<Rightarrow> None | Some d \<Rightarrow> digits_val radix (acc * radix + d) cs)"

definition parse_unsigned :: "nat \<Rightarrow> nat \<Rightarrow> nat list \<Rightarrow> nat option" where
  \<comment> \<open>\<open>uN::from_str_radix\<close>: one optional plus sign, at least one digit, no overflow of \<open>limit\<close>\<close>
  "parse_unsigned limit radix s =
     (let t = (case s of [] \<Rightarrow> [] | c # cs \<Rightarrow> if c = 43 then cs else s) in
      if t = [] then None
      else case digits_val radix 0 t of None \<Rightarrow> None
           | Some v \<Rightarrow> if v < limit then Some v else None)"

fun dec_digits :: "nat \<Rightarrow> nat list" where
  \<comment> \<open>the decimal digits of \<open>format!("{}", n)\<close>, as ASCII codes\<close>
  "dec_digits n = (if n < 10 then [48 + n] else dec_digits (n div 10) @ [48 + n mod 10])"

declare dec_digits.simps [simp del]

definition bdec :: "nat \<Rightarrow> bytes" where
  "bdec n = map of_nat (dec_digits n)"

lemma digit_val_dec [simp]: "d < 10 \<Longrightarrow> digit_val 10 (48 + d) = Some d"
  by (simp add: digit_val_def)

lemma digits_val_append:
  "digits_val r acc (xs @ ys) =
     (case digits_val r acc xs of None \<Rightarrow> None | Some a \<Rightarrow> digits_val r a ys)"
  by (induction xs arbitrary: acc) (auto split: option.splits)

lemma digits_val_dec_digits: "digits_val 10 0 (dec_digits n) = Some n"
proof (induction n rule: dec_digits.induct)
  case (1 n)
  show ?case
  proof (cases "n < 10")
    case True
    then show ?thesis by (subst dec_digits.simps) simp
  next
    case False
    with 1 show ?thesis
      by (subst dec_digits.simps) (simp add: digits_val_append del: add_Suc)
  qed
qed

lemma dec_digits_range: "c \<in> set (dec_digits n) \<Longrightarrow> 48 \<le> c \<and> c \<le> 57"
proof (induction n rule: dec_digits.induct)
  case (1 n)
  then show ?case by (subst (asm) (2) dec_digits.simps) (auto split: if_splits)
qed

lemma dec_digits_ne [simp]: "dec_digits n \<noteq> []"
  by (subst dec_digits.simps) simp

lemma length_dec_digits: "n < 10 ^ Suc k \<Longrightarrow> length (dec_digits n) \<le> Suc k"
proof (induction k arbitrary: n)
  case 0
  then show ?case by (subst dec_digits.simps) simp
next
  case (Suc k)
  show ?case
  proof (cases "n < 10")
    case False
    from Suc.prems have "n div 10 < 10 ^ Suc k" by (simp add: less_mult_imp_div_less mult.commute)
    from Suc.IH [OF this] False show ?thesis by (subst dec_digits.simps) simp
  qed (subst dec_digits.simps, simp)
qed

lemma unat_bdec: "map unat (bdec n) = dec_digits n"
proof -
  have "map (unat \<circ> (of_nat :: nat \<Rightarrow> u8)) (dec_digits n) = dec_digits n"
    by (rule map_idI) (auto dest!: dec_digits_range simp: unat_of_nat)
  then show ?thesis by (simp add: bdec_def)
qed

lemma parse_unsigned_bdec:
  assumes "n < limit"
  shows "parse_unsigned limit 10 (dec_digits n) = Some n"
proof -
  obtain c cs where c: "dec_digits n = c # cs" by (cases "dec_digits n") auto
  then have "48 \<le> c" using dec_digits_range [of c n] by simp
  then show ?thesis using assms digits_val_dec_digits [of n] c
    by (simp add: parse_unsigned_def)
qed

section \<open>Input streams\<close>

text \<open>
  A reader is the list of results that its successive \<open>read\<close> calls return: bytes that arrived, an
  interruption by a signal, or an error. An empty chunk and the end of the list are the
  \<open>Ok(0)\<close> of end of file.
\<close>

datatype read_event = Chunk bytes | Interrupted | ReadFailed

type_synonym reader = "read_event list"

fun stream_bytes :: "reader \<Rightarrow> bytes" where
  \<comment> \<open>everything the reader delivers before end of file or a failure\<close>
  "stream_bytes [] = []"
| "stream_bytes (Chunk b # es) = (if b = [] then [] else b @ stream_bytes es)"
| "stream_bytes (Interrupted # es) = stream_bytes es"
| "stream_bytes (ReadFailed # es) = []"

fun stream_ok :: "reader \<Rightarrow> bool" where
  \<comment> \<open>the reader reaches end of file without a failure\<close>
  "stream_ok [] = True"
| "stream_ok (Chunk b # es) = (b = [] \<or> stream_ok es)"
| "stream_ok (Interrupted # es) = stream_ok es"
| "stream_ok (ReadFailed # es) = False"

section \<open>Bytes and lists\<close>

lemma bstr_simps [simp]: "bstr [] = []" "bstr (c # s) = of_char c # bstr s"
  by (simp_all add: bstr_def)

lemma ustr_simps [simp]: "ustr [] = []" "ustr (c # s) = of_char c # ustr s"
  by (simp_all add: ustr_def)

lemma length_brange [simp]: "length (brange l r) = Suc r - l"
  by (auto simp: brange_def)

lemma set_brange:
  assumes "r < 256"
  shows "set (brange l r) = {b. l \<le> unat b \<and> unat b \<le> r}"
proof -
  have "b \<in> set (brange l r)" if "l \<le> unat b" "unat b \<le> r" for b
  proof -
    have "of_nat (unat b) = b" by simp
    then show ?thesis using that unfolding brange_def
      by (metis atLeastLessThan_iff image_eqI le_imp_less_Suc list.set_map set_upt)
  qed
  moreover have "l \<le> unat b \<and> unat b \<le> r" if "b \<in> set (brange l r)" for b
    using that assms by (auto simp: brange_def unat_of_nat)
  ultimately show ?thesis by blast
qed

lemma unat_u8_less: "unat (b :: u8) < 256"
  using unsigned_less [of b, where ?'a = nat] by simp

lemma brange_all: "set (brange 0 255) = UNIV"
  using unat_u8_less by (auto simp: set_brange less_Suc_eq_le [symmetric])

lemma distinct_brange: "r < 256 \<Longrightarrow> distinct (brange l r)"
  unfolding brange_def distinct_map
  by (auto intro!: inj_onI simp: word_unat_eq_iff unat_of_nat)

lemma sorted_brange: "r < 256 \<Longrightarrow> sorted (brange l r)"
  unfolding brange_def sorted_map
  by (rule sorted_wrt_mono_rel [OF _ sorted_upt]) (auto simp: word_le_nat_alt unat_of_nat)

lemma unat_of_nat_u64: "n < 2 ^ 64 \<Longrightarrow> unat (of_nat n :: u64) = n"
  by (simp add: unat_of_nat)

lemma take_prefix_iff: "take (length t) i = t \<longleftrightarrow> prefix t i"
  by (metis append_take_drop_id prefix_def append_eq_conv_conj)

end
