(* ===== verification/Nom_Interface.thy ===== *)
theory Nom_Interface
  imports Prelude
begin

text \<open>
  The parser library \<open>nom\<close> that the set parser of \<open>tr\<close> is written with is not part of the
  repository. Its elementary parsers and its two repetition combinators are a parameter: a record
  of functions, an argument of every definition that calls them. What the code relies on is the
  predicate \<open>nom_laws\<close>, which states their documented behaviour. A parser takes the input and
  returns the rest and its result, or \<open>None\<close> for \<open>Err(nom::Err::Error)\<close>; the "complete" parsers
  that are used here never ask for more input. The combinators that only sequence, choose or map
  (\<open>alt\<close>, \<open>preceded\<close>, \<open>terminated\<close>, \<open>delimited\<close>, \<open>separated_pair\<close>, \<open>map\<close>, \<open>map_opt\<close>,
  \<open>recognize\<close>, \<open>value\<close>, \<open>peek\<close>) appear in the model as control flow.
\<close>

type_synonym 'a iresult = "(bytes \<times> 'a) option"

record 'r nom =
  nom_tag :: "bytes \<Rightarrow> bytes \<Rightarrow> bytes iresult"
  nom_take :: "nat \<Rightarrow> bytes \<Rightarrow> bytes iresult"
  nom_take_till :: "(u8 \<Rightarrow> bool) \<Rightarrow> bytes \<Rightarrow> bytes iresult"
  nom_take_until :: "bytes \<Rightarrow> bytes \<Rightarrow> bytes iresult"
  nom_one_of :: "bytes \<Rightarrow> bytes \<Rightarrow> u8 iresult"
  nom_many_m_n :: "nat \<Rightarrow> nat \<Rightarrow> (bytes \<Rightarrow> u8 iresult) \<Rightarrow> bytes \<Rightarrow> u8 list iresult"
  nom_many0 :: "(bytes \<Rightarrow> 'r iresult) \<Rightarrow> bytes \<Rightarrow> 'r list iresult"

definition orelse :: "'a option \<Rightarrow> 'a option \<Rightarrow> 'a option" where
  \<comment> \<open>the choice of \<open>alt\<close>: the first parser that does not fail\<close>
  "orelse a b = (case a of Some x \<Rightarrow> Some x | None \<Rightarrow> b)"

lemma orelse_simps [simp]: "orelse (Some x) b = Some x" "orelse None b = b"
  by (simp_all add: orelse_def)

lemma orelse_Some_iff: "orelse a b = Some x \<longleftrightarrow> a = Some x \<or> a = None \<and> b = Some x"
  by (cases a) auto

section \<open>The documented behaviour\<close>

fun split_at_sub :: "bytes \<Rightarrow> bytes \<Rightarrow> (bytes \<times> bytes) option" where
  \<comment> \<open>the input before and from the first occurrence of a pattern\<close>
  "split_at_sub t i =
     (if prefix t i then Some ([], i)
      else case i of [] \<Rightarrow> None
           | x # xs \<Rightarrow> (case split_at_sub t xs of None \<Rightarrow> None | Some (a, b) \<Rightarrow> Some (x # a, b)))"

declare split_at_sub.simps [simp del]

fun greedy :: "nat \<Rightarrow> (bytes \<Rightarrow> u8 iresult) \<Rightarrow> bytes \<Rightarrow> bytes \<times> u8 list" where
  "greedy 0 p i = (i, [])"
| "greedy (Suc n) p i =
     (case p i of None \<Rightarrow> (i, [])
      | Some (r, x) \<Rightarrow> (case greedy n p r of (r', xs) \<Rightarrow> (r', x # xs)))"

definition nom_laws :: "'r nom \<Rightarrow> bool" where
  "nom_laws N \<longleftrightarrow>
     (\<forall>t i. nom_tag N t i = (if prefix t i then Some (drop (length t) i, t) else None)) \<and>
     (\<forall>n i. nom_take N n i = (if n \<le> length i then Some (drop n i, take n i) else None)) \<and>
     (\<forall>P i. nom_take_till N P i = Some (dropWhile (\<lambda>b. \<not> P b) i, takeWhile (\<lambda>b. \<not> P b) i)) \<and>
     (\<forall>t i. nom_take_until N t i =
              (case split_at_sub t i of None \<Rightarrow> None | Some (a, b) \<Rightarrow> Some (b, a))) \<and>
     (\<forall>cs i. nom_one_of N cs i =
              (case i of [] \<Rightarrow> None | x # xs \<Rightarrow> if x \<in> set cs then Some (xs, x) else None)) \<and>
     (\<forall>m n p i. nom_many_m_n N m n p i =
              (case greedy n p i of (r, xs) \<Rightarrow> if m \<le> length xs then Some (r, xs) else None)) \<and>
     (\<forall>p i. (\<forall>j r x. p j = Some (r, x) \<longrightarrow> suffix r j) \<longrightarrow> nom_many0 N p i =
              (case p i of None \<Rightarrow> Some (i, [])
               | Some (r, x) \<Rightarrow>
                   if length r = length i then None
                   else (case nom_many0 N p r of None \<Rightarrow> None
                         | Some (r', xs) \<Rightarrow> Some (r', x # xs))))"

lemma nom_lawsD:
  assumes "nom_laws N"
  shows nom_tagD: "nom_tag N t i = (if prefix t i then Some (drop (length t) i, t) else None)"
    and nom_takeD: "nom_take N n i = (if n \<le> length i then Some (drop n i, take n i) else None)"
    and nom_take_tillD:
      "nom_take_till N P i = Some (dropWhile (\<lambda>b. \<not> P b) i, takeWhile (\<lambda>b. \<not> P b) i)"
    and nom_take_untilD: "nom_take_until N t i =
       (case split_at_sub t i of None \<Rightarrow> None | Some (a, b) \<Rightarrow> Some (b, a))"
    and nom_one_ofD: "nom_one_of N cs i =
       (case i of [] \<Rightarrow> None | x # xs \<Rightarrow> if x \<in> set cs then Some (xs, x) else None)"
    and nom_many_m_nD: "nom_many_m_n N m n p i =
       (case greedy n p i of (r, xs) \<Rightarrow> if m \<le> length xs then Some (r, xs) else None)"
  using assms by (simp_all add: nom_laws_def)

lemma nom_many0D:
  assumes "nom_laws N" and "\<And>j r x. p j = Some (r, x) \<Longrightarrow> suffix r j"
  shows "nom_many0 N p i =
           (case p i of None \<Rightarrow> Some (i, [])
            | Some (r, x) \<Rightarrow>
                if length r = length i then None
                else (case nom_many0 N p r of None \<Rightarrow> None
                      | Some (r', xs) \<Rightarrow> Some (r', x # xs)))"
  using assms unfolding nom_laws_def by blast

lemmas nom_simps = nom_tagD nom_takeD nom_take_tillD nom_take_untilD nom_one_ofD nom_many_m_nD

section \<open>Parsers return a suffix of their input\<close>

lemma strict_suffix_Cons: "suffix r xs \<Longrightarrow> strict_suffix r (x # xs)"
  by (auto simp: strict_suffix_def suffix_def)

lemma nom_tag_suffix:
  "nom_laws N \<Longrightarrow> nom_tag N t i = Some (r, x) \<Longrightarrow> suffix r i \<and> i = t @ r \<and> x = t"
  by (auto simp: nom_tagD suffix_def prefix_def split: if_splits)

lemma nom_tag_strict:
  "nom_laws N \<Longrightarrow> nom_tag N t i = Some (r, x) \<Longrightarrow> t \<noteq> [] \<Longrightarrow> strict_suffix r i"
  by (drule (1) nom_tag_suffix) (auto simp: strict_suffix_def)

lemma nom_take_till_suffix:
  "nom_laws N \<Longrightarrow> nom_take_till N P i = Some (r, x) \<Longrightarrow> suffix r i"
  by (auto simp: nom_take_tillD suffix_dropWhile)

lemma split_at_sub_append: "split_at_sub t i = Some (a, b) \<Longrightarrow> i = a @ b \<and> prefix t b"
proof (induction i arbitrary: a)
  case Nil
  then show ?case by (subst (asm) split_at_sub.simps) (auto split: if_splits)
next
  case (Cons x xs)
  from Cons.prems show ?case
    by (subst (asm) split_at_sub.simps) (auto split: if_splits option.splits dest: Cons.IH)
qed

lemma nom_take_until_suffix:
  "nom_laws N \<Longrightarrow> nom_take_until N t i = Some (r, x) \<Longrightarrow> suffix r i"
  by (auto simp: nom_take_untilD suffix_def split: option.splits dest: split_at_sub_append)

lemma nom_one_of_suffix:
  "nom_laws N \<Longrightarrow> nom_one_of N cs i = Some (r, x) \<Longrightarrow> strict_suffix r i"
  by (auto simp: nom_one_ofD strict_suffix_Cons split: list.splits if_splits)

lemma greedy_suffix:
  assumes "\<And>i r x. p i = Some (r, x) \<Longrightarrow> strict_suffix r i"
  shows "greedy n p i = (r, xs) \<Longrightarrow> suffix r i \<and> (xs \<noteq> [] \<longrightarrow> strict_suffix r i)"
proof (induction n arbitrary: i r xs)
  case 0
  then show ?case by simp
next
  case (Suc n)
  show ?case
  proof (cases "p i")
    case None
    with Suc.prems show ?thesis by simp
  next
    case (Some qy)
    obtain q y where qy: "qy = (q, y)" by (cases qy)
    obtain r' ys where g: "greedy n p q = (r', ys)" by (cases "greedy n p q")
    from Suc.IH [OF g] have "suffix r' q" by blast
    moreover from Some qy assms have "strict_suffix q i" by blast
    ultimately have "strict_suffix r' i"
      by (metis strict_suffix_def suffix_order.dual_order.trans suffix_order.antisym)
    with Suc.prems Some qy g show ?thesis by auto
  qed
qed

lemma nom_many_m_n_suffix:
  assumes "nom_laws N" "nom_many_m_n N m n (nom_one_of N cs) i = Some (r, xs)" "0 < m"
  shows "strict_suffix r i"
proof -
  from assms have "greedy n (nom_one_of N cs) i = (r, xs)" and "xs \<noteq> []"
    by (auto simp: nom_many_m_nD split: prod.splits if_splits)
  with greedy_suffix [of "nom_one_of N cs" n i r xs] nom_one_of_suffix [OF assms(1)]
  show ?thesis by blast
qed

lemma suffix_strict_trans [trans]:
  "suffix a b \<Longrightarrow> strict_suffix b c \<Longrightarrow> strict_suffix a c"
  "strict_suffix a b \<Longrightarrow> suffix b c \<Longrightarrow> strict_suffix a c"
  by (metis strict_suffix_def suffix_order.dual_order.trans suffix_order.antisym)+

section \<open>An instance\<close>

text \<open>
  The laws can hold together: \<open>nom_ref\<close> satisfies them. The witnesses of properties that assume
  \<open>nom_laws\<close> use it.
\<close>

function many0_ref :: "(bytes \<Rightarrow> 'r iresult) \<Rightarrow> bytes \<Rightarrow> 'r list iresult" where
  "many0_ref p i =
     (case p i of None \<Rightarrow> Some (i, [])
      | Some (r, x) \<Rightarrow>
          if length r = length i then None
          else if length i < length r then None
          else (case many0_ref p r of None \<Rightarrow> None | Some (r', xs) \<Rightarrow> Some (r', x # xs)))"
  by pat_completeness auto
termination
  by (relation "measure (\<lambda>(p, i). length i)") auto

declare many0_ref.simps [simp del]

definition nom_ref :: "'r nom" where
  "nom_ref = \<lparr>
     nom_tag = (\<lambda>t i. if prefix t i then Some (drop (length t) i, t) else None),
     nom_take = (\<lambda>n i. if n \<le> length i then Some (drop n i, take n i) else None),
     nom_take_till = (\<lambda>P i. Some (dropWhile (\<lambda>b. \<not> P b) i, takeWhile (\<lambda>b. \<not> P b) i)),
     nom_take_until = (\<lambda>t i. case split_at_sub t i of None \<Rightarrow> None | Some (a, b) \<Rightarrow> Some (b, a)),
     nom_one_of = (\<lambda>cs i. case i of [] \<Rightarrow> None
                            | x # xs \<Rightarrow> if x \<in> set cs then Some (xs, x) else None),
     nom_many_m_n = (\<lambda>m n p i. case greedy n p i of
                       (r, xs) \<Rightarrow> if m \<le> length xs then Some (r, xs) else None),
     nom_many0 = many0_ref \<rparr>"

lemma many0_ref_law:
  assumes "\<And>j r x. p j = Some (r, x) \<Longrightarrow> suffix r j"
  shows "many0_ref p i =
           (case p i of None \<Rightarrow> Some (i, [])
            | Some (r, x) \<Rightarrow>
                if length r = length i then None
                else (case many0_ref p r of None \<Rightarrow> None
                      | Some (r', xs) \<Rightarrow> Some (r', x # xs)))"
proof (cases "p i")
  case None
  then show ?thesis by (subst many0_ref.simps) simp
next
  case (Some rx)
  obtain r x where rx: "rx = (r, x)" by (cases rx)
  with Some assms have "length r \<le> length i" by (metis suffix_length_le)
  with Some rx show ?thesis by (subst many0_ref.simps) simp
qed

lemma nom_ref_laws: "nom_laws nom_ref"
  unfolding nom_laws_def nom_ref_def nom.select_convs
  by (intro conjI allI impI refl many0_ref_law) blast

end
