(* ===== verification/Tr_Seq.thy ===== *)
theory Tr_Seq
  imports Nom_Interface
begin

text \<open>
  The set language of \<open>tr\<close> (\<open>02-coreutils/tr/rust-rewrite/operation.rs\<close>, first half): the
  datatypes \<open>BadSequence\<close>, \<open>Class\<close> and \<open>Sequence\<close>, the parser that turns an operand into a list of
  sequences, and \<open>Sequence::flatten\<close>. The parser is written over the parameter \<open>nom\<close>; warnings
  that go to the standard error stream are not modelled. The payload of \<open>InvalidRepeatCount\<close> and
  \<open>MultipleCharInEquivalence\<close> is kept as the bytes that the code decodes for display.
\<close>

section \<open>Data\<close>

datatype bad_sequence =
    MissingCharClassName
  | MissingEquivalentClassChar
  | MultipleCharRepeatInSet2
  | CharRepeatInSet1
  | InvalidRepeatCount bytes
  | EmptySet2WhenNotTruncatingSet1
  | ClassExceptLowerUpperInSet2
  | ClassInSet2NotMatchedBySet1
  | Set1LongerSet2EndsInClass
  | ComplementMoreThanOneUniqueInSet2
  | BackwardsRange u32 u32
  | MultipleCharInEquivalence bytes

datatype char_class =
    Alnum | Alpha | Blank | Control | Digit | Graph | Lower | Print | Punct | Space | Upper | Xdigit

datatype sequence =
    Char u8
  | CharRange u8 u8
  | CharStar u8
  | CharRepeat u8 nat
  | Class char_class

type_synonym seq_result = "bad_sequence + sequence"

text \<open>The constants of \<open>unicode_table.rs\<close>.\<close>

definition BEL :: u8 where "BEL = 7"
definition BS :: u8 where "BS = 8"
definition HT :: u8 where "HT = 9"
definition LF :: u8 where "LF = 10"
definition VT :: u8 where "VT = 11"
definition FF :: u8 where "FF = 12"
definition CR :: u8 where "CR = 13"
definition SPACE :: u8 where "SPACE = 32"
definition SPACES :: bytes where "SPACES = [HT, LF, VT, FF, CR, SPACE]"
definition BLANK :: bytes where "BLANK = [HT, SPACE]"

lemmas unicode_table_defs =
  BEL_def BS_def HT_def LF_def VT_def FF_def CR_def SPACE_def SPACES_def BLANK_def

section \<open>Flattening\<close>

fun class_bytes :: "char_class \<Rightarrow> bytes" where
  "class_bytes Alnum = brange 48 57 @ brange 65 90 @ brange 97 122"
| "class_bytes Alpha = brange 65 90 @ brange 97 122"
| "class_bytes Blank = BLANK"
| "class_bytes Control = brange 0 31 @ [127]"
| "class_bytes Digit = brange 48 57"
| "class_bytes Graph = brange 48 57 @ brange 65 90 @ brange 97 122 @
     brange 33 47 @ brange 58 64 @ brange 91 96 @ brange 123 126 @ [32]"
| "class_bytes Print = brange 48 57 @ brange 65 90 @ brange 97 122 @
     brange 33 47 @ brange 58 64 @ brange 91 96 @ brange 123 126"
| "class_bytes Punct = brange 33 47 @ brange 58 64 @ brange 91 96 @ brange 123 126"
| "class_bytes Space = SPACES"
| "class_bytes Xdigit = brange 48 57 @ brange 65 70 @ brange 97 102"
| "class_bytes Lower = brange 97 122"
| "class_bytes Upper = brange 65 90"

text \<open>
  An iterator that is drained gives \<open>Some\<close> of what it yields, or \<open>None\<close> when it never ends:
  \<open>CharStar\<close> repeats its byte for ever. What is done with the bytes has its own bounds: a vector
  that collects them holds less than \<open>isize_limit\<close> bytes, and the counter of \<open>count\<close> is a
  \<open>usize\<close> (checked, as in a build with overflow checks; passing it takes \<open>usize_limit\<close> steps).
  An allocation that the memory of the machine refuses aborts the process and is not modelled.
\<close>

fun flatten :: "sequence \<Rightarrow> bytes option" where
  "flatten (Char c) = Some [c]"
| "flatten (CharRange l r) = Some (brange (unat l) (unat r))"
| "flatten (CharStar c) = None"
| "flatten (CharRepeat c n) = Some (replicate n c)"
| "flatten (Class cl) = Some (class_bytes cl)"

fun flat_map_flatten :: "sequence list \<Rightarrow> (bad_sequence, bytes) outcome" where
  \<comment> \<open>the bytes that \<open>iter().flat_map(Self::flatten)\<close> yields until its end\<close>
  "flat_map_flatten [] = Ok []"
| "flat_map_flatten (s # ss) =
     (case flatten s of None \<Rightarrow> Diverge
      | Some b \<Rightarrow> obind (flat_map_flatten ss) (\<lambda>bs. Ok (b @ bs)))"

definition collect_flattened :: "sequence list \<Rightarrow> (bad_sequence, bytes) outcome" where
  \<comment> \<open>\<open>flat_map(Self::flatten).collect()\<close> into a \<open>Vec<u8>\<close>: \<open>capacity overflow\<close> past \<open>isize::MAX\<close>\<close>
  "collect_flattened ss =
     obind (flat_map_flatten ss) (\<lambda>b. if isize_limit \<le> length b then Panic else Ok b)"

definition count_flattened :: "sequence list \<Rightarrow> (bad_sequence, nat) outcome" where
  \<comment> \<open>\<open>flat_map(Self::flatten).count()\<close>\<close>
  "count_flattened ss =
     obind (flat_map_flatten ss) (\<lambda>b. if usize_limit \<le> length b then Panic else Ok (length b))"

section \<open>The parser\<close>

definition octal_chars :: bytes where "octal_chars = bstr ''01234567''"

definition parse_u8_octal :: "bytes \<Rightarrow> u8 option" where
  \<comment> \<open>\<open>u8::from_str_radix(out, 8).ok()\<close>\<close>
  "parse_u8_octal out = map_option of_nat (parse_unsigned 256 8 (map unat out))"

definition parse_octal_digits :: "'r nom \<Rightarrow> nat \<Rightarrow> nat \<Rightarrow> bytes \<Rightarrow> u8 iresult" where
  \<comment> \<open>\<open>map_opt(recognize(many_m_n(m, n, one_of("01234567"))), from_str_radix(8))\<close>\<close>
  "parse_octal_digits N m n input = do {
     (rest, ds) \<leftarrow> nom_many_m_n N m n (nom_one_of N octal_chars) input;
     v \<leftarrow> parse_u8_octal (take (length input - length rest) input);
     Some (rest, v) }"

definition parse_octal_up_to_three_digits :: "'r nom \<Rightarrow> bytes \<Rightarrow> u8 iresult" where
  "parse_octal_up_to_three_digits N input = parse_octal_digits N 1 3 input"

definition parse_octal_up_to_three_digits_with_warning :: "'r nom \<Rightarrow> bytes \<Rightarrow> u8 iresult" where
  \<comment> \<open>a failed conversion is reported on the standard error stream, then the parser fails\<close>
  "parse_octal_up_to_three_digits_with_warning N input = parse_octal_digits N 1 3 input"

definition parse_octal_two_digits :: "'r nom \<Rightarrow> bytes \<Rightarrow> u8 iresult" where
  "parse_octal_two_digits N input = parse_octal_digits N 2 2 input"

definition parse_octal :: "'r nom \<Rightarrow> bytes \<Rightarrow> u8 iresult" where
  "parse_octal N input = do {
     (i, _) \<leftarrow> nom_tag N [92] input;
     parse_octal_up_to_three_digits N i }"

definition parse_octal_with_warning :: "'r nom \<Rightarrow> bytes \<Rightarrow> u8 iresult" where
  "parse_octal_with_warning N input = do {
     (i, _) \<leftarrow> nom_tag N [92] input;
     orelse (parse_octal_up_to_three_digits_with_warning N i) (parse_octal_two_digits N i) }"

definition single_char :: "'r nom \<Rightarrow> bytes \<Rightarrow> u8 iresult" where
  "single_char N input = do { (l, a) \<leftarrow> nom_take N 1 input; Some (l, a ! 0) }"

definition backslash_value :: "u8 \<Rightarrow> u8" where
  "backslash_value a =
     (if a = of_char (CHR ''a'') then BEL
      else if a = of_char (CHR ''b'') then BS
      else if a = of_char (CHR ''f'') then FF
      else if a = of_char (CHR ''n'') then LF
      else if a = of_char (CHR ''r'') then CR
      else if a = of_char (CHR ''t'') then HT
      else if a = of_char (CHR ''v'') then VT
      else a)"

definition parse_backslash :: "'r nom \<Rightarrow> bytes \<Rightarrow> u8 iresult" where
  "parse_backslash N input = do {
     (i, _) \<leftarrow> nom_tag N [92] input;
     (l, a) \<leftarrow> single_char N i;
     Some (l, backslash_value a) }"

definition parse_backslash_or_char :: "'r nom \<Rightarrow> bytes \<Rightarrow> u8 iresult" where
  "parse_backslash_or_char N input =
     orelse (parse_octal N input) (orelse (parse_backslash N input) (single_char N input))"

definition parse_backslash_or_char_with_warning :: "'r nom \<Rightarrow> bytes \<Rightarrow> u8 iresult" where
  "parse_backslash_or_char_with_warning N input =
     orelse (parse_octal_with_warning N input)
       (orelse (parse_backslash N input) (single_char N input))"

definition parse_char_range :: "'r nom \<Rightarrow> bytes \<Rightarrow> seq_result iresult" where
  "parse_char_range N input = do {
     (i, a) \<leftarrow> parse_backslash_or_char N input;
     (i, _) \<leftarrow> nom_tag N (bstr ''-'') i;
     (l, b) \<leftarrow> parse_backslash_or_char N i;
     let start = (ucast a :: u32);
     let endd = (ucast b :: u32);
     Some (l, if endd < start then Inl (BackwardsRange endd start)
              else Inr (CharRange (ucast start) (ucast endd))) }"

definition parse_char_star :: "'r nom \<Rightarrow> bytes \<Rightarrow> seq_result iresult" where
  "parse_char_star N input = do {
     (i, _) \<leftarrow> nom_tag N (bstr ''['') input;
     (i, a) \<leftarrow> parse_backslash_or_char N i;
     (l, _) \<leftarrow> nom_tag N (bstr ''*]'') i;
     Some (l, Inr (CharStar a)) }"

definition repeat_count :: "u8 \<Rightarrow> bytes \<Rightarrow> seq_result" where
  "repeat_count c cnt_str =
     (let n = (if prefix (bstr ''0'') cnt_str
               then parse_unsigned usize_limit 8 (map unat cnt_str)
               else parse_unsigned usize_limit 10 (map unat cnt_str))
      in case n of
           Some 0 \<Rightarrow> Inr (CharStar c)
         | Some (Suc count) \<Rightarrow> Inr (CharRepeat c (Suc count))
         | None \<Rightarrow> Inl (InvalidRepeatCount cnt_str))"

definition parse_char_repeat :: "'r nom \<Rightarrow> bytes \<Rightarrow> seq_result iresult" where
  "parse_char_repeat N input = do {
     (i, _) \<leftarrow> nom_tag N (bstr ''['') input;
     (i, c) \<leftarrow> parse_backslash_or_char N i;
     (i, _) \<leftarrow> nom_tag N (bstr ''*'') i;
     (i, cnt_str) \<leftarrow> nom_take_till N (\<lambda>ue. ue = 93 \<or> ue = 92) i;
     (l, _) \<leftarrow> nom_tag N (bstr '']'') i;
     Some (l, repeat_count c cnt_str) }"

definition class_names :: "(string \<times> char_class) list" where
  "class_names =
     [(''alnum'', Alnum), (''alpha'', Alpha), (''blank'', Blank), (''cntrl'', Control),
      (''digit'', Digit), (''graph'', Graph), (''lower'', Lower), (''print'', Print),
      (''punct'', Punct), (''space'', Space), (''upper'', Upper), (''xdigit'', Xdigit)]"

fun alt_class_names :: "'r nom \<Rightarrow> (string \<times> char_class) list \<Rightarrow> bytes \<Rightarrow> sequence iresult" where
  \<comment> \<open>\<open>alt((value(Class(..), tag(..)), ..))\<close>\<close>
  "alt_class_names N [] input = None"
| "alt_class_names N ((name, cl) # others) input =
     orelse (do { (i, _) \<leftarrow> nom_tag N (bstr name) input; Some (i, Class cl) })
            (alt_class_names N others input)"

definition parse_class :: "'r nom \<Rightarrow> bytes \<Rightarrow> seq_result iresult" where
  "parse_class N input = do {
     (i, _) \<leftarrow> nom_tag N (bstr ''[:'') input;
     (i, res) \<leftarrow> orelse (do { (i, s) \<leftarrow> alt_class_names N class_names i; Some (i, Inr s) })
                   (do { (i, _) \<leftarrow> nom_tag N [] i; Some (i, Inl MissingCharClassName) });
     (l, _) \<leftarrow> nom_tag N (bstr '':]'') i;
     Some (l, res) }"

definition parse_char_equal :: "'r nom \<Rightarrow> bytes \<Rightarrow> seq_result iresult" where
  "parse_char_equal N input = do {
     (i, _) \<leftarrow> nom_tag N (bstr ''[='') input;
     (i, a) \<leftarrow> orelse (do { _ \<leftarrow> nom_tag N (bstr ''=]'') i; Some (i, None) })
                 (do { (i, c) \<leftarrow> parse_backslash_or_char N i; Some (i, Some c) });
     (i, v) \<leftarrow> nom_take_until N (bstr ''=]'') i;
     (l, _) \<leftarrow> nom_tag N (bstr ''=]'') i;
     Some (l, case a of
                None \<Rightarrow> Inl MissingEquivalentClassChar
              | Some c \<Rightarrow> if v = [] then Inr (Char c)
                          else Inl (MultipleCharInEquivalence (c # v))) }"

definition parse_sequence :: "'r nom \<Rightarrow> bytes \<Rightarrow> seq_result iresult" where
  \<comment> \<open>the \<open>alt\<close> inside \<open>from_str\<close>\<close>
  "parse_sequence N input =
     orelse (parse_char_range N input)
    (orelse (parse_char_star N input)
    (orelse (parse_char_repeat N input)
    (orelse (parse_class N input)
    (orelse (parse_char_equal N input)
       (do { (l, s) \<leftarrow> parse_backslash_or_char_with_warning N input; Some (l, Inr (Char s)) })))))"

fun collect_results :: "('e + 'a) list \<Rightarrow> ('e, 'a list) outcome" where
  \<comment> \<open>\<open>collect::<Result<Vec<_>, _>>()\<close>: the first error wins\<close>
  "collect_results [] = Ok []"
| "collect_results (Inl e # rs) = Err e"
| "collect_results (Inr x # rs) = obind (collect_results rs) (\<lambda>xs. Ok (x # xs))"

definition from_str :: "seq_result nom \<Rightarrow> bytes \<Rightarrow> (bad_sequence, sequence list) outcome" where
  "from_str N input =
     (case nom_many0 N (parse_sequence N) input of
        None \<Rightarrow> Panic
      | Some (_, r) \<Rightarrow> collect_results r)"

section \<open>Every parser returns a proper suffix of its input\<close>

lemma strict_suffix_weak: "strict_suffix a b \<Longrightarrow> suffix a b"
  by (simp add: strict_suffix_def)

lemma octal_digits_consumes:
  "nom_laws N \<Longrightarrow> parse_octal_digits N m n i = Some (r, x) \<Longrightarrow> 0 < m \<Longrightarrow> strict_suffix r i"
  by (auto simp: parse_octal_digits_def bind_eq_Some_conv dest: nom_many_m_n_suffix)

lemma single_char_consumes:
  "nom_laws N \<Longrightarrow> single_char N i = Some (r, x) \<Longrightarrow> strict_suffix r i"
  by (cases i) (auto simp: single_char_def bind_eq_Some_conv nom_takeD strict_suffix_def suffix_def)

lemmas small_parser_defs =
  parse_octal_def parse_octal_with_warning_def parse_backslash_def
  parse_octal_up_to_three_digits_def parse_octal_up_to_three_digits_with_warning_def
  parse_octal_two_digits_def

lemma small_parsers_consume:
  assumes "nom_laws N"
  shows "parse_octal N i = Some (r, x) \<Longrightarrow> strict_suffix r i"
    and "parse_octal_with_warning N i = Some (r, x) \<Longrightarrow> strict_suffix r i"
    and "parse_backslash N i = Some (r, x) \<Longrightarrow> strict_suffix r i"
  by (auto simp: small_parser_defs bind_eq_Some_conv orelse_Some_iff
      dest!: nom_tag_suffix [OF assms]
      dest: octal_digits_consumes [OF assms] single_char_consumes [OF assms]
      intro!: strict_suffix_Cons strict_suffix_weak)

lemma char_parsers_consume:
  assumes "nom_laws N"
  shows "parse_backslash_or_char N i = Some (r, x) \<Longrightarrow> strict_suffix r i"
    and "parse_backslash_or_char_with_warning N i = Some (r, x) \<Longrightarrow> strict_suffix r i"
  by (auto simp: parse_backslash_or_char_def parse_backslash_or_char_with_warning_def
      orelse_Some_iff dest: small_parsers_consume [OF assms] single_char_consumes [OF assms])

lemma alt_class_names_suffix:
  assumes "nom_laws N"
  shows "alt_class_names N tbl i = Some (r, x) \<Longrightarrow> suffix r i"
  by (induction tbl) (auto simp: orelse_Some_iff bind_eq_Some_conv dest: nom_tag_suffix [OF assms])

lemma suffix_append_left: "suffix r i \<Longrightarrow> suffix r (t @ i)"
  by (auto simp: suffix_def)

lemma char_parser_suffix:
  assumes "nom_laws N"
  shows "parse_backslash_or_char N i = Some (r, x) \<Longrightarrow> suffix r i"
  by (rule strict_suffix_weak [OF char_parsers_consume(1) [OF assms]])

lemma parse_char_range_consumes:
  assumes "nom_laws N" and "parse_char_range N i = Some (r, x)"
  shows "strict_suffix r i"
proof -
  from assms(2) obtain i1 a i2 u b where
    a: "parse_backslash_or_char N i = Some (i1, a)" and
    t: "nom_tag N (bstr ''-'') i1 = Some (i2, u)" and
    b: "parse_backslash_or_char N i2 = Some (r, b)"
    by (auto simp: parse_char_range_def bind_eq_Some_conv Let_def)
  from char_parser_suffix [OF assms(1) b] nom_tag_suffix [OF assms(1) t]
  have "suffix r i1" using suffix_order.trans by blast
  then show ?thesis
    using char_parsers_consume(1) [OF assms(1) a] suffix_strict_trans(1) by blast
qed

lemma two_bytes_suffix: "zs @ a # b # r = a # b # i \<Longrightarrow> suffix r i"
  by (cases zs; cases "tl zs") (auto simp: suffix_def)

lemma bracket_parsers_consume:
  assumes "nom_laws N"
  shows "parse_char_star N i = Some (r, x) \<Longrightarrow> strict_suffix r i"
    and "parse_char_repeat N i = Some (r, x) \<Longrightarrow> strict_suffix r i"
    and "parse_class N i = Some (r, x) \<Longrightarrow> strict_suffix r i"
    and "parse_char_equal N i = Some (r, x) \<Longrightarrow> strict_suffix r i"
  unfolding parse_char_star_def parse_char_repeat_def parse_class_def parse_char_equal_def
  by (auto simp: bind_eq_Some_conv orelse_Some_iff Let_def
      dest!: nom_tag_suffix [OF assms] char_parser_suffix [OF assms]
        nom_take_till_suffix [OF assms] nom_take_until_suffix [OF assms]
        alt_class_names_suffix [OF assms]
      elim!: suffixE intro!: strict_suffix_Cons suffix_ConsI suffix_append_left
      dest: two_bytes_suffix)

lemma parse_sequence_consumes:
  assumes "nom_laws N"
  shows "parse_sequence N i = Some (r, x) \<Longrightarrow> strict_suffix r i"
  by (auto simp: parse_sequence_def orelse_Some_iff bind_eq_Some_conv
      dest: parse_char_range_consumes [OF assms] bracket_parsers_consume [OF assms]
        char_parsers_consume [OF assms])

section \<open>The whole operand is parsed\<close>

lemma nom_tag_Nil: "nom_laws N \<Longrightarrow> t \<noteq> [] \<Longrightarrow> nom_tag N t [] = None"
  by (simp add: nom_tagD)

lemma single_char_Cons: "nom_laws N \<Longrightarrow> single_char N (c # cs) = Some (cs, c)"
  by (simp add: single_char_def nom_takeD)

lemma parse_sequence_Nil: "nom_laws N \<Longrightarrow> parse_sequence N [] = None"
  by (cases "parse_sequence N []") (auto dest: parse_sequence_consumes simp: strict_suffix_def)

lemma parse_sequence_Cons: "nom_laws N \<Longrightarrow> \<exists>r x. parse_sequence N (c # cs) = Some (r, x)"
  unfolding parse_sequence_def parse_backslash_or_char_with_warning_def
  by (auto simp: orelse_def single_char_Cons split: option.split)

lemma many0_step:
  assumes N: "nom_laws N" and p: "parse_sequence N i = Some (r, x)"
  shows "nom_many0 N (parse_sequence N) i =
           (case nom_many0 N (parse_sequence N) r of None \<Rightarrow> None
            | Some (r', xs) \<Rightarrow> Some (r', x # xs))"
proof -
  have "length r \<noteq> length i"
    using parse_sequence_consumes [OF N p] by (auto simp: strict_suffix_def suffix_def)
  with p show ?thesis
    by (subst nom_many0D [OF N strict_suffix_weak [OF parse_sequence_consumes [OF N]]]) auto
qed

lemma many0_Nil:
  assumes N: "nom_laws N"
  shows "nom_many0 N (parse_sequence N) [] = Some ([], [])"
  by (subst nom_many0D [OF N strict_suffix_weak [OF parse_sequence_consumes [OF N]]])
    (auto simp: parse_sequence_Nil [OF N])

lemma many0_total:
  assumes N: "nom_laws N"
  shows "\<exists>xs. nom_many0 N (parse_sequence N) i = Some ([], xs)"
proof (induction i rule: length_induct)
  case (1 i)
  show ?case
  proof (cases i)
    case Nil
    then show ?thesis by (simp add: many0_Nil [OF N])
  next
    case (Cons c cs)
    then obtain r x where p: "parse_sequence N i = Some (r, x)"
      using parse_sequence_Cons [OF N] by blast
    then have "length r < length i"
      using parse_sequence_consumes [OF N p] by (auto simp: strict_suffix_def suffix_def)
    with 1 obtain xs where "nom_many0 N (parse_sequence N) r = Some ([], xs)" by blast
    with p show ?thesis by (simp add: many0_step [OF N])
  qed
qed

lemma from_str_Nil: "nom_laws N \<Longrightarrow> from_str N [] = Ok []"
  by (simp add: from_str_def many0_Nil)

lemma from_str_step:
  assumes N: "nom_laws N" and p: "parse_sequence N i = Some (r, x)"
  shows "from_str N i =
    (case x of Inl e \<Rightarrow> Err e | Inr s \<Rightarrow> obind (from_str N r) (\<lambda>ss. Ok (s # ss)))"
  using many0_total [OF N, of r]
  by (auto simp: from_str_def many0_step [OF N p] split: sum.split)

lemma returns_collect_results: "returns (collect_results rs)"
  by (induction rs rule: collect_results.induct) (auto simp: returns_obind)

lemma from_str_returns: "nom_laws N \<Longrightarrow> returns (from_str N i)"
  using many0_total [of N i] by (auto simp: from_str_def returns_collect_results)

end
