(* ===== verification/Tr_Syntax.thy ===== *)
theory Tr_Syntax
  imports Tr_Seq
begin

text \<open>
  What the set parser of \<open>tr\<close> recognises: plain bytes, ranges, and a canonical text
  \<open>seq_text\<close> for every sequence from which the parser recovers it.
\<close>

section \<open>Bytes and octal escapes\<close>

lemma tag1: "nom_laws N \<Longrightarrow>
    nom_tag N [t] i = (case i of [] \<Rightarrow> None | c # cs \<Rightarrow> if c = t then Some (cs, [t]) else None)"
  by (auto simp: nom_tagD split: list.split)

lemma tag2: "nom_laws N \<Longrightarrow>
    nom_tag N [t, u] i = (case i of c # d # cs \<Rightarrow> if c = t \<and> d = u then Some (cs, [t, u]) else None
                          | _ \<Rightarrow> None)"
  by (auto simp: nom_tagD split: list.split)

lemma not_backslash:
  assumes "nom_laws N" "c \<noteq> 92"
  shows "parse_octal N (c # cs) = None" "parse_octal_with_warning N (c # cs) = None"
    and "parse_backslash N (c # cs) = None"
    and "parse_backslash_or_char N (c # cs) = Some (cs, c)"
    and "parse_backslash_or_char_with_warning N (c # cs) = Some (cs, c)"
  using assms
  by (simp_all add: small_parser_defs parse_backslash_or_char_def
      parse_backslash_or_char_with_warning_def tag1 single_char_Cons)

definition octal3 :: "u8 \<Rightarrow> bytes" where
  "octal3 c = [92, of_nat (48 + unat c div 64), of_nat (48 + unat c div 8 mod 8),
               of_nat (48 + unat c mod 8)]"

lemma octal_char_mem: "d < 8 \<Longrightarrow> of_nat (48 + d) \<in> set octal_chars"
proof -
  assume "d < 8"
  then have "d \<in> {0, 1, 2, 3, 4, 5, 6, 7}" by auto
  then show ?thesis by (auto simp: octal_chars_def)
qed

lemma unat_octal_digit: "d < 8 \<Longrightarrow> unat (of_nat (48 + d) :: u8) = 48 + d"
  by (simp add: unat_of_nat del: of_nat_add)

lemma digit_val_octal: "d < 8 \<Longrightarrow> digit_val 8 (48 + d) = Some d"
  by (simp add: digit_val_def)

lemma octal_value: "((n :: nat) div 64 * 8 + n div 8 mod 8) * 8 + n mod 8 = n"
proof -
  have "n div 64 = n div 8 div 8" by (simp add: div_mult2_eq [symmetric])
  then have "n div 64 * 8 + n div 8 mod 8 = n div 8" by simp
  then show ?thesis by simp
qed

lemma octal_digit_bounds: "unat (c :: u8) div 64 < 8" "unat c div 8 mod 8 < 8" "unat c mod 8 < 8"
  using unat_u8_less [of c] by auto

lemma parse_u8_octal3:
  "parse_u8_octal (tl (octal3 c)) = Some c"
proof -
  let ?a = "unat c div 64" and ?b = "unat c div 8 mod 8" and ?d = "unat c mod 8"
  have v: "digits_val 8 0 [48 + ?a, 48 + ?b, 48 + ?d] = Some (unat c)"
    using octal_digit_bounds [of c] octal_value [of "unat c"] by (simp add: digit_val_octal del: add_Suc)
  have m: "map unat (tl (octal3 c)) = [48 + ?a, 48 + ?b, 48 + ?d]"
    using octal_digit_bounds [of c] by (simp add: octal3_def unat_octal_digit del: of_nat_add)
  show ?thesis
    unfolding parse_u8_octal_def parse_unsigned_def m using v unat_u8_less [of c] by simp
qed

lemma parse_octal_digits3:
  assumes N: "nom_laws N"
  shows "parse_octal_digits N 1 3 (tl (octal3 c) @ rest) = Some (rest, c)"
proof -
  let ?ds = "tl (octal3 c)"
  have mem: "set ?ds \<subseteq> set octal_chars"
    using octal_digit_bounds [of c] by (auto simp: octal3_def octal_char_mem simp del: of_nat_add)
  obtain x y z where ds: "?ds = [x, y, z]" by (simp add: octal3_def)
  have "nom_many_m_n N 1 3 (nom_one_of N octal_chars) (?ds @ rest) = Some (rest, ?ds)"
    using mem unfolding ds by (simp add: nom_many_m_nD [OF N] nom_one_ofD [OF N] numeral_3_eq_3)
  moreover have "take (length (?ds @ rest) - length rest) (?ds @ rest) = ?ds" by simp
  ultimately show ?thesis
    by (simp add: parse_octal_digits_def parse_u8_octal3)
qed

lemma octal3_split: "octal3 c = 92 # tl (octal3 c)"
  by (simp add: octal3_def)

lemma parse_octal3:
  assumes N: "nom_laws N"
  shows "parse_backslash_or_char N (octal3 c @ rest) = Some (rest, c)"
    and "parse_backslash_or_char_with_warning N (octal3 c @ rest) = Some (rest, c)"
proof -
  have "parse_octal N (octal3 c @ rest) = Some (rest, c)"
    and "parse_octal_with_warning N (octal3 c @ rest) = Some (rest, c)"
    using parse_octal_digits3 [OF N, of c rest]
    by (subst octal3_split, simp add: small_parser_defs tag1 [OF N])+
  then show "parse_backslash_or_char N (octal3 c @ rest) = Some (rest, c)"
    and "parse_backslash_or_char_with_warning N (octal3 c @ rest) = Some (rest, c)"
    by (simp_all add: parse_backslash_or_char_def parse_backslash_or_char_with_warning_def)
qed

section \<open>Single sequences\<close>

lemma parse_sequence_plain:
  assumes N: "nom_laws N" and c: "c \<noteq> 92" "c \<noteq> 91"
    and no_range: "\<And>d ds. cs \<noteq> 45 # d # ds"
  shows "parse_sequence N (c # cs) = Some (cs, Inr (Char c))"
proof -
  have "parse_char_range N (c # cs) = None"
  proof (cases "\<exists>ds. cs = 45 # ds")
    case True
    with no_range have "cs = [45]" by (metis list.exhaust)
    with c show ?thesis
      by (simp add: parse_char_range_def not_backslash [OF N] tag1 [OF N])
        (simp add: parse_backslash_or_char_def small_parser_defs single_char_def
           tag1 [OF N] nom_takeD [OF N])
  next
    case False
    with c show ?thesis
      by (auto simp: parse_char_range_def not_backslash [OF N] tag1 [OF N] split: list.split)
  qed
  with c show ?thesis
    by (simp add: parse_sequence_def parse_char_star_def parse_char_repeat_def parse_class_def
        parse_char_equal_def tag1 [OF N] tag2 [OF N] not_backslash [OF N] split: list.split)
qed

lemma unat_ucast_u8: "unat (ucast (b :: u8) :: u32) = unat b"
proof -
  have "take_bit 32 (unat b) = unat b"
    using unat_u8_less [of b] by (simp add: take_bit_nat_eq_self)
  then show ?thesis by (simp add: unsigned_ucast_eq)
qed

lemma ucast_less_iff: "(ucast (b :: u8) :: u32) < ucast a \<longleftrightarrow> b < a"
  by (simp add: word_less_nat_alt unat_ucast_u8)

lemma ucast_back: "ucast (ucast (a :: u8) :: u32) = a"
  using unat_u8_less [of a]
  by (simp add: word_unat_eq_iff unsigned_ucast_eq take_bit_nat_eq_self take_bit_word_eq_self)

lemma parse_range_of:
  assumes N: "nom_laws N"
    and a: "parse_backslash_or_char N i = Some (45 # j, a)"
    and b: "parse_backslash_or_char N j = Some (r, b)"
  shows "parse_sequence N i =
    Some (r, if b < a then Inl (BackwardsRange (ucast b) (ucast a)) else Inr (CharRange a b))"
  using a b
  by (simp add: parse_sequence_def parse_char_range_def tag1 [OF N] Let_def ucast_less_iff
      ucast_back)

text \<open>
  A canonical text for every sequence: three-digit octal escapes for bytes, the bracket forms
  with a decimal count, and the class names.
\<close>

definition class_name :: "char_class \<Rightarrow> string" where
  "class_name cl = (case cl of Alnum \<Rightarrow> ''alnum'' | Alpha \<Rightarrow> ''alpha'' | Blank \<Rightarrow> ''blank''
     | Control \<Rightarrow> ''cntrl'' | Digit \<Rightarrow> ''digit'' | Graph \<Rightarrow> ''graph'' | Lower \<Rightarrow> ''lower''
     | Print \<Rightarrow> ''print'' | Punct \<Rightarrow> ''punct'' | Space \<Rightarrow> ''space'' | Upper \<Rightarrow> ''upper''
     | Xdigit \<Rightarrow> ''xdigit'')"

fun seq_text :: "sequence \<Rightarrow> bytes" where
  "seq_text (Char c) = octal3 c"
| "seq_text (CharRange l r) = octal3 l @ bstr ''-'' @ octal3 r"
| "seq_text (CharStar c) = bstr ''['' @ octal3 c @ bstr ''*]''"
| "seq_text (CharRepeat c n) = bstr ''['' @ octal3 c @ bstr ''*'' @ bdec n @ bstr '']''"
| "seq_text (Class cl) = bstr ''[:'' @ bstr (class_name cl) @ bstr '':]''"

fun wf_seq :: "sequence \<Rightarrow> bool" where
  "wf_seq (CharRange l r) = (l \<le> r)"
| "wf_seq (CharRepeat c n) = (0 < n \<and> n < usize_limit)"
| "wf_seq s = True"

definition no_dash :: "bytes \<Rightarrow> bool" where
  "no_dash i = (case i of [] \<Rightarrow> True | c # cs \<Rightarrow> c \<noteq> 45)"

lemma parse_seq_text_star:
  assumes N: "nom_laws N"
  shows "parse_sequence N (seq_text (CharStar c) @ rest) = Some (rest, Inr (CharStar c))"
proof -
  have "parse_backslash_or_char N (91 # octal3 c @ x) = Some (octal3 c @ x, 91)" for x
    by (simp add: not_backslash [OF N])
  then have "parse_char_range N (91 # octal3 c @ x) = None" for x
    by (simp add: parse_char_range_def tag1 [OF N] octal3_def)
  then show ?thesis
    by (simp add: parse_sequence_def parse_char_star_def tag1 [OF N] tag2 [OF N] parse_octal3 [OF N])
qed

lemma parse_seq_text_class:
  assumes N: "nom_laws N"
  shows "parse_sequence N (seq_text (Class cl) @ rest) = Some (rest, Inr (Class cl))"
  by (cases cl) (simp_all add: parse_sequence_def parse_char_range_def parse_char_star_def
        parse_char_repeat_def parse_class_def class_name_def class_names_def
        not_backslash [OF N] tag1 [OF N] tag2 [OF N] nom_tagD [OF N])

lemma takeWhile_dec:
  "takeWhile (\<lambda>b. \<not> (b = 93 \<or> b = 92)) (bdec n @ 93 # rest) = bdec n"
  "dropWhile (\<lambda>b. \<not> (b = 93 \<or> b = 92)) (bdec n @ 93 # rest) = 93 # rest"
proof -
  have "\<not> (b = 93 \<or> b = 92)" if "b \<in> set (bdec n)" for b
  proof -
    from that have "unat b \<in> set (dec_digits n)"
      by (metis image_eqI list.set_map unat_bdec)
    then have "unat b \<le> 57" by (auto dest: dec_digits_range)
    then show ?thesis by auto
  qed
  then show "takeWhile (\<lambda>b. \<not> (b = 93 \<or> b = 92)) (bdec n @ 93 # rest) = bdec n"
    and "dropWhile (\<lambda>b. \<not> (b = 93 \<or> b = 92)) (bdec n @ 93 # rest) = 93 # rest"
    by (simp_all add: takeWhile_append2 dropWhile_append2)
qed

lemma dec_digits_hd: "0 < n \<Longrightarrow> hd (dec_digits n) \<noteq> 48"
proof (induction n rule: dec_digits.induct)
  case (1 n)
  then show ?case by (subst dec_digits.simps) (auto simp: hd_append)
qed

lemma bdec_Cons: "\<exists>d ds. bdec n = d # ds \<and> 48 \<le> unat d \<and> unat d \<le> 57"
proof -
  obtain d ds where d: "bdec n = d # ds" by (cases "bdec n") (auto simp: bdec_def)
  with unat_bdec [of n] have "unat d \<in> set (dec_digits n)"
    by (metis list.set_intros(1) list.simps(9))
  with d show ?thesis by (auto dest: dec_digits_range)
qed

lemma unat_numeral_u8_48: "unat (48 :: u8) = 48"
  by simp

lemma repeat_count_dec:
  assumes "0 < n" "n < usize_limit"
  shows "repeat_count c (bdec n) = Inr (CharRepeat c n)"
proof -
  have "\<not> prefix (bstr ''0'') (bdec n)"
  proof
    assume "prefix (bstr ''0'') (bdec n)"
    then have "hd (bdec n) = 48" by (auto simp: prefix_def)
    then have "hd (dec_digits n) = 48"
      by (metis bdec_Cons list.map_sel(1) list.distinct(1) unat_bdec unat_numeral_u8_48)
    with dec_digits_hd assms(1) show False by blast
  qed
  moreover obtain m where "n = Suc m" using assms(1) gr0_implies_Suc by blast
  ultimately show ?thesis
    using parse_unsigned_bdec [OF assms(2)]
    by (simp add: repeat_count_def unat_bdec)
qed

lemma parse_seq_text_repeat:
  assumes N: "nom_laws N" and n: "0 < n" "n < usize_limit"
  shows "parse_sequence N (seq_text (CharRepeat c n) @ rest) = Some (rest, Inr (CharRepeat c n))"
proof -
  have "parse_backslash_or_char N (91 # octal3 c @ x) = Some (octal3 c @ x, 91)" for x
    by (simp add: not_backslash [OF N])
  then have range: "parse_char_range N (91 # octal3 c @ x) = None" for x
    by (simp add: parse_char_range_def tag1 [OF N] octal3_def)
  obtain d ds where d: "bdec n = d # ds" "48 \<le> unat d" "unat d \<le> 57"
    using bdec_Cons by blast
  then have "d \<noteq> 93" by auto
  then have star: "parse_char_star N (91 # octal3 c @ 42 # bdec n @ x) = None" for x
    using d by (simp add: parse_char_star_def tag1 [OF N] tag2 [OF N] parse_octal3 [OF N])
  show ?thesis
    using takeWhile_dec [of n rest] n
    by (simp add: parse_sequence_def range star parse_char_repeat_def tag1 [OF N]
        parse_octal3 [OF N] nom_take_tillD [OF N] repeat_count_dec)
qed

lemma parse_seq_text:
  assumes N: "nom_laws N" and "wf_seq s" "no_dash rest"
  shows "parse_sequence N (seq_text s @ rest) = Some (rest, Inr s)"
proof (cases s)
  case (Char c)
  have "parse_char_range N (octal3 c @ rest) = None"
    using assms(3)
    by (auto simp: parse_char_range_def parse_octal3 [OF N] tag1 [OF N] no_dash_def
        split: list.splits)
  moreover have "parse_char_star N (octal3 c @ rest) = None"
    "parse_char_repeat N (octal3 c @ rest) = None"
    "parse_class N (octal3 c @ rest) = None" "parse_char_equal N (octal3 c @ rest) = None"
    by (simp_all add: octal3_def parse_char_star_def parse_char_repeat_def parse_class_def
        parse_char_equal_def tag1 [OF N] tag2 [OF N])
  ultimately show ?thesis
    by (simp add: Char parse_sequence_def parse_octal3 [OF N])
next
  case (CharRange l r)
  have "parse_sequence N (octal3 l @ 45 # octal3 r @ rest) =
    Some (rest, if r < l then Inl (BackwardsRange (ucast r) (ucast l)) else Inr (CharRange l r))"
    by (rule parse_range_of [OF N parse_octal3(1) [OF N] parse_octal3(1) [OF N]])
  with CharRange assms(2) show ?thesis by simp
next
  case (CharStar c)
  then show ?thesis using parse_seq_text_star [OF N, of c rest] by simp
next
  case (CharRepeat c n)
  then show ?thesis using parse_seq_text_repeat [OF N, of n c rest] assms(2) by simp
next
  case (Class cl)
  then show ?thesis using parse_seq_text_class [OF N, of cl rest] by simp
qed

lemma no_dash_seq_texts: "no_dash (concat (map seq_text ss))"
proof (cases ss)
  case Nil
  then show ?thesis by (simp add: no_dash_def)
next
  case (Cons s ss')
  then show ?thesis by (cases s) (simp_all add: no_dash_def octal3_def)
qed

section \<open>Evaluation on concrete operands\<close>

lemma from_str_Cons:
  assumes N: "nom_laws N"
  shows "from_str N (c # cs) =
    (case parse_sequence N (c # cs) of
       None \<Rightarrow> Panic
     | Some (r, Inl e) \<Rightarrow> Err e
     | Some (r, Inr s) \<Rightarrow> obind (from_str N r) (\<lambda>ss. Ok (s # ss)))"
  using parse_sequence_Cons [OF N, of c cs]
  by (auto simp: from_str_step [OF N] split: sum.split)

lemmas tr_parse_eval =
  from_str_Nil [OF nom_ref_laws] from_str_Cons [OF nom_ref_laws]
  parse_sequence_def parse_char_range_def parse_char_star_def parse_char_repeat_def
  parse_class_def parse_char_equal_def parse_backslash_or_char_def
  parse_backslash_or_char_with_warning_def small_parser_defs single_char_Cons [OF nom_ref_laws]
  parse_octal_digits_def tag1 [OF nom_ref_laws] tag2 [OF nom_ref_laws]
  nom_tagD [OF nom_ref_laws] nom_take_tillD [OF nom_ref_laws] nom_take_untilD [OF nom_ref_laws]
  nom_one_ofD [OF nom_ref_laws] nom_many_m_nD [OF nom_ref_laws] nom_takeD [OF nom_ref_laws]
  split_at_sub.simps class_names_def repeat_count_def parse_unsigned_def digit_val_def
  usize_limit_def octal_chars_def parse_u8_octal_def backslash_value_def

section \<open>Properties\<close>

text \<open>
  C1. Round trip of the set language: every list of well-formed sequences (ranges not backwards,
  repeat counts positive and below \<open>2^64\<close>) is read back by \<open>Sequence::from_str\<close> from its
  canonical text.
\<close>

theorem tr_set_text_roundtrip:
  assumes N: "nom_laws N" and "list_all wf_seq ss"
  shows "from_str N (concat (map seq_text ss)) = Ok ss"
  using assms(2)
proof (induction ss)
  case Nil
  show ?case by (simp add: from_str_Nil [OF N])
next
  case (Cons s ss)
  then have "parse_sequence N (seq_text s @ concat (map seq_text ss)) =
      Some (concat (map seq_text ss), Inr s)"
    by (intro parse_seq_text [OF N] no_dash_seq_texts) simp
  with Cons show ?case by (simp add: from_str_step [OF N])
qed

theorem tr_set_text_roundtrip_witness:
  "nom_laws (nom_ref :: seq_result nom) \<and>
   from_str nom_ref (concat (map seq_text [Char 45, CharRange 97 122, CharRepeat 92 12, CharStar 0, Class Punct])) =
   Ok [Char 45, CharRange 97 122, CharRepeat 92 12, CharStar 0, Class Punct]"
  using tr_set_text_roundtrip [OF nom_ref_laws, of "[Char 45, CharRange 97 122, CharRepeat 92 12, CharStar 0, Class Punct]"]
  by (simp add: nom_ref_laws usize_limit_def)

text \<open>
  The parser of set operands is total: whatever bytes the operand holds, \<open>from_str\<close> returns a
  list of sequences or a \<open>BadSequence\<close>; the \<open>unwrap\<close> on the result of \<open>many0\<close> never panics,
  because some alternative of \<open>parse_sequence\<close> accepts every non-empty input and each consumes it.
\<close>

theorem tr_from_str_total:
  assumes "nom_laws N"
  shows "returns (from_str N input) \<and>
         (\<exists>rs. nom_many0 N (parse_sequence N) input = Some ([], rs))"
  using from_str_returns [OF assms] many0_total [OF assms] by blast

theorem tr_from_str_total_witness:
  "nom_laws (nom_ref :: seq_result nom) \<and> returns (from_str nom_ref (bstr ''[a*'' @ [92])) \<and>
     (\<exists>rs. nom_many0 nom_ref (parse_sequence (nom_ref :: seq_result nom)) (bstr ''[a*'' @ [92]) = Some ([], rs))"
  using tr_from_str_total [OF nom_ref_laws, of "bstr ''[a*'' @ [92]"] nom_ref_laws by blast

end
