(* ===== verification/Tr_Solve.thy ===== *)
theory Tr_Solve
  imports Tr_Syntax
begin

text \<open>
  \<open>Sequence::solve_set_characters\<close> (\<open>operation.rs\<close>): the expansion of the two set operands of
  \<open>tr\<close> with its checks, in the order of the code. Iterators over \<open>CharStar\<close> never end; the
  outcome \<open>Diverge\<close> stands for draining one.
\<close>

fun is_char_star :: "sequence \<Rightarrow> bool" where
  "is_char_star (CharStar c) = True"
| "is_char_star s = False"

fun is_class :: "sequence \<Rightarrow> bool" where
  "is_class (Class cl) = True"
| "is_class s = False"

fun is_case_class :: "sequence \<Rightarrow> bool" where
  "is_case_class (Class Upper) = True"
| "is_case_class (Class Lower) = True"
| "is_case_class s = False"

fun replace_star :: "nat \<Rightarrow> sequence list \<Rightarrow> sequence list" where
  \<comment> \<open>the \<open>filter_map\<close> that replaces \<open>CharStar\<close> with \<open>CharRepeat\<close>; the star of byte 0 is dropped\<close>
  "replace_star n [] = []"
| "replace_star n (CharStar c # ss) =
     (if c = 0 then replace_star n ss else CharRepeat c n # replace_star n ss)"
| "replace_star n (s # ss) = s # replace_star n ss"

definition part_solved_len :: "sequence list \<Rightarrow> nat \<Rightarrow> (bad_sequence, nat) outcome" where
  \<comment> \<open>the number of bytes that the sequences before a position expand to\<close>
  "part_solved_len sq pos =
     (if 1 \<le> pos then count_flattened (take pos sq) else Ok 0)"

fun class_matches :: "sequence list \<Rightarrow> nat \<Rightarrow> nat list \<Rightarrow> (bad_sequence, bool) outcome" where
  \<comment> \<open>the inner loop over the positions of set 1\<close>
  "class_matches set1 len2 [] = Ok False"
| "class_matches set1 len2 (pos1 # ps) =
     (if is_class (set1 ! pos1)
      then obind (part_solved_len set1 pos1)
             (\<lambda>len1. if len1 = len2 then Ok True else class_matches set1 len2 ps)
      else class_matches set1 len2 ps)"

fun check_classes ::
  "sequence list \<Rightarrow> sequence list \<Rightarrow> nat list \<Rightarrow> (bad_sequence, unit) outcome" where
  \<comment> \<open>the outer loop over the positions of set 2\<close>
  "check_classes set1 set2 [] = Ok ()"
| "check_classes set1 set2 (pos2 # ps) =
     (if is_class (set2 ! pos2)
      then obind (part_solved_len set2 pos2)
             (\<lambda>len2. obind (class_matches set1 len2 [0..<length set1])
               (\<lambda>m. if m then check_classes set1 set2 ps else Err ClassInSet2NotMatchedBySet1))
      else check_classes set1 set2 ps)"

definition finish_sets ::
  "sequence list \<Rightarrow> sequence list \<Rightarrow> bytes \<Rightarrow> bytes \<Rightarrow> bool \<Rightarrow> bool \<Rightarrow> bool
     \<Rightarrow> (bad_sequence, bytes \<times> bytes) outcome" where
  \<comment> \<open>the checks on the expanded sets and the truncation of set 1\<close>
  "finish_sets set1 set2 set1_solved set2_solved complement_flag truncate_set1_flag translating =
     (let set2_uniques = remdups_adj (sort set2_solved) in
      if (\<exists>x \<in> set set1. is_class x) \<and> translating \<and> complement_flag \<and>
         (1 < length set2_uniques \<or> length set1_solved < length set2_solved)
      then Err ComplementMoreThanOneUniqueInSet2
      else if length set2_solved < length set1_solved
      then (if truncate_set1_flag then Ok (take (length set2_solved) set1_solved, set2_solved)
            else if set2 \<noteq> [] \<and> is_case_class (last set2) then Err Set1LongerSet2EndsInClass
            else Ok (set1_solved, set2_solved))
      else Ok (set1_solved, set2_solved))"

definition solve_set_characters ::
  "seq_result nom \<Rightarrow> bytes \<Rightarrow> bytes \<Rightarrow> bool \<Rightarrow> bool \<Rightarrow> bool
     \<Rightarrow> (bad_sequence, bytes \<times> bytes) outcome" where
  "solve_set_characters N set1_str set2_str complement_flag truncate_set1_flag translating =
     obind (from_str N set1_str) (\<lambda>set1.
     if length (filter is_char_star set1) \<noteq> 0 then Err CharRepeatInSet1 else
     obind (from_str N set2_str) (\<lambda>set2.
     if 1 < length (filter is_char_star set2) then Err MultipleCharRepeatInSet2 else
     if translating \<and> (\<exists>x \<in> set set2. is_class x \<and> \<not> is_case_class x)
     then Err ClassExceptLowerUpperInSet2 else
     obind (collect_flattened set1) (\<lambda>flat1.
     let set1_solved =
           (if complement_flag then filter (\<lambda>x. x \<notin> set flat1) (brange 0 255) else flat1);
         set1_len = length set1_solved in
     obind (count_flattened (filter (\<lambda>s. \<not> is_char_star s) set2)) (\<lambda>set2_len.
     let star_compensate_len = set1_len - set2_len;
         set2 = replace_star star_compensate_len set2 in
     obind (check_classes set1 set2 [0..<length set2]) (\<lambda>_.
     obind (collect_flattened set2) (\<lambda>set2_solved.
     finish_sets set1 set2 set1_solved set2_solved
       complement_flag truncate_set1_flag translating))))))"

section \<open>Expansion of sequences without a star\<close>

definition seq_bytes :: "sequence \<Rightarrow> bytes" where
  "seq_bytes s = (case flatten s of None \<Rightarrow> [] | Some b \<Rightarrow> b)"

definition star_free :: "sequence list \<Rightarrow> bool" where
  "star_free ss \<longleftrightarrow> (\<forall>s \<in> set ss. \<not> is_char_star s)"

lemma star_free_simps [simp]:
  "star_free []" "star_free (s # ss) \<longleftrightarrow> \<not> is_char_star s \<and> star_free ss"
  "star_free (xs @ ys) \<longleftrightarrow> star_free xs \<and> star_free ys"
  by (auto simp: star_free_def)

lemma star_free_take: "star_free ss \<Longrightarrow> star_free (take n ss)"
  by (auto simp: star_free_def dest: in_set_takeD)

lemma flatten_star_free: "\<not> is_char_star s \<Longrightarrow> flatten s = Some (seq_bytes s)"
  by (cases s) (auto simp: seq_bytes_def)

lemma flat_map_flatten_star_free:
  "star_free ss \<Longrightarrow> flat_map_flatten ss = Ok (concat (map seq_bytes ss))"
  by (induction ss) (auto simp: flatten_star_free)

lemma seq_bytes_simps [simp]:
  "seq_bytes (Char c) = [c]"
  "seq_bytes (CharRange l r) = brange (unat l) (unat r)"
  "seq_bytes (CharRepeat c n) = replicate n c"
  "seq_bytes (Class cl) = class_bytes cl"
  by (simp_all add: seq_bytes_def)

lemma star_free_replace [simp]: "star_free (replace_star n ss)"
  by (induction n ss rule: replace_star.induct) auto

lemma star_free_filter [simp]: "star_free (filter (\<lambda>s. \<not> is_char_star s) ss)"
  by (simp add: star_free_def)

lemma no_star_iff: "length (filter is_char_star ss) = 0 \<longleftrightarrow> star_free ss"
  by (simp add: star_free_def filter_empty_conv)

lemma replace_star_star_free: "star_free ss \<Longrightarrow> replace_star n ss = ss"
  by (induction n ss rule: replace_star.induct) auto

abbreviation flat_len :: "sequence list \<Rightarrow> nat" where
  "flat_len ss \<equiv> length (concat (map seq_bytes ss))"

lemma collect_flattened_star_free:
  "star_free ss \<Longrightarrow> collect_flattened ss =
     (if isize_limit \<le> flat_len ss then Panic else Ok (concat (map seq_bytes ss)))"
  by (simp add: collect_flattened_def flat_map_flatten_star_free)

lemma count_flattened_star_free:
  "star_free ss \<Longrightarrow> count_flattened ss = (if usize_limit \<le> flat_len ss then Panic else Ok (flat_len ss))"
  by (simp add: count_flattened_def flat_map_flatten_star_free)

lemma flat_len_take: "flat_len (take n ss) \<le> flat_len ss"
  by (metis append_take_drop_id concat_append le_add1 length_append map_append)

lemma part_solved_len_star_free:
  assumes "star_free ss" "flat_len ss < usize_limit"
  shows "part_solved_len ss pos = Ok (flat_len (take pos ss))"
  using assms flat_len_take [of pos ss]
  by (cases pos) (simp_all add: part_solved_len_def count_flattened_star_free star_free_take)

lemma class_matches_star_free:
  assumes "star_free set1" "flat_len set1 < usize_limit"
  shows "class_matches set1 len2 ps =
    Ok (\<exists>p \<in> set ps. is_class (set1 ! p) \<and> flat_len (take p set1) = len2)"
  by (induction ps) (auto simp: part_solved_len_star_free [OF assms])

definition class_aligned :: "sequence list \<Rightarrow> sequence list \<Rightarrow> nat \<Rightarrow> bool" where
  \<comment> \<open>some class of set 1 starts at the same place of the expansion as position \<open>p2\<close> of set 2\<close>
  "class_aligned set1 set2 p2 \<longleftrightarrow>
     (\<exists>p1 < length set1. is_class (set1 ! p1) \<and> flat_len (take p1 set1) = flat_len (take p2 set2))"

lemma check_classes_star_free:
  assumes "star_free set1" "flat_len set1 < usize_limit" "star_free set2" "flat_len set2 < usize_limit"
  shows "check_classes set1 set2 ps =
    (if \<forall>p \<in> set ps. is_class (set2 ! p) \<longrightarrow> class_aligned set1 set2 p
     then Ok () else Err ClassInSet2NotMatchedBySet1)"
proof (induction ps)
  case Nil
  show ?case by simp
next
  case (Cons p ps)
  have "class_matches set1 (flat_len (take p set2)) [0..<length set1] = Ok (class_aligned set1 set2 p)"
    by (auto simp: class_matches_star_free [OF assms(1,2)] class_aligned_def)
  with Cons show ?case
    by (cases "is_class (set2 ! p)") (simp_all add: part_solved_len_star_free [OF assms(3,4)])
qed

section \<open>The result of a successful run\<close>

definition expand1 :: "bool \<Rightarrow> sequence list \<Rightarrow> bytes" where
  "expand1 complement_flag set1 =
     (let flat1 = concat (map seq_bytes set1) in
      if complement_flag then filter (\<lambda>x. x \<notin> set flat1) (brange 0 255) else flat1)"

definition expand2 :: "nat \<Rightarrow> sequence list \<Rightarrow> sequence list" where
  "expand2 len1 set2 = replace_star (len1 - flat_len (filter (\<lambda>s. \<not> is_char_star s) set2)) set2"

lemma star_free_expand2 [simp]: "star_free (expand2 n ss)"
  by (simp add: expand2_def)

lemma flat_len_replace_star:
  "flat_len (replace_star n ss) \<le>
     flat_len (filter (\<lambda>s. \<not> is_char_star s) ss) + n * length (filter is_char_star ss)"
  by (induction n ss rule: replace_star.induct) auto

lemma flat_len_expand2:
  assumes "length (filter is_char_star set2) \<le> 1"
  shows "flat_len (expand2 n set2) \<le> max n (flat_len (filter (\<lambda>s. \<not> is_char_star s) set2))"
proof -
  let ?l = "flat_len (filter (\<lambda>s. \<not> is_char_star s) set2)"
  have "flat_len (expand2 n set2) \<le> ?l + (n - ?l) * length (filter is_char_star set2)"
    unfolding expand2_def by (rule flat_len_replace_star)
  also have "\<dots> \<le> ?l + (n - ?l) * 1" using assms by (intro add_left_mono mult_left_mono) simp_all
  finally show ?thesis by simp
qed

lemma length_expand1:
  assumes "flat_len set1 < isize_limit"
  shows "length (expand1 c set1) < isize_limit"
proof -
  have "length (filter P (brange 0 255)) \<le> 256" for P
    using length_filter_le [of P "brange 0 255"] by (simp add: brange_def del: upt_Suc)
  then have "length (filter P (brange 0 255)) < isize_limit" for P
    by (rule le_less_trans) (simp add: isize_limit_def)
  with assms show ?thesis by (simp add: expand1_def Let_def)
qed

text \<open>
  On parsed operands the code is a sequence of rejections followed by \<open>finish_sets\<close>; no iterator
  that it drains is endless, and it panics where an expansion does not fit a vector. The checks on
  the positions of the classes never count that far.
\<close>

lemma solve_set_characters_unfold:
  assumes "from_str N set1_str = Ok set1" "from_str N set2_str = Ok set2"
  shows "solve_set_characters N set1_str set2_str c t tr =
    (if \<not> star_free set1 then Err CharRepeatInSet1
     else if 1 < length (filter is_char_star set2) then Err MultipleCharRepeatInSet2
     else if tr \<and> (\<exists>x \<in> set set2. is_class x \<and> \<not> is_case_class x)
     then Err ClassExceptLowerUpperInSet2
     else if isize_limit \<le> flat_len set1 then Panic
     else if usize_limit \<le> flat_len (filter (\<lambda>s. \<not> is_char_star s) set2) then Panic
     else let e1 = expand1 c set1; set2' = expand2 (length e1) set2 in
       if \<forall>p < length set2'. is_class (set2' ! p) \<longrightarrow> class_aligned set1 set2' p
       then if isize_limit \<le> flat_len set2' then Panic
            else finish_sets set1 set2' e1 (concat (map seq_bytes set2')) c t tr
       else Err ClassInSet2NotMatchedBySet1)"
proof (cases "star_free set1 \<and> length (filter is_char_star set2) \<le> 1 \<and> flat_len set1 < isize_limit \<and>
    flat_len (filter (\<lambda>s. \<not> is_char_star s) set2) < usize_limit")
  case True
  let ?set2 = "expand2 (length (expand1 c set1)) set2"
  have "length (expand1 c set1) < usize_limit"
    using True length_expand1 isize_less_usize less_trans by blast
  with True flat_len_expand2 [of set2 "length (expand1 c set1)"] have "flat_len ?set2 < usize_limit"
    by linarith
  moreover from True isize_less_usize have "flat_len set1 < usize_limit" by linarith
  ultimately have "check_classes set1 ?set2 ps =
    (if \<forall>p \<in> set ps. is_class (?set2 ! p) \<longrightarrow> class_aligned set1 ?set2 p
     then Ok () else Err ClassInSet2NotMatchedBySet1)" for ps
    using True by (intro check_classes_star_free) simp_all
  with True show ?thesis
    unfolding solve_set_characters_def assms obind.simps no_star_iff
    by (auto simp: collect_flattened_star_free count_flattened_star_free Let_def not_le not_less
        simp flip: expand2_def expand1_def [unfolded Let_def])
next
  case False
  then show ?thesis
    unfolding solve_set_characters_def assms obind.simps no_star_iff
    by (auto simp: collect_flattened_star_free count_flattened_star_free Let_def)
qed

end
