(* ===== verification/Tr_Ops.thy ===== *)
theory Tr_Ops
  imports Tr_Solve
begin

text \<open>
  The operations of \<open>tr\<close> (\<open>operation.rs\<close>, second half) and its input loops (\<open>simd.rs\<close> and
  \<open>translate_input\<close>). A \<open>[T; 256]\<close> indexed by a byte is a function from bytes. A writer is a state
  with its \<open>write_all\<close>, which returns the new state and whether it succeeded; the loops return the
  writer's state together with their result, since output that is already written stays written.
\<close>

section \<open>Lookup tables and the operations built on them\<close>

type_synonym 'a table = "u8 \<Rightarrow> 'a"

fun set_to_bitmap_loop :: "bytes \<Rightarrow> bool table \<Rightarrow> bool table" where
  "set_to_bitmap_loop [] bitmap = bitmap"
| "set_to_bitmap_loop (byte # bs) bitmap = set_to_bitmap_loop bs (bitmap(byte := True))"

definition set_to_bitmap :: "bytes \<Rightarrow> bool table" where
  "set_to_bitmap s = set_to_bitmap_loop s (\<lambda>_. False)"

record delete_operation =
  delete_table :: "bool table"

definition delete_new :: "bytes \<Rightarrow> delete_operation" where
  "delete_new s = \<lparr>delete_table = set_to_bitmap s\<rparr>"

definition delete_translate :: "delete_operation \<Rightarrow> u8 \<Rightarrow> delete_operation \<times> u8 option" where
  "delete_translate op current = (op, if \<not> delete_table op current then Some current else None)"

record translate_operation =
  translation_table :: "u8 table"

fun apply_translations :: "(u8 \<times> u8) list \<Rightarrow> u8 table \<Rightarrow> u8 table" where
  "apply_translations [] table = table"
| "apply_translations ((fr, to) # ps) table = apply_translations ps (table(fr := to))"

definition translate_new :: "bytes \<Rightarrow> bytes \<Rightarrow> (bad_sequence, translate_operation) outcome" where
  \<comment> \<open>set 2 is chained with an endless repetition of its last byte; \<open>zip\<close> stops at the end of set 1\<close>
  "translate_new set1 set2 =
     (if set2 \<noteq> [] then
        (let fallback = last set2 in
         Ok \<lparr>translation_table =
               apply_translations (zip set1 (set2 @ replicate (length set1) fallback)) (\<lambda>i. i)\<rparr>)
      else if set1 = [] \<and> set2 = [] then Ok \<lparr>translation_table = (\<lambda>i. i)\<rparr>
      else Err EmptySet2WhenNotTruncatingSet1)"

definition translate_translate ::
  "translate_operation \<Rightarrow> u8 \<Rightarrow> translate_operation \<times> u8 option" where
  "translate_translate op current = (op, Some (translation_table op current))"

record squeeze_operation =
  squeeze_table :: "bool table"
  previous :: "u8 option"

definition squeeze_new :: "bytes \<Rightarrow> squeeze_operation" where
  "squeeze_new set1 = \<lparr>squeeze_table = set_to_bitmap set1, previous = None\<rparr>"

definition squeeze_translate :: "squeeze_operation \<Rightarrow> u8 \<Rightarrow> squeeze_operation \<times> u8 option" where
  "squeeze_translate op current =
     (let nxt = (if squeeze_table op current
                 then (case previous op of
                         Some v \<Rightarrow> if v = current then None else Some current
                       | None \<Rightarrow> Some current)
                 else Some current)
      in (op\<lparr>previous := Some current\<rparr>, nxt))"

definition chained_translate ::
  "('a \<Rightarrow> u8 \<Rightarrow> 'a \<times> u8 option) \<Rightarrow> ('b \<Rightarrow> u8 \<Rightarrow> 'b \<times> u8 option)
     \<Rightarrow> 'a \<times> 'b \<Rightarrow> u8 \<Rightarrow> ('a \<times> 'b) \<times> u8 option" where
  "chained_translate trans_a trans_b st current =
     (case st of (stage_a, stage_b) \<Rightarrow>
        (case trans_a stage_a current of
           (stage_a', None) \<Rightarrow> ((stage_a', stage_b), None)
         | (stage_a', Some c) \<Rightarrow>
             (case trans_b stage_b c of (stage_b', r) \<Rightarrow> ((stage_a', stage_b'), r))))"

section \<open>Whole chunks: \<open>simd.rs\<close>\<close>

text \<open>
  \<open>bytecount::count\<close> is a function of another crate, so it is a parameter; the code relies on it
  counting the occurrences of a byte.
\<close>

type_synonym bytecount = "bytes \<Rightarrow> u8 \<Rightarrow> nat"

definition bytecount_law :: "bytecount \<Rightarrow> bool" where
  "bytecount_law bc \<longleftrightarrow> (\<forall>input c. bc input c = count_list input c)"

definition find_single_change :: "'a table \<Rightarrow> (u8 \<Rightarrow> 'a \<Rightarrow> bool) \<Rightarrow> (u8 \<times> 'a) option" where
  "find_single_change table check =
     (let matches = take 2 (map (\<lambda>i. (i, table i))
                              (filter (\<lambda>i. check i (table i)) (brange 0 255)))
      in if length matches = 1 then Some (matches ! 0) else None)"

definition process_single_char_replace :: "bytecount \<Rightarrow> bytes \<Rightarrow> bytes \<Rightarrow> u8 \<Rightarrow> u8 \<Rightarrow> bytes" where
  "process_single_char_replace bc input output source_char target_char =
     (let count = bc input source_char in
      if count = 0 then output @ input
      else if count = length input then output @ replicate (length input) target_char
      else output @ map (\<lambda>b. if b = source_char then target_char else b) input)"

definition process_single_delete :: "bytecount \<Rightarrow> bytes \<Rightarrow> bytes \<Rightarrow> u8 \<Rightarrow> bytes" where
  "process_single_delete bc input output delete_char =
     (let count = bc input delete_char in
      if count = 0 then output @ input
      else if count < length input then output @ filter (\<lambda>b. b \<noteq> delete_char) input
      else output)"

definition delete_process_chunk :: "bytecount \<Rightarrow> delete_operation \<Rightarrow> bytes \<Rightarrow> bytes \<Rightarrow> bytes" where
  "delete_process_chunk bc op input output =
     (case find_single_change (delete_table op) (\<lambda>_ should_delete. should_delete) of
        Some (delete_char, _) \<Rightarrow> process_single_delete bc input output delete_char
      | None \<Rightarrow> output @ filter (\<lambda>b. \<not> delete_table op b) input)"

definition translate_process_chunk :: "bytecount \<Rightarrow> translate_operation \<Rightarrow> bytes \<Rightarrow> bytes \<Rightarrow> bytes" where
  "translate_process_chunk bc op input output =
     (case find_single_change (translation_table op) (\<lambda>i val. val \<noteq> i) of
        Some (source, target) \<Rightarrow> process_single_char_replace bc input output source target
      | None \<Rightarrow> output @ map (translation_table op) input)"

section \<open>Input loops\<close>

datatype tr_io_error = TrReadError | TrWriteError

type_synonym 'w write_all = "'w \<Rightarrow> bytes \<Rightarrow> 'w \<times> bool"

definition write_output :: "'w write_all \<Rightarrow> 'w \<Rightarrow> bytes \<Rightarrow> 'w \<times> (tr_io_error, unit) outcome" where
  "write_output wr w buf =
     (case wr w buf of (w', ok) \<Rightarrow> (w', if ok then Ok () else Err TrWriteError))"

fun process_input ::
  "'w write_all \<Rightarrow> (bytes \<Rightarrow> bytes \<Rightarrow> bytes) \<Rightarrow> reader \<Rightarrow> 'w \<Rightarrow> 'w \<times> (tr_io_error, unit) outcome"
where
  "process_input wr process_chunk [] w = (w, Ok ())"
| "process_input wr process_chunk (Interrupted # es) w = process_input wr process_chunk es w"
| "process_input wr process_chunk (ReadFailed # es) w = (w, Err TrReadError)"
| "process_input wr process_chunk (Chunk buf # es) w =
     (if buf = [] then (w, Ok ())
      else (let output_buf = process_chunk buf [] in
            if output_buf \<noteq> [] then
              (case write_output wr w output_buf of
                 (w', Ok u) \<Rightarrow> process_input wr process_chunk es w'
               | (w', r) \<Rightarrow> (w', r))
            else process_input wr process_chunk es w))"

fun translate_bytes :: "('s \<Rightarrow> u8 \<Rightarrow> 's \<times> u8 option) \<Rightarrow> 's \<Rightarrow> bytes \<Rightarrow> bytes \<Rightarrow> 's \<times> bytes" where
  \<comment> \<open>the inner loop over the bytes of one read\<close>
  "translate_bytes step st [] output_buf = (st, output_buf)"
| "translate_bytes step st (byte # bs) output_buf =
     (case step st byte of
        (st', Some translated) \<Rightarrow> translate_bytes step st' bs (output_buf @ [translated])
      | (st', None) \<Rightarrow> translate_bytes step st' bs output_buf)"

fun translate_input ::
  "'w write_all \<Rightarrow> ('s \<Rightarrow> u8 \<Rightarrow> 's \<times> u8 option) \<Rightarrow> 's \<Rightarrow> reader \<Rightarrow> 'w
     \<Rightarrow> 'w \<times> (tr_io_error, unit) outcome"
where
  "translate_input wr step st [] w = (w, Ok ())"
| "translate_input wr step st (Interrupted # es) w = translate_input wr step st es w"
| "translate_input wr step st (ReadFailed # es) w = (w, Err TrReadError)"
| "translate_input wr step st (Chunk buf # es) w =
     (if buf = [] then (w, Ok ())
      else (case translate_bytes step st buf [] of
              (st', output_buf) \<Rightarrow>
                if output_buf \<noteq> [] then
                  (case write_output wr w output_buf of
                     (w', Ok u) \<Rightarrow> translate_input wr step st' es w'
                   | (w', r) \<Rightarrow> (w', r))
                else translate_input wr step st' es w))"

section \<open>Tables\<close>

lemma set_to_bitmap_loop: "set_to_bitmap_loop s t b \<longleftrightarrow> b \<in> set s \<or> t b"
  by (induction s arbitrary: t) auto

lemma set_to_bitmap_iff [simp]: "set_to_bitmap s b \<longleftrightarrow> b \<in> set s"
  by (simp add: set_to_bitmap_def set_to_bitmap_loop)

lemma delete_table_new [simp]: "delete_table (delete_new s) b \<longleftrightarrow> b \<in> set s"
  by (simp add: delete_new_def)

lemma apply_translations_other:
  "b \<notin> fst ` set ps \<Longrightarrow> apply_translations ps t b = t b"
  by (induction ps t rule: apply_translations.induct) auto

lemma apply_translations_last:
  "b \<notin> fst ` set qs \<Longrightarrow> apply_translations (ps @ (b, c) # qs) t b = c"
  by (induction ps t rule: apply_translations.induct) (auto simp: apply_translations_other)

lemma find_single_change_Some:
  assumes "find_single_change table check = Some (c, v)"
  shows "v = table c" "check i (table i) \<longleftrightarrow> i = c"
proof -
  let ?F = "filter (\<lambda>i. check i (table i)) (brange 0 255)"
  from assms have len: "length (take 2 (map (\<lambda>i. (i, table i)) ?F)) = 1"
    and hd: "take 2 (map (\<lambda>i. (i, table i)) ?F) ! 0 = (c, v)"
    by (auto simp: find_single_change_def Let_def split: if_splits)
  from len obtain y where F: "?F = [y]"
    by (cases ?F; cases "tl ?F") auto
  with hd have y: "y = c \<and> table y = v" by auto
  then show "v = table c" by blast
  from F y have "set ?F = {c}" by auto
  then show "check i (table i) \<longleftrightarrow> i = c"
    by (auto simp: brange_all set_filter)
qed

section \<open>The fast paths\<close>

lemma count_list_0: "count_list xs c = 0 \<longleftrightarrow> c \<notin> set xs"
  by (simp add: count_list_0_iff)

lemma count_list_length: "count_list xs c = length xs \<Longrightarrow> x \<in> set xs \<Longrightarrow> x = c"
proof (induction xs)
  case (Cons y ys)
  have "count_list ys c \<le> length ys" by (rule count_le_length)
  with Cons show ?case by (auto split: if_splits)
qed simp

lemma process_single_char_replace_eq:
  assumes "bytecount_law bc"
  shows "process_single_char_replace bc input output src tgt =
    output @ map (\<lambda>b. if b = src then tgt else b) input"
proof -
  consider "count_list input src = 0" | "count_list input src = length input"
    | "count_list input src \<noteq> 0" "count_list input src \<noteq> length input" by blast
  then show ?thesis
  proof cases
    case 1
    then have "map (\<lambda>b. if b = src then tgt else b) input = input"
      by (auto simp: count_list_0 intro!: map_idI)
    with 1 assms show ?thesis
      by (simp add: process_single_char_replace_def bytecount_law_def)
  next
    case 2
    then have "\<forall>x \<in> set input. x = src" by (auto dest: count_list_length)
    then have "map (\<lambda>b. if b = src then tgt else b) input = replicate (length input) tgt"
      by (auto simp: map_replicate_const [symmetric])
    with 2 assms show ?thesis
      by (auto simp: process_single_char_replace_def bytecount_law_def Let_def)
  next
    case 3
    with assms show ?thesis
      by (simp add: process_single_char_replace_def bytecount_law_def)
  qed
qed

lemma process_single_delete_eq:
  assumes "bytecount_law bc"
  shows "process_single_delete bc input output c = output @ filter (\<lambda>b. b \<noteq> c) input"
proof -
  have "filter (\<lambda>b. b \<noteq> c) input = input" if "count_list input c = 0"
    using that by (auto simp: count_list_0 filter_id_conv)
  moreover have "filter (\<lambda>b. b \<noteq> c) input = []" if "\<not> count_list input c < length input"
  proof -
    have "count_list input c \<le> length input" by (rule count_le_length)
    with that have "count_list input c = length input" by simp
    then show ?thesis by (auto simp: filter_empty_conv dest: count_list_length)
  qed
  ultimately show ?thesis
    using assms by (simp add: process_single_delete_def bytecount_law_def Let_def)
qed

lemma delete_process_chunk_eq:
  assumes "bytecount_law bc"
  shows "delete_process_chunk bc op input output =
    output @ filter (\<lambda>b. \<not> delete_table op b) input"
proof (cases "find_single_change (delete_table op) (\<lambda>_ d. d)")
  case None
  then show ?thesis by (simp add: delete_process_chunk_def)
next
  case (Some cv)
  obtain c v where cv: "cv = (c, v)" by (cases cv)
  from find_single_change_Some(2) [OF Some [unfolded cv]]
  have "(\<lambda>b. \<not> delete_table op b) = (\<lambda>b. b \<noteq> c)" by blast
  with Some cv show ?thesis
    by (simp add: delete_process_chunk_def process_single_delete_eq [OF assms])
qed

lemma translate_process_chunk_eq:
  assumes "bytecount_law bc"
  shows "translate_process_chunk bc op input output = output @ map (translation_table op) input"
proof (cases "find_single_change (translation_table op) (\<lambda>i val. val \<noteq> i)")
  case None
  then show ?thesis by (simp add: translate_process_chunk_def)
next
  case (Some cv)
  obtain c v where cv: "cv = (c, v)" by (cases cv)
  have "(if b = c then v else b) = translation_table op b" for b
    using find_single_change_Some(1) [OF Some [unfolded cv]]
      find_single_change_Some(2) [OF Some [unfolded cv], of b] by (cases "b = c") auto
  then have "(\<lambda>b. if b = c then v else b) = translation_table op" by blast
  with Some cv show ?thesis
    by (simp add: translate_process_chunk_def process_single_char_replace_eq [OF assms])
qed

end
