(* ===== verification/Tr_Flow.thy ===== *)
theory Tr_Flow
  imports Tr_Ops
begin

text \<open>
  The two traits of \<open>tr\<close> as interfaces. \<open>chunk_processor\<close> is \<open>ChunkProcessor\<close>: a processor appends,
  for each byte of a chunk, an output that depends on that byte alone. \<open>symbol_translator\<close> is
  \<open>SymbolTranslator\<close>: a translator is a byte-by-byte transducer with a state. Each interface gives
  the same kind of fact once for all operations: what an input loop writes depends on the bytes
  that the reader delivers and not on how they are cut into reads.
\<close>

definition vec_write :: "bytes write_all" where
  \<comment> \<open>\<open>Write\<close> for \<open>Vec<u8>\<close>: never fails\<close>
  "vec_write w b = (w @ b, True)"

definition read_result :: "reader \<Rightarrow> (tr_io_error, unit) outcome" where
  "read_result es = (if stream_ok es then Ok () else Err TrReadError)"

section \<open>Chunk processors\<close>

locale chunk_processor =
  fixes process_chunk :: "bytes \<Rightarrow> bytes \<Rightarrow> bytes"
    and per_byte :: "u8 \<Rightarrow> bytes"
  assumes chunk_law: "process_chunk input output = output @ concat (map per_byte input)"
begin

lemma process_input_stream:
  "process_input vec_write process_chunk es w =
     (w @ concat (map per_byte (stream_bytes es)), read_result es)"
proof (induction es arbitrary: w)
  case Nil
  then show ?case by (simp add: read_result_def)
next
  case (Cons e es)
  then show ?case
    by (cases e) (auto simp: write_output_def vec_write_def chunk_law read_result_def Let_def)
qed

lemma chunk_split:
  "process_chunk (a @ b) [] = process_chunk a [] @ process_chunk b []"
  by (simp add: chunk_law)

end

section \<open>Symbol translators\<close>

locale symbol_translator =
  fixes step :: "'s \<Rightarrow> u8 \<Rightarrow> 's \<times> u8 option"
    and sem :: "'s \<Rightarrow> bytes \<Rightarrow> bytes"
  assumes sem_Nil: "sem st [] = []"
    and sem_Cons: "sem st (b # bs) =
      (case step st b of (st', Some c) \<Rightarrow> c # sem st' bs | (st', None) \<Rightarrow> sem st' bs)"
begin

lemma translate_bytes_sem:
  "translate_bytes step st bs out = (st', out') \<Longrightarrow>
     out' @ sem st' rest = out @ sem st (bs @ rest)"
proof (induction bs arbitrary: st out)
  case Nil
  then show ?case by simp
next
  case (Cons b bs)
  then show ?case
    by (auto simp: sem_Cons split: prod.splits option.splits)
qed

lemma translate_input_stream:
  "translate_input vec_write step st es w = (w @ sem st (stream_bytes es), read_result es)"
proof (induction es arbitrary: st w)
  case Nil
  then show ?case by (simp add: sem_Nil read_result_def)
next
  case (Cons e es)
  show ?case
  proof (cases e)
    case (Chunk buf)
    obtain st' out where t: "translate_bytes step st buf [] = (st', out)"
      by (cases "translate_bytes step st buf []")
    have "out @ sem st' (stream_bytes es) = sem st (buf @ stream_bytes es)"
      using translate_bytes_sem [OF t, of "stream_bytes es"] by simp
    with Cons Chunk t show ?thesis
      by (auto simp: write_output_def vec_write_def read_result_def sem_Nil)
  qed (use Cons in \<open>simp_all add: sem_Nil read_result_def\<close>)
qed

end

lemma symbol_translator_chain:
  assumes a: "symbol_translator step_a sem_a" and b: "symbol_translator step_b sem_b"
  shows "symbol_translator (chained_translate step_a step_b)
           (\<lambda>(sa, sb) bs. sem_b sb (sem_a sa bs))"
  by unfold_locales
    (auto simp: chained_translate_def symbol_translator.sem_Nil [OF a]
       symbol_translator.sem_Nil [OF b] symbol_translator.sem_Cons [OF a]
       symbol_translator.sem_Cons [OF b] split: prod.splits option.splits)

section \<open>The operations implement the interfaces\<close>

interpretation delete_chunks: chunk_processor
  "delete_process_chunk count_list op" "\<lambda>b. if delete_table op b then [] else [b]"
  for op
proof unfold_locales
  fix i out
  have "concat (map (\<lambda>b. if delete_table op b then [] else [b]) i) =
      filter (\<lambda>b. \<not> delete_table op b) i"
    by (induction i) auto
  then show "delete_process_chunk count_list op i out =
      out @ concat (map (\<lambda>b. if delete_table op b then [] else [b]) i)"
    by (simp add: delete_process_chunk_eq bytecount_law_def)
qed

interpretation translate_chunks: chunk_processor
  "translate_process_chunk count_list op" "\<lambda>b. [translation_table op b]"
  for op
  by unfold_locales (simp add: translate_process_chunk_eq bytecount_law_def)

definition delete_sem :: "delete_operation \<Rightarrow> bytes \<Rightarrow> bytes" where
  "delete_sem op bs = filter (\<lambda>b. \<not> delete_table op b) bs"

definition translate_sem :: "translate_operation \<Rightarrow> bytes \<Rightarrow> bytes" where
  "translate_sem op bs = map (translation_table op) bs"

fun squeeze_run :: "bool table \<Rightarrow> u8 option \<Rightarrow> bytes \<Rightarrow> bytes" where
  \<comment> \<open>drop a byte of the set that repeats the byte before it\<close>
  "squeeze_run T p [] = []"
| "squeeze_run T p (x # xs) =
     (if T x \<and> p = Some x then squeeze_run T (Some x) xs else x # squeeze_run T (Some x) xs)"

definition squeeze_sem :: "squeeze_operation \<Rightarrow> bytes \<Rightarrow> bytes" where
  "squeeze_sem op bs = squeeze_run (squeeze_table op) (previous op) bs"

interpretation delete_symbols: symbol_translator delete_translate delete_sem
  by unfold_locales (auto simp: delete_translate_def delete_sem_def)

interpretation translate_symbols: symbol_translator translate_translate translate_sem
  by unfold_locales (auto simp: translate_translate_def translate_sem_def)

interpretation squeeze_symbols: symbol_translator squeeze_translate squeeze_sem
  by unfold_locales
    (auto simp: squeeze_translate_def squeeze_sem_def Let_def split: option.splits)

interpretation delete_squeeze: symbol_translator
  "chained_translate delete_translate squeeze_translate"
  "\<lambda>(d, s) bs. squeeze_sem s (delete_sem d bs)"
  by (rule symbol_translator_chain) unfold_locales

interpretation translate_squeeze: symbol_translator
  "chained_translate translate_translate squeeze_translate"
  "\<lambda>(t, s) bs. squeeze_sem s (translate_sem t bs)"
  by (rule symbol_translator_chain) unfold_locales

end
