(* ===== verification/Tr_Main.thy ===== *)
theory Tr_Main
  imports Tr_Flow
begin

text \<open>
  \<open>uumain\<close> of \<open>tr\<close> (\<open>tr.rs\<close>), from the parsed command line to the flush of the output, and the
  properties of the whole utility. The command line parser \<open>clap\<close> is not part of the repository:
  the record \<open>tr_args\<close> is its result. The warning about a trailing backslash goes to the standard
  error stream and is not modelled.
\<close>

record tr_args =
  delete_flag :: bool
  complement_flag :: bool
  squeeze_flag :: bool
  truncate_set1_flag :: bool
  sets :: "bytes list"

datatype tr_error =
    MissingOperand
  | MissingOperandTranslating bytes
  | MissingOperandDeletingSqueezing bytes
  | ExtraOperandDeletingWithoutSqueezing bytes
  | ExtraOperandSimple bytes
  | BadSeq bad_sequence
  | ReadDirectory
  | TrIo tr_io_error
  | FlushError

definition check_operands :: "tr_args \<Rightarrow> (tr_error, unit) outcome" where
  "check_operands a =
     (let sets_len = length (sets a) in
      if sets a = [] then Err MissingOperand
      else if \<not> (delete_flag a \<or> squeeze_flag a) \<and> sets_len = 1
      then Err (MissingOperandTranslating (sets a ! 0))
      else if delete_flag a \<and> squeeze_flag a \<and> sets_len = 1
      then Err (MissingOperandDeletingSqueezing (sets a ! 0))
      else if 1 < sets_len \<and> delete_flag a \<and> \<not> squeeze_flag a
      then Err (if sets_len = 2 then ExtraOperandDeletingWithoutSqueezing (sets a ! 1)
                else ExtraOperandSimple (sets a ! 1))
      else if 2 < sets_len then Err (ExtraOperandSimple (sets a ! 2))
      else Ok ())"

definition nth_or_default :: "bytes list \<Rightarrow> nat \<Rightarrow> bytes" where
  "nth_or_default xs n = (if n < length xs then xs ! n else [])"

definition io_result :: "'w \<times> (tr_io_error, unit) outcome \<Rightarrow> 'w \<times> (tr_error, unit) outcome" where
  "io_result r = (fst r, omap_err TrIo (snd r))"

definition with_translate ::
  "bytes \<Rightarrow> bytes \<Rightarrow> 'w \<Rightarrow> (translate_operation \<Rightarrow> 'w \<times> (tr_error, unit) outcome)
     \<Rightarrow> 'w \<times> (tr_error, unit) outcome" where
  \<comment> \<open>\<open>TranslateOperation::new(set1, set2)?\<close>\<close>
  "with_translate set1 set2 w k =
     (case translate_new set1 set2 of
        Ok op \<Rightarrow> k op | Err e \<Rightarrow> (w, Err (BadSeq e)) | Panic \<Rightarrow> (w, Panic) | Diverge \<Rightarrow> (w, Diverge))"

definition run_operation ::
  "bytecount \<Rightarrow> 'w write_all \<Rightarrow> tr_args \<Rightarrow> bytes \<Rightarrow> bytes \<Rightarrow> reader \<Rightarrow> 'w
     \<Rightarrow> 'w \<times> (tr_error, unit) outcome" where
  "run_operation bc wr a set1 set2 es w =
     (if delete_flag a then
        (if squeeze_flag a then
           io_result (translate_input wr (chained_translate delete_translate squeeze_translate)
                        (delete_new set1, squeeze_new set2) es w)
         else io_result (process_input wr (delete_process_chunk bc (delete_new set1)) es w))
      else if squeeze_flag a then
        (if length (sets a) = 1 then
           io_result (translate_input wr squeeze_translate (squeeze_new set1) es w)
         else with_translate set1 set2 w (\<lambda>translate_op.
           io_result (translate_input wr (chained_translate translate_translate squeeze_translate)
                        (translate_op, squeeze_new set2) es w)))
      else with_translate set1 set2 w (\<lambda>op.
           io_result (process_input wr (translate_process_chunk bc op) es w)))"

definition flush_output :: "('w \<Rightarrow> 'w \<times> bool) \<Rightarrow> 'w \<Rightarrow> 'w \<times> (tr_error, unit) outcome" where
  "flush_output fl w = (case fl w of (w', ok) \<Rightarrow> (w', if ok then Ok () else Err FlushError))"

definition tr_uumain ::
  "seq_result nom \<Rightarrow> bytecount \<Rightarrow> 'w write_all \<Rightarrow> ('w \<Rightarrow> 'w \<times> bool) \<Rightarrow> tr_args \<Rightarrow> bool
     \<Rightarrow> reader \<Rightarrow> 'w \<Rightarrow> 'w \<times> (tr_error, unit) outcome" where
  "tr_uumain N bc wr fl a stdin_is_directory es w =
     (case check_operands a of
        Ok _ \<Rightarrow>
          (let translating = (\<not> delete_flag a \<and> 1 < length (sets a)) in
           (case solve_set_characters N (nth_or_default (sets a) 0) (nth_or_default (sets a) 1)
                   (complement_flag a) (truncate_set1_flag a \<and> translating) translating of
              Ok (set1, set2) \<Rightarrow>
                (if stdin_is_directory then (w, Err ReadDirectory)
                 else (case run_operation bc wr a set1 set2 es w of
                         (w', Ok _) \<Rightarrow> flush_output fl w'
                       | (w', r) \<Rightarrow> (w', r)))
            | Err e \<Rightarrow> (w, Err (BadSeq e))
            | Panic \<Rightarrow> (w, Panic)
            | Diverge \<Rightarrow> (w, Diverge)))
      | r \<Rightarrow> (w, r))"

section \<open>Properties of the set expansion\<close>

lemma finish_sets_Ok:
  assumes "finish_sets set1 set2 a b c t tr = Ok (s1, s2)"
  shows "s2 = b \<and> s1 = (if t then take (length b) a else a)"
  using assms by (auto simp: finish_sets_def Let_def split: if_splits)

lemma solve_set_characters_Ok:
  assumes "solve_set_characters N x y c t tr = Ok (s1, s2)"
  obtains set1 set2 where
    "from_str N x = Ok set1" "from_str N y = Ok set2" "star_free set1"
    "s2 = concat (map seq_bytes (expand2 (length (expand1 c set1)) set2))"
    "s1 = (if t then take (length s2) (expand1 c set1) else expand1 c set1)"
    "length (filter is_char_star set2) \<le> 1"
proof -
  from assms obtain set1 set2 where p: "from_str N x = Ok set1" "from_str N y = Ok set2"
    by (auto simp: solve_set_characters_def obind_Ok_iff split: if_splits)
  from assms show thesis
    unfolding solve_set_characters_unfold [OF p] Let_def
    by (intro that [OF p]) (auto split: if_splits dest!: finish_sets_Ok)
qed

lemma finish_sets_returns: "returns (finish_sets set1 set2 a b c t tr)"
  by (simp add: finish_sets_def Let_def)

definition classes_aligned :: "bool \<Rightarrow> sequence list \<Rightarrow> sequence list \<Rightarrow> bool" where
  \<comment> \<open>every class of the second set, its star expanded, starts where a class of the first one does\<close>
  "classes_aligned c set1 set2 \<longleftrightarrow>
     (let set2' = expand2 (length (expand1 c set1)) set2 in
      \<forall>p < length set2'. is_class (set2' ! p) \<longrightarrow> class_aligned set1 set2' p)"

definition accepted_sets :: "bool \<Rightarrow> sequence list \<Rightarrow> sequence list \<Rightarrow> bool" where
  \<comment> \<open>the rejections before the first expansion do not apply\<close>
  "accepted_sets tr set1 set2 \<longleftrightarrow>
     star_free set1 \<and> length (filter is_char_star set2) \<le> 1 \<and>
     \<not> (tr \<and> (\<exists>x \<in> set set2. is_class x \<and> \<not> is_case_class x))"

abbreviation no_star :: "sequence list \<Rightarrow> sequence list" where
  "no_star ss \<equiv> filter (\<lambda>s. \<not> is_char_star s) ss"

lemma flat_len_no_star: "flat_len (no_star ss) \<le> flat_len (expand2 n ss)"
proof -
  have "flat_len (no_star ss) \<le> flat_len (replace_star m ss)" for m
    by (induction m ss rule: replace_star.induct) auto
  then show ?thesis by (simp add: expand2_def)
qed

lemma solve_parsed:
  assumes p: "from_str N x = Ok set1" "from_str N y = Ok set2"
  shows "solve_set_characters N x y c t tr \<noteq> Diverge \<and>
    (solve_set_characters N x y c t tr = Panic \<longleftrightarrow> accepted_sets tr set1 set2 \<and>
      (isize_limit \<le> flat_len set1 \<or> usize_limit \<le> flat_len (no_star set2) \<or>
       isize_limit \<le> flat_len (no_star set2) \<and> classes_aligned c set1 set2))"
proof (cases "accepted_sets tr set1 set2 \<and> flat_len set1 < isize_limit \<and> flat_len (no_star set2) < usize_limit")
  case True
  let ?e = "expand1 c set1"
  have "length ?e < isize_limit" using True length_expand1 by blast
  moreover have "flat_len (expand2 (length ?e) set2) \<le> max (length ?e) (flat_len (no_star set2))"
    using True by (intro flat_len_expand2) (simp add: accepted_sets_def)
  ultimately have "isize_limit \<le> flat_len (expand2 (length ?e) set2) \<longleftrightarrow> isize_limit \<le> flat_len (no_star set2)"
    using flat_len_no_star [of set2 "length ?e"] by linarith
  then show ?thesis
    using True finish_sets_returns unfolding solve_set_characters_unfold [OF p] Let_def
    by (auto simp: accepted_sets_def classes_aligned_def Let_def returns_iff)
next
  case False
  then show ?thesis
    unfolding solve_set_characters_unfold [OF p] by (auto simp: accepted_sets_def)
qed

text \<open>
  C14. Expanding the sets ends for any two operands and flags: \<open>solve_set_characters\<close> never drains
  the endless iterator of a \<open>CharStar\<close>, and it gives two byte strings or a \<open>BadSequence\<close>, but for
  one panic, the capacity overflow of an expansion that does not fit a vector.  That panic comes
  exactly when both operands parse, no earlier check rejects them, and the first set expands to
  \<open>isize_limit\<close> bytes or more, or the second one does without its star (and passes the check of the
  class positions, or cannot even be counted).
\<close>

theorem tr_solve_returns:
  assumes "nom_laws N"
  shows "solve_set_characters N set1_str set2_str c t tr \<noteq> Diverge \<and>
    (solve_set_characters N set1_str set2_str c t tr = Panic \<longleftrightarrow>
      (\<exists>set1 set2. from_str N set1_str = Ok set1 \<and> from_str N set2_str = Ok set2 \<and>
         accepted_sets tr set1 set2 \<and>
         (isize_limit \<le> flat_len set1 \<or> usize_limit \<le> flat_len (no_star set2) \<or>
          isize_limit \<le> flat_len (no_star set2) \<and> classes_aligned c set1 set2))) \<and>
    flatten (CharStar b) = None"
proof (cases "\<exists>set1 set2. from_str N set1_str = Ok set1 \<and> from_str N set2_str = Ok set2")
  case True
  then show ?thesis using solve_parsed by fastforce
next
  case False
  then have "returns (solve_set_characters N set1_str set2_str c t tr)"
    using from_str_returns [OF assms, of set1_str] from_str_returns [OF assms, of set2_str]
    by (auto simp: solve_set_characters_def returns_obind)
  with False show ?thesis by (auto simp: returns_iff)
qed

theorem tr_solve_returns_witness:
  "solve_set_characters nom_ref (bstr ''[a*9223372036854775808]'') [] False False False = Panic"
proof -
  have "from_str nom_ref (bstr ''[a*9223372036854775808]'') = Ok [CharRepeat 97 9223372036854775808]"
    by (simp add: tr_parse_eval)
  moreover have "accepted_sets False [CharRepeat 97 9223372036854775808] []"
    by (simp add: accepted_sets_def)
  ultimately show ?thesis
    using tr_solve_returns [OF nom_ref_laws] from_str_Nil [OF nom_ref_laws]
    by (fastforce simp: isize_limit_def)
qed

text \<open>
  Complement: with \<open>-c\<close> and no truncation, the expanded set 1 is strictly increasing and holds
  exactly the bytes that the sequences of the operand do not denote.
\<close>

theorem tr_complement_exact:
  assumes "solve_set_characters N set1_str set2_str True False tr = Ok (s1, s2)"
  shows "\<exists>set1. from_str N set1_str = Ok set1 \<and> sorted s1 \<and> distinct s1 \<and>
           (\<forall>b. b \<in> set s1 \<longleftrightarrow> (\<forall>s \<in> set set1. b \<notin> set (seq_bytes s)))"
proof -
  obtain set1 where "from_str N set1_str = Ok set1" and s1: "s1 = expand1 True set1"
    using solve_set_characters_Ok [OF assms] by auto
  moreover have "sorted s1" "distinct s1"
    using s1 distinct_brange [of 255 0] sorted_brange [of 255 0]
    by (simp_all add: expand1_def Let_def sorted_wrt_filter)
  moreover have "b \<in> set s1 \<longleftrightarrow> (\<forall>s \<in> set set1. b \<notin> set (seq_bytes s))" for b
    using s1 brange_all by (auto simp: expand1_def Let_def)
  ultimately show ?thesis by blast
qed

theorem tr_complement_exact_witness:
  "\<exists>set1. from_str nom_ref (bstr [CHR 0x02, CHR ''-'', CHR 0xff]) = Ok set1 \<and>
     sorted [0, 1 :: u8] \<and> distinct [0, 1 :: u8] \<and>
     (\<forall>b. b \<in> set [0, 1] \<longleftrightarrow> (\<forall>s \<in> set set1. b \<notin> set (seq_bytes s)))"
proof -
  have b: "brange 0 255 = [0, 1] @ brange 2 255"
    unfolding brange_def using upt_add_eq_append [of 0 2 254] by (simp add: upt_conv_Cons)
  have "solve_set_characters nom_ref (bstr [CHR 0x02, CHR ''-'', CHR 0xff]) [] True False False =
      Ok ([0, 1], [])"
    unfolding solve_set_characters_def b
    by (simp add: tr_parse_eval finish_sets_def set_brange collect_flattened_def count_flattened_def
        isize_limit_def usize_limit_def)
  from tr_complement_exact [OF this] show ?thesis .
qed

text \<open>
  The star pads set 2 to the length of set 1: when set 2 holds a \<open>[c*]\<close> with \<open>c\<close> not the byte
  0, the expanded set 2 is never shorter than set 1, and it has exactly the length of set 1 when
  its other sequences are not longer than that.
\<close>

theorem tr_star_fill:
  assumes "solve_set_characters N set1_str set2_str c False tr = Ok (s1, s2)"
    and "from_str N set2_str = Ok (xs @ CharStar b # ys)" and "b \<noteq> 0"
  shows "length s2 = max (length s1) (length (concat (map seq_bytes (xs @ ys))))"
proof -
  obtain set1 set2 where "from_str N set1_str = Ok set1" "from_str N set2_str = Ok set2"
    "star_free set1" and s2': "s2 = concat (map seq_bytes (expand2 (length (expand1 c set1)) set2))"
    and s1': "s1 = (if False then take (length s2) (expand1 c set1) else expand1 c set1)"
    and one': "length (filter is_char_star set2) \<le> 1"
    by (rule solve_set_characters_Ok [OF assms(1)])
  with assms(2) have s2: "s2 = concat (map seq_bytes (expand2 (length s1) (xs @ CharStar b # ys)))"
    and one: "length (filter is_char_star (xs @ CharStar b # ys)) \<le> 1"
    by simp_all
  from one have sf: "star_free xs" "star_free ys"
    by (simp_all add: star_free_def filter_empty_conv)
  have repl: "replace_star n (us @ vs) = replace_star n us @ replace_star n vs" for n us vs
    by (induction n us rule: replace_star.induct) auto
  have id: "filter (\<lambda>s. \<not> is_char_star s) us = us" if "star_free us" for us
    using that by (simp add: star_free_def filter_id_conv)
  from s2 assms(3) show ?thesis
    by (simp add: expand2_def repl replace_star_star_free [OF sf(1)]
        replace_star_star_free [OF sf(2)] id [OF sf(1)] id [OF sf(2)])
qed

theorem tr_star_fill_witness:
  "length [120, 121, 121 :: u8] = max (length [97, 98, 99 :: u8]) (length (concat (map seq_bytes ([Char 120] @ []))))"
proof (rule tr_star_fill)
  have r: "replicate 2 x = [x, x]" for x :: u8 by (simp add: numeral_2_eq_2)
  have p1: "from_str nom_ref (bstr ''abc'') = Ok [Char 97, Char 98, Char 99]"
    by (simp add: tr_parse_eval)
  show p2: "from_str nom_ref (bstr ''x[y*]'') = Ok ([Char 120] @ CharStar 121 # [])"
    by (simp add: tr_parse_eval)
  show "solve_set_characters nom_ref (bstr ''abc'') (bstr ''x[y*]'') False False True =
      Ok ([97, 98, 99], [120, 121, 121])"
    unfolding solve_set_characters_unfold [OF p1 p2]
    by (simp add: expand1_def expand2_def finish_sets_def Let_def less_Suc_eq nth_Cons' r
        isize_limit_def usize_limit_def)
qed simp

section \<open>Properties of the operations\<close>

text \<open>
  The fast paths change nothing: for every table, \<open>process_chunk\<close> with its single-character
  shortcuts appends the same bytes as the plain table lookup, for deletion and for translation.
\<close>

theorem tr_fast_paths:
  assumes "bytecount_law bc"
  shows "delete_process_chunk bc d inp out = out @ filter (\<lambda>b. \<not> delete_table d b) inp \<and>
         translate_process_chunk bc t inp out = out @ map (translation_table t) inp"
  by (simp add: delete_process_chunk_eq [OF assms] translate_process_chunk_eq [OF assms])

theorem tr_fast_paths_witness:
  "delete_process_chunk count_list (delete_new [97]) [97, 98] [1] =
     [1] @ filter (\<lambda>b. \<not> delete_table (delete_new [97]) b) [97, 98] \<and>
   translate_process_chunk count_list \<lparr>translation_table = (\<lambda>i. i)(97 := 65)\<rparr> [97, 98] [1] =
     [1] @ map (translation_table \<lparr>translation_table = (\<lambda>i. i)(97 := 65)\<rparr>) [97, 98]"
  by (rule tr_fast_paths) (simp add: bytecount_law_def)

lemma translate_new_table:
  assumes "translate_new set1 set2 = Ok op"
  shows "(b \<notin> set set1 \<longrightarrow> translation_table op b = b) \<and>
    (\<forall>xs ys. set1 = xs @ b # ys \<and> b \<notin> set ys \<longrightarrow>
       translation_table op b = (if length xs < length set2 then set2 ! length xs else last set2))"
proof (cases "set2 = []")
  case True
  with assms have "set1 = []" "translation_table op = (\<lambda>i. i)"
    by (auto simp: translate_new_def split: if_splits)
  then show ?thesis by simp
next
  case False
  let ?tos = "set2 @ replicate (length set1) (last set2)"
  from False assms have op: "translation_table op = apply_translations (zip set1 ?tos) (\<lambda>i. i)"
    by (auto simp: translate_new_def Let_def)
  have "translation_table op b = b" if "b \<notin> set set1"
    using that unfolding op by (intro apply_translations_other) (auto dest: set_zip_leftD)
  moreover have "translation_table op b = ?tos ! length xs"
    if "set1 = xs @ b # ys" "b \<notin> set ys" for xs ys
  proof -
    have "length xs < length ?tos" using that(1) by simp
    then have "?tos = take (length xs) ?tos @ ?tos ! length xs # drop (Suc (length xs)) ?tos"
      by (rule id_take_nth_drop)
    moreover have "length (take (length xs) ?tos) = length xs" using that(1) by simp
    ultimately have "zip set1 ?tos = zip xs (take (length xs) ?tos) @
        (b, ?tos ! length xs) # zip ys (drop (Suc (length xs)) ?tos)"
      by (metis that(1) zip_append zip_Cons_Cons)
    moreover have "b \<notin> fst ` set (zip ys (drop (Suc (length xs)) ?tos))"
      using that(2) by (auto dest: set_zip_leftD)
    ultimately show ?thesis unfolding op by (metis apply_translations_last)
  qed
  moreover have "?tos ! length xs = (if length xs < length set2 then set2 ! length xs else last set2)"
    if "set1 = xs @ b # ys" for xs ys
  proof -
    from that have "length xs < length set1" by simp
    then show ?thesis by (simp add: nth_append)
  qed
  ultimately show ?thesis by metis
qed

section \<open>Squeezing\<close>

lemma squeeze_run_head:
  "squeeze_run T p xs = y # ys \<Longrightarrow> \<not> (T y \<and> p = Some y)"
  by (induction xs arbitrary: p) (auto split: if_splits)

lemma squeeze_run_no_repeat:
  "squeeze_run T p xs = us @ x # x # vs \<Longrightarrow> \<not> T x"
proof (induction xs arbitrary: p us)
  case Nil
  then show ?case by simp
next
  case (Cons z zs)
  show ?case
  proof (cases "T z \<and> p = Some z")
    case True
    with Cons show ?thesis by simp
  next
    case False
    with Cons.prems have eq: "z # squeeze_run T (Some z) zs = us @ x # x # vs" by simp
    show ?thesis
    proof (cases us)
      case Nil
      with eq have "squeeze_run T (Some x) zs = x # vs" by auto
      then show ?thesis using squeeze_run_head by blast
    next
      case (Cons u us')
      with eq have "squeeze_run T (Some z) zs = us' @ x # x # vs" by auto
      then show ?thesis by (rule Cons.IH)
    qed
  qed
qed

lemma squeeze_run_fixpoint:
  "(\<And>us x vs. xs = us @ x # x # vs \<Longrightarrow> \<not> T x) \<Longrightarrow> (\<And>y ys. xs = y # ys \<Longrightarrow> \<not> (T y \<and> p = Some y)) \<Longrightarrow>
     squeeze_run T p xs = xs"
proof (induction xs arbitrary: p)
  case Nil
  then show ?case by simp
next
  case (Cons z zs)
  have "squeeze_run T (Some z) zs = zs"
  proof (rule Cons.IH)
    show "\<not> T x" if "zs = us @ x # x # vs" for us x vs
      using Cons.prems(1) [of "z # us" x vs] that by simp
    show "\<not> (T y \<and> Some z = Some y)" if "zs = y # ys" for y ys
      using Cons.prems(1) [of "[]" z ys] that by auto
  qed
  with Cons.prems(2) show ?case by auto
qed

lemma squeeze_run_filter:
  "squeeze_run T p xs = map snd (filter (\<lambda>(before, x). \<not> (T x \<and> before = Some x)) (zip (p # map Some xs) xs))"
  by (induction xs arbitrary: p) auto

lemma squeeze_run_subseq: "subseq (squeeze_run T p xs) xs"
  by (induction xs arbitrary: p) (auto intro: list_emb_Cons)

lemma squeeze_run_idem: "squeeze_run T None (squeeze_run T p xs) = squeeze_run T p xs"
  by (rule squeeze_run_fixpoint) (auto dest: squeeze_run_no_repeat)

section \<open>The whole utility\<close>

abbreviation std_flush :: "bytes \<Rightarrow> bytes \<times> bool" where
  "std_flush w \<equiv> (w, True)"

lemma read_result_simps:
  "stream_ok es \<Longrightarrow> read_result es = Ok ()" "\<not> stream_ok es \<Longrightarrow> read_result es = Err TrReadError"
  by (simp_all add: read_result_def)

text \<open>
  \<open>tr -d SET1\<close>: whatever way the input arrives (chunk sizes, interruptions), the output is the
  input without the bytes of the expanded set, and the run succeeds unless a read fails; the bytes
  read before a failing read are still processed and written.
\<close>

theorem tr_delete_main:
  assumes "bytecount_law bc"
    and "solve_set_characters N set1_str [] c False False = Ok (s1, s2)"
  shows "tr_uumain N bc vec_write std_flush
      \<lparr>delete_flag = True, complement_flag = c, squeeze_flag = False, truncate_set1_flag = t,
        sets = [set1_str]\<rparr> False es [] =
    (filter (\<lambda>b. b \<notin> set s1) (stream_bytes es),
     if stream_ok es then Ok () else Err (TrIo TrReadError))"
proof -
  have bc: "bc = count_list" using assms(1) by (auto simp: bytecount_law_def fun_eq_iff)
  have "concat (map (\<lambda>b. if b \<in> set s1 then [] else [b]) xs) = filter (\<lambda>b. b \<notin> set s1) xs" for xs
    by (induction xs) auto
  then show ?thesis
    using assms(2)
    by (simp add: tr_uumain_def check_operands_def nth_or_default_def run_operation_def bc
        delete_chunks.process_input_stream io_result_def read_result_def flush_output_def)
qed

theorem tr_delete_main_witness:
  "tr_uumain nom_ref count_list vec_write std_flush
      \<lparr>delete_flag = True, complement_flag = False, squeeze_flag = False, truncate_set1_flag = False,
        sets = [bstr ''ab'']\<rparr> False [Chunk (bstr ''cab''), Interrupted, Chunk (bstr ''bd'')] [] =
    (filter (\<lambda>b. b \<notin> set (bstr ''ab''))
       (stream_bytes [Chunk (bstr ''cab''), Interrupted, Chunk (bstr ''bd'')]),
     if stream_ok [Chunk (bstr ''cab''), Interrupted, Chunk (bstr ''bd'')]
     then Ok () else Err (TrIo TrReadError))"
proof (rule tr_delete_main)
  show "bytecount_law count_list" by (simp add: bytecount_law_def)
  have p: "from_str nom_ref (bstr ''ab'') = Ok [Char 97, Char 98]" by (simp add: tr_parse_eval)
  show "solve_set_characters nom_ref (bstr ''ab'') [] False False False = Ok (bstr ''ab'', [])"
    unfolding solve_set_characters_unfold [OF p from_str_Nil [OF nom_ref_laws]]
    by (simp add: expand1_def expand2_def finish_sets_def Let_def isize_limit_def usize_limit_def)
qed

text \<open>
  C3. \<open>tr -s SET1\<close>: the output keeps every byte of the input but those of the set that repeat the
  byte before them, so the first byte of each run stays. No byte of the set stands next to an equal
  byte in the output, squeezing it again changes nothing, and the bytes outside the set keep their
  number; all of this across the boundaries of the reads.
\<close>

theorem tr_squeeze_main:
  assumes "solve_set_characters N set1_str [] c False False = Ok (s1, s2)" and "stream_ok es"
  shows "\<exists>out. tr_uumain N bc vec_write std_flush
      \<lparr>delete_flag = False, complement_flag = c, squeeze_flag = True, truncate_set1_flag = t,
        sets = [set1_str]\<rparr> False es [] = (out, Ok ()) \<and>
    out = map snd (filter (\<lambda>(before, x). \<not> (x \<in> set s1 \<and> before = Some x))
      (zip (None # map Some (stream_bytes es)) (stream_bytes es))) \<and>
    subseq out (stream_bytes es) \<and>
    (\<forall>us x vs. out = us @ x # x # vs \<longrightarrow> x \<notin> set s1) \<and>
    squeeze_sem (squeeze_new s1) out = out \<and>
    (\<forall>b. b \<notin> set s1 \<longrightarrow> count_list out b = count_list (stream_bytes es) b)"
proof -
  let ?T = "set_to_bitmap s1"
  let ?out = "squeeze_run ?T None (stream_bytes es)"
  have "tr_uumain N bc vec_write std_flush
      \<lparr>delete_flag = False, complement_flag = c, squeeze_flag = True, truncate_set1_flag = t,
        sets = [set1_str]\<rparr> False es [] = (?out, Ok ())"
    using assms
    by (simp add: tr_uumain_def check_operands_def nth_or_default_def run_operation_def
        squeeze_symbols.translate_input_stream io_result_def read_result_def flush_output_def
        squeeze_sem_def squeeze_new_def)
  moreover have "count_list (squeeze_run ?T p xs) b = count_list xs b" if "b \<notin> set s1" for p xs b
    using that by (induction xs arbitrary: p) auto
  moreover have "x \<notin> set s1" if "?out = us @ x # x # vs" for us x vs
    using squeeze_run_no_repeat [OF that] by simp
  moreover have "?out = map snd (filter (\<lambda>(before, x). \<not> (x \<in> set s1 \<and> before = Some x))
      (zip (None # map Some (stream_bytes es)) (stream_bytes es)))"
    unfolding squeeze_run_filter by simp
  moreover have "squeeze_sem (squeeze_new s1) ?out = ?out"
    by (simp add: squeeze_sem_def squeeze_new_def squeeze_run_idem)
  ultimately show ?thesis using squeeze_run_subseq by blast
qed

theorem tr_squeeze_main_witness:
  "tr_uumain nom_ref count_list vec_write std_flush
      \<lparr>delete_flag = False, complement_flag = False, squeeze_flag = True,
        truncate_set1_flag = False, sets = [bstr ''a'']\<rparr> False
      [Chunk (bstr ''aab''), Chunk (bstr ''bca''), Chunk (bstr ''a'')] [] = (bstr ''abbca'', Ok ())"
proof -
  have p: "from_str nom_ref (bstr ''a'') = Ok [Char 97]" by (simp add: tr_parse_eval)
  have "solve_set_characters nom_ref (bstr ''a'') [] False False False = Ok (bstr ''a'', [])"
    unfolding solve_set_characters_unfold [OF p from_str_Nil [OF nom_ref_laws]]
    by (simp add: expand1_def expand2_def finish_sets_def Let_def isize_limit_def usize_limit_def)
  from tr_squeeze_main [OF this, of "[Chunk (bstr ''aab''), Chunk (bstr ''bca''), Chunk (bstr ''a'')]"]
  show ?thesis by auto
qed

lemma brange_split:
  assumes "l \<le> unat b" "unat b \<le> r" "r < 256"
  shows "\<exists>xs ys. brange l r = xs @ b # ys \<and> length xs = unat b - l \<and> b \<notin> set ys"
proof -
  have "[l..<Suc r] = [l..<unat b] @ unat b # [Suc (unat b)..<Suc r]"
    using assms by (metis le_Suc_eq le_add_diff_inverse less_Suc_eq_le upt_add_eq_append
        upt_conv_Cons le_imp_less_Suc)
  then have "brange l r = map of_nat [l..<unat b] @ b # map of_nat [Suc (unat b)..<Suc r]"
    by (simp add: brange_def)
  moreover from this distinct_brange [OF assms(3), of l]
  have "b \<notin> set (map of_nat [Suc (unat b)..<Suc r])" by auto
  ultimately show ?thesis by (metis length_map length_upt)
qed

lemma case_classes_solved:
  "solve_set_characters nom_ref (bstr ''[:lower:]'') (bstr ''[:upper:]'') False False True =
     Ok (brange 97 122, brange 65 90)"
proof -
  have p1: "from_str nom_ref (bstr ''[:lower:]'') = Ok [Class Lower]"
    by (simp add: tr_parse_eval)
  have p2: "from_str nom_ref (bstr ''[:upper:]'') = Ok [Class Upper]"
    by (simp add: tr_parse_eval)
  show ?thesis
    unfolding solve_set_characters_unfold [OF p1 p2]
    by (simp add: expand1_def expand2_def finish_sets_def Let_def class_aligned_def
        seq_bytes_def isize_limit_def usize_limit_def)
qed

lemma translate_new_ok: "s1 = [] \<or> s2 \<noteq> [] \<Longrightarrow> \<exists>op. translate_new s1 s2 = Ok op"
  by (auto simp: translate_new_def Let_def)

text \<open>
  C2. \<open>tr SET1 SET2\<close>, from the text of the operands to the flush.  When the sets expand to \<open>s1\<close> and \<open>s2\<close>,
  the output is the input with every byte mapped: a byte outside \<open>s1\<close> is kept; a byte of \<open>s1\<close> becomes
  the byte at the same place of \<open>s2\<close>, extended by its last byte, and where it occurs several times in
  \<open>s1\<close> its last occurrence decides.  When only \<open>s2\<close> is empty, nothing is written and the run fails.
\<close>

theorem tr_translate_main:
  assumes "bytecount_law bc" and "solve_set_characters N set1_str set2_str c t True = Ok (s1, s2)"
    and "tr_uumain N bc vec_write std_flush
      \<lparr>delete_flag = False, complement_flag = c, squeeze_flag = False, truncate_set1_flag = t,
        sets = [set1_str, set2_str]\<rparr> False es [] = (written, r)"
  shows "if s1 \<noteq> [] \<and> s2 = [] then written = [] \<and> r = Err (BadSeq EmptySet2WhenNotTruncatingSet1)
    else r = (if stream_ok es then Ok () else Err (TrIo TrReadError)) \<and>
      (\<exists>f. written = map f (stream_bytes es) \<and> (\<forall>b. b \<notin> set s1 \<longrightarrow> f b = b) \<and>
        (\<forall>xs b ys. s1 = xs @ b # ys \<and> b \<notin> set ys \<longrightarrow>
           f b = (if length xs < length s2 then s2 ! length xs else last s2)))"
proof (cases "s1 \<noteq> [] \<and> s2 = []")
  case True
  then have "translate_new s1 s2 = Err EmptySet2WhenNotTruncatingSet1" by (auto simp: translate_new_def)
  with True assms(2,3) show ?thesis
    by (simp add: tr_uumain_def check_operands_def nth_or_default_def run_operation_def with_translate_def)
next
  case False
  have bc: "bc = count_list" using assms(1) by (auto simp: bytecount_law_def fun_eq_iff)
  from False translate_new_ok obtain op where op: "translate_new s1 s2 = Ok op" by blast
  have cm: "concat (map (\<lambda>b. [translation_table op b]) xs) = map (translation_table op) xs" for xs
    by (induction xs) auto
  from assms(2,3) have "written = map (translation_table op) (stream_bytes es)"
    "r = (if stream_ok es then Ok () else Err (TrIo TrReadError))"
    by (auto simp: tr_uumain_def check_operands_def nth_or_default_def run_operation_def with_translate_def op bc
        translate_chunks.process_input_stream io_result_def read_result_def flush_output_def cm
        split: if_splits)
  moreover have "\<forall>b. b \<notin> set s1 \<longrightarrow> translation_table op b = b"
    "\<forall>xs b ys. s1 = xs @ b # ys \<and> b \<notin> set ys \<longrightarrow>
       translation_table op b = (if length xs < length s2 then s2 ! length xs else last s2)"
    using translate_new_table [OF op] by blast+
  ultimately show ?thesis using False by (simp only: if_False) blast
qed

theorem tr_translate_main_witness:
  "tr_uumain nom_ref count_list vec_write std_flush
      \<lparr>delete_flag = False, complement_flag = False, squeeze_flag = False,
        truncate_set1_flag = False, sets = [bstr ''[:lower:]'', bstr ''[:upper:]'']\<rparr> False
      [Chunk (bstr ''aZ''), Chunk (bstr ''1'')] [] = (bstr ''AZ1'', Ok ())"
proof -
  let ?u = "tr_uumain nom_ref count_list vec_write std_flush
      \<lparr>delete_flag = False, complement_flag = False, squeeze_flag = False,
        truncate_set1_flag = False, sets = [bstr ''[:lower:]'', bstr ''[:upper:]'']\<rparr> False
      [Chunk (bstr ''aZ''), Chunk (bstr ''1'')] []"
  have law: "bytecount_law count_list" by (simp add: bytecount_law_def)
  have "brange 65 90 \<noteq> []" by (simp flip: length_0_conv)
  then have ne: "\<not> (brange 97 122 \<noteq> [] \<and> brange 65 90 = [])" by simp
  from tr_translate_main [OF law case_classes_solved surjective_pairing [of ?u]] ne
  obtain f where f: "fst ?u = map f (bstr ''aZ1'')" "snd ?u = Ok ()" "\<forall>b. b \<notin> set (brange 97 122) \<longrightarrow> f b = b"
    "\<forall>xs b ys. brange 97 122 = xs @ b # ys \<and> b \<notin> set ys \<longrightarrow>
       f b = (if length xs < length (brange 65 90) then brange 65 90 ! length xs else last (brange 65 90))"
    by (simp only: if_False) auto
  from brange_split [of 97 97 122] obtain ys where "brange 97 122 = [] @ 97 # ys" "97 \<notin> set ys" by auto
  with f(4) have "f 97 = (if length ([] :: bytes) < length (brange 65 90) then brange 65 90 ! length ([] :: bytes)
      else last (brange 65 90))" by blast
  also have "\<dots> = 65" by (simp add: brange_def upt_conv_Cons del: upt_Suc)
  finally have "f 97 = 65" .
  moreover have "f 90 = 90" "f 49 = 49" using f(3) by (simp_all add: set_brange)
  ultimately show ?thesis using f(1,2) by (simp add: prod_eq_iff)
qed

lemma greedy_3: "greedy 3 p i = greedy (Suc (Suc (Suc 0))) p i"
  by (simp only: numeral_3_eq_3)

section \<open>Deviations from the original utility\<close>

text \<open>
  The classes \<open>graph\<close> and \<open>print\<close> are exchanged: \<open>[:graph:]\<close> holds the space, and
  \<open>[:print:]\<close> is all of \<open>[:graph:]\<close> but the space, where the \<open>isgraph\<close> and \<open>isprint\<close> of the C
  original have it the other way round.
\<close>

theorem tr_graph_print_exchanged:
  "set (class_bytes Graph) = {b. 32 \<le> unat b \<and> unat b \<le> 126} \<and>
   set (class_bytes Print) = {b. 33 \<le> unat b \<and> unat b \<le> 126}"
proof -
  have sp: "set [32 :: u8] = {b. 32 \<le> unat b \<and> unat b \<le> 32}"
    using set_brange [of 32 32] by (simp add: brange_def)
  have "b \<in> set (class_bytes Graph) \<longleftrightarrow> 32 \<le> unat b \<and> unat b \<le> 126" for b
    unfolding class_bytes.simps set_append sp by (simp add: set_brange) arith
  moreover have "b \<in> set (class_bytes Print) \<longleftrightarrow> 33 \<le> unat b \<and> unat b \<le> 126" for b
    unfolding class_bytes.simps set_append by (simp add: set_brange) arith
  ultimately show ?thesis by blast
qed

text \<open>
  The star of the byte 0 is dropped: \<open>[\0*]\<close> as the second set expands to nothing instead of
  padding, so \<open>tr SET1 '[\0*]'\<close> stops with the error of an empty second set for any operand that
  denotes a byte.
\<close>

theorem tr_star_nul_dropped:
  assumes "from_str N set1_str = Ok set1" and "star_free set1" and "set1 \<noteq> []"
    and "from_str N set2_str = Ok [CharStar 0]" and "flat_len set1 < isize_limit"
  shows "solve_set_characters N set1_str set2_str False False True =
           Ok (concat (map seq_bytes set1), []) \<and>
         (concat (map seq_bytes set1) \<noteq> [] \<longrightarrow>
            translate_new (concat (map seq_bytes set1)) [] = Err EmptySet2WhenNotTruncatingSet1)"
proof -
  have "filter is_char_star set1 = []"
    using assms(2) by (simp add: star_free_def filter_empty_conv)
  then show ?thesis
    using assms(2,5)
    by (simp add: solve_set_characters_unfold [OF assms(1, 4)] expand1_def expand2_def
        finish_sets_def translate_new_def Let_def usize_limit_def)
qed

theorem tr_star_nul_dropped_witness:
  "solve_set_characters nom_ref (bstr ''a'')
     (bstr [CHR ''['', CHR 0x5c, CHR ''0'', CHR ''*'', CHR '']'']) False False True = Ok ([97], []) \<and>
   translate_new [97] [] = Err EmptySet2WhenNotTruncatingSet1"
proof -
  have "from_str nom_ref (bstr ''a'') = Ok [Char 97]"
    and "from_str nom_ref (bstr [CHR ''['', CHR 0x5c, CHR ''0'', CHR ''*'', CHR '']'']) = Ok [CharStar 0]"
    by (simp_all add: tr_parse_eval greedy_3 Let_def)
  from tr_star_nul_dropped [OF this(1) _ _ this(2)] show ?thesis by (simp add: isize_limit_def)
qed

end
