(* ===== verification/Io_Writer.thy ===== *)
theory Io_Writer
  imports Prelude "HOL-Library.While_Combinator"
begin

text \<open>
  The trait \<open>Write\<close> as an interface: what a writer does with the bytes it is given, whether its calls
  succeed or not; \<open>emits\<close>, the specification of an operation that writes; and \<open>repeat\<close>, the loop that
  runs until it breaks, with the rule for a loop that writes.
\<close>

section \<open>Writers\<close>

record 'w writer = \<comment> \<open>the trait \<open>Write\<close>: the new state, and whether the call succeeded\<close>
  write_all :: "'w \<Rightarrow> bytes \<Rightarrow> 'w \<times> bool"
  flush :: "'w \<Rightarrow> 'w \<times> bool"

definition write_or :: "'e \<Rightarrow> 'w writer \<Rightarrow> bytes \<Rightarrow> 'w \<Rightarrow> 'w \<times> ('e, unit) outcome" where
  \<comment> \<open>\<open>writer.write_all(bs)?\<close>, with the error it becomes\<close>
  "write_or e W bs w = (case write_all W w bs of (w, ok) \<Rightarrow> (w, if ok then Ok () else Err e))"

definition flush_or :: "'e \<Rightarrow> 'w writer \<Rightarrow> 'w \<Rightarrow> 'w \<times> ('e, unit) outcome" where
  "flush_or e W w = (case flush W w of (w, ok) \<Rightarrow> (w, if ok then Ok () else Err e))"

section \<open>Loops that break\<close>

definition repeat :: "('s \<Rightarrow> 's \<times> ('e, 'a option) outcome) \<Rightarrow> 's \<Rightarrow> 's \<times> ('e, 'a) outcome" where
  \<comment> \<open>\<open>loop { .. }\<close>: the body says \<open>None\<close> to go on and \<open>Some\<close> to break; it may never do so\<close>
  "repeat body s =
     (case while_option (\<lambda>(s, r). r = Ok None) (\<lambda>(s, r). body s) (s, Ok None) of
        None \<Rightarrow> (s, Diverge)
      | Some (s', r) \<Rightarrow> (s', case r of Ok (Some x) \<Rightarrow> Ok x | Err e \<Rightarrow> Err e | Panic \<Rightarrow> Panic | _ \<Rightarrow> Diverge))"

lemma repeat_unfold:
  "repeat body s =
     (case body s of
        (s', Ok None) \<Rightarrow> if snd (repeat body s') = Diverge then (fst (repeat body s), Diverge) else repeat body s'
      | (s', Ok (Some x)) \<Rightarrow> (s', Ok x)
      | (s', Err e) \<Rightarrow> (s', Err e)
      | (s', Panic) \<Rightarrow> (s', Panic)
      | (s', Diverge) \<Rightarrow> (s', Diverge))"
proof -
  let ?b = "\<lambda>(s, r :: ('b, 'c option) outcome). r = Ok None" and ?c = "\<lambda>(s, r :: ('b, 'c option) outcome). body s"
  have w: "while_option ?b ?c (s, Ok None) = while_option ?b ?c (body s)"
    by (subst while_option_unfold) simp
  obtain s' r where b: "body s = (s', r)" by (cases "body s")
  show ?thesis
  proof (cases "r = Ok None")
    case True
    with w b have "while_option ?b ?c (s, Ok None) = while_option ?b ?c (s', Ok None)" by simp
    then have "snd (repeat body s) = snd (repeat body s')" and
      "snd (repeat body s') \<noteq> Diverge \<Longrightarrow> repeat body s = repeat body s'"
      unfolding repeat_def by (auto split: option.splits)
    with b True show ?thesis by (cases "repeat body s") auto
  next
    case False
    then have "while_option ?b ?c (s', r) = Some (s', r)" by (subst while_option_unfold) simp
    with w b have "repeat body s = (s', case r of Ok (Some x) \<Rightarrow> Ok x | Err e \<Rightarrow> Err e | Panic \<Rightarrow> Panic | _ \<Rightarrow> Diverge)"
      by (simp add: repeat_def)
    with b False show ?thesis by (auto split: outcome.splits option.splits)
  qed
qed

lemma repeat_break: "body s = (s', Ok (Some x)) \<Longrightarrow> repeat body s = (s', Ok x)"
  by (subst repeat_unfold) simp

lemma repeat_go_on:
  "body s = (s', Ok None) \<Longrightarrow> snd (repeat body s') \<noteq> Diverge \<Longrightarrow> repeat body s = repeat body s'"
  by (subst repeat_unfold) simp

lemma repeat_same_diverges:
  \<comment> \<open>a body that keeps within a set of states and never breaks\<close>
  assumes "I s" and "\<And>s. I s \<Longrightarrow> \<exists>s'. body s = (s', Ok None) \<and> I s'"
  shows "snd (repeat body s) = Diverge"
proof -
  let ?b = "\<lambda>(s, r :: ('b, 'c option) outcome). r = Ok None" and ?c = "\<lambda>(s, r :: ('b, 'c option) outcome). body s"
  have "while_option ?b ?c (s, Ok None) = None"
  proof (rule ccontr)
    assume "while_option ?b ?c (s, Ok None) \<noteq> None"
    then obtain t where t: "while_option ?b ?c (s, Ok None) = Some t" by blast
    have "(\<lambda>(s, r). I s \<and> r = Ok None) t"
    proof (rule while_option_rule [OF _ t])
      fix u :: "'a \<times> ('b, 'c option) outcome"
      assume "case u of (s, r) \<Rightarrow> I s \<and> r = Ok None"
      then obtain x where u: "u = (x, Ok None)" "I x" by (cases u) auto
      from assms(2) [OF u(2)] u(1) show "case (case u of (s, r) \<Rightarrow> body s) of (s, r) \<Rightarrow> I s \<and> r = Ok None" by auto
    qed (simp add: assms(1))
    with while_option_stop [OF t] show False by auto
  qed
  then show ?thesis by (simp add: repeat_def)
qed

section \<open>Operations that write\<close>

locale byte_writer =
  fixes W :: "'w writer" and content :: "'w \<Rightarrow> bytes" and settled :: "'w \<Rightarrow> bool"
    and fb :: bool \<comment> \<open>whether a call may fail\<close>
  assumes write_law: "write_all W w bs = (w', ok) \<Longrightarrow>
      \<exists>p. prefix p bs \<and> content w' = content w @ p \<and> (ok \<longrightarrow> p = bs) \<and> (\<not> ok \<longrightarrow> fb)"
    and flush_law: "flush W w = (w', ok) \<Longrightarrow> content w' = content w \<and> (ok \<longrightarrow> settled w') \<and> (\<not> ok \<longrightarrow> fb)"

definition emits ::
  "('e \<Rightarrow> bool) \<Rightarrow> ('s \<Rightarrow> bytes) \<Rightarrow> 's \<Rightarrow> 's \<times> ('e, 'a) outcome \<Rightarrow> bytes \<Rightarrow> ('s \<Rightarrow> 'a \<Rightarrow> bool) \<Rightarrow> bool" where
  \<comment> \<open>all of \<open>out\<close> and the result \<open>Q\<close>, or a part of it and an error that a write may give\<close>
  "emits E cont s m out Q \<longleftrightarrow>
     (case m of
        (s', Ok x) \<Rightarrow> cont s' = cont s @ out \<and> Q s' x
      | (s', Err e) \<Rightarrow> E e \<and> (\<exists>p. prefix p out \<and> cont s' = cont s @ p)
      | _ \<Rightarrow> False)"

lemma emits_Ok: "Q s x \<Longrightarrow> emits E cont s (s, Ok x) [] Q"
  by (simp add: emits_def)

lemma emits_update: "cont s' = cont s \<Longrightarrow> Q s' x \<Longrightarrow> emits E cont s (s', Ok x) [] Q"
  by (simp add: emits_def)

lemma emits_bind:
  assumes "emits E cont s m o1 Q1"
    and "\<And>s' x. m = (s', Ok x) \<Longrightarrow> Q1 s' x \<Longrightarrow> emits E cont s' (k s' x) o2 Q"
  shows "emits E cont s (sbind m k) (o1 @ o2) Q"
proof -
  obtain s' r where m: "m = (s', r)" by (cases m)
  show ?thesis
  proof (cases r)
    case (Ok x)
    with assms(1) m have 1: "cont s' = cont s @ o1" "Q1 s' x" by (simp_all add: emits_def)
    from assms(2) [of s' x] Ok m 1(2) have "emits E cont s' (k s' x) o2 Q" by simp
    with 1(1) m Ok show ?thesis
      by (auto simp: emits_def split: outcome.splits prod.splits)
  next
    case (Err e)
    with assms(1) m obtain p where "E e" "prefix p o1" "cont s' = cont s @ p"
      by (auto simp: emits_def)
    with m Err show ?thesis by (auto simp: emits_def intro: prefix_order.trans)
  qed (use assms(1) m in \<open>simp_all add: emits_def\<close>)
qed

lemma emits_bind0:
  assumes "emits E cont s m [] Q1" and "\<And>s' x. m = (s', Ok x) \<Longrightarrow> Q1 s' x \<Longrightarrow> emits E cont s' (k s' x) out Q"
  shows "emits E cont s (sbind m k) out Q"
  using emits_bind [OF assms] by simp

lemma emits_last:
  assumes "emits E cont s m out Q1" and "\<And>s' x. m = (s', Ok x) \<Longrightarrow> Q1 s' x \<Longrightarrow> emits E cont s' (k s' x) [] Q"
  shows "emits E cont s (sbind m k) out Q"
  using emits_bind [OF assms] by simp

lemma emits_mono:
  "emits E cont s m out Q \<Longrightarrow> (\<And>s' x. Q s' x \<Longrightarrow> Q' s' x) \<Longrightarrow> emits E cont s m out Q'"
  by (auto simp: emits_def split: outcome.splits prod.splits)

lemma emits_from: "emits E cont s0 m out Q \<Longrightarrow> cont s0' = cont s0 \<Longrightarrow> emits E cont s0' m out Q"
  by (auto simp: emits_def split: outcome.splits prod.splits)

lemma emits_bind_pair:
  assumes "emits E cont s m o1 Q1"
    and "\<And>w st x. m = ((w, st), Ok x) \<Longrightarrow> Q1 (w, st) x \<Longrightarrow> emits E cont (w, st) (k w st x) o2 Q"
  shows "emits E cont s (sbind m (\<lambda>(w, st) x. k w st x)) (o1 @ o2) Q"
proof (rule emits_bind [OF assms(1)])
  fix s' x assume "m = (s', Ok x)" "Q1 s' x"
  then show "emits E cont s' ((case s' of (w, st) \<Rightarrow> k w st) x) o2 Q"
    by (cases s') (auto intro: assms(2))
qed

lemmas emits_bind_pair0 = emits_bind_pair [where ?o1.0 = "[]", unfolded append_Nil]
lemmas emits_last_pair = emits_bind_pair [where ?o2.0 = "[]", unfolded append_Nil2]

lemma emits_repeat_break:
  assumes "emits E cont s (body s) out (\<lambda>s' r. \<exists>x. r = Some x \<and> Q s' x)"
  shows "emits E cont s (repeat body s) out Q"
proof -
  obtain s' r where b: "body s = (s', r)" by (cases "body s")
  with assms show ?thesis
    by (subst repeat_unfold) (auto simp: emits_def split: outcome.splits)
qed

lemma emits_repeat:
  assumes "emits E cont s (body s) o1 (\<lambda>s' r. r = None \<and> emits E cont s' (repeat body s') o2 Q)"
  shows "emits E cont s (repeat body s) (o1 @ o2) Q"
proof -
  obtain s' r where b: "body s = (s', r)" by (cases "body s")
  show ?thesis
  proof (cases r)
    case (Ok x)
    with assms b have 1: "cont s' = cont s @ o1" "x = None" "emits E cont s' (repeat body s') o2 Q"
      by (simp_all add: emits_def)
    then have "snd (repeat body s') \<noteq> Diverge" by (auto simp: emits_def split: prod.splits)
    with b Ok 1(2) have "repeat body s = repeat body s'" by (simp add: repeat_go_on)
    with 1 show ?thesis by (auto simp: emits_def split: outcome.splits prod.splits)
  next
    case (Err e)
    with assms b show ?thesis
      by (subst repeat_unfold) (auto simp: emits_def intro: prefix_order.trans)
  qed (use assms b in \<open>simp_all add: emits_def\<close>)
qed

lemma emits_repeat_then_break:
  assumes "emits E cont s (body s) o1 (\<lambda>s' r. \<exists>x. r = Some x \<and> emits E cont s' (k s' x) o2 Q)"
  shows "emits E cont s (sbind (repeat body s) k) (o1 @ o2) Q"
proof (rule emits_bind)
  show "emits E cont s (repeat body s) o1 (\<lambda>s' x. emits E cont s' (k s' x) o2 Q)"
    by (rule emits_repeat_break) (rule assms)
qed

lemma emits_repeat_then:
  assumes "emits E cont s (body s) o1 (\<lambda>s' r. r = None \<and> emits E cont s' (sbind (repeat body s') k) o2 Q)"
  shows "emits E cont s (sbind (repeat body s) k) (o1 @ o2) Q"
proof -
  obtain s' r where b: "body s = (s', r)" by (cases "body s")
  show ?thesis
  proof (cases r)
    case (Ok x)
    with assms b have 1: "cont s' = cont s @ o1" "x = None" "emits E cont s' (sbind (repeat body s') k) o2 Q"
      by (simp_all add: emits_def)
    then have "snd (repeat body s') \<noteq> Diverge"
      by (cases "repeat body s'") (auto simp: emits_def)
    with b Ok 1(2) have "repeat body s = repeat body s'" by (simp add: repeat_go_on)
    with 1 show ?thesis by (auto simp: emits_def split: outcome.splits prod.splits)
  next
    case (Err e)
    with assms b show ?thesis
      by (subst repeat_unfold) (auto simp: emits_def intro: prefix_order.trans)
  qed (use assms b in \<open>simp_all add: emits_def\<close>)
qed

lemma emits_result:
  assumes "emits (\<lambda>e. fb \<and> e = e0) cont s m bs Q"
  shows "\<exists>s' res. m = (s', res) \<and>
    ((\<exists>x. res = Ok x) \<and> cont s' = cont s @ bs \<or> fb \<and> res = Err e0 \<and> prefix (cont s') (cont s @ bs))"
proof -
  obtain s' res where m: "m = (s', res)" by (cases m)
  then show ?thesis
    by (cases res) (use assms in \<open>auto simp: emits_def\<close>)
qed

context byte_writer
begin

lemma write_or_emits: "emits (\<lambda>e'. fb \<and> e' = e) content w (write_or e W bs w) bs (\<lambda>_ _. True)"
  by (cases "write_all W w bs") (use write_law in \<open>fastforce simp: emits_def write_or_def\<close>)

lemma flush_or_emits: "emits (\<lambda>e'. fb \<and> e' = e) content w (flush_or e W w) [] (\<lambda>w _. settled w)"
  by (cases "flush W w") (use flush_law in \<open>fastforce simp: emits_def flush_or_def\<close>)

end

text \<open>
  The simplest writer collects what it is given, as a \<open>Vec<u8>\<close> does.
\<close>

definition memory_writer :: "bytes writer" where
  "memory_writer = \<lparr>write_all = (\<lambda>w bs. (w @ bs, True)), flush = (\<lambda>w. (w, True))\<rparr>"

interpretation collected: byte_writer memory_writer "\<lambda>w. w" "\<lambda>_. True" False
  by unfold_locales (auto simp: memory_writer_def)

end
