(* ===== verification/Cat.thy ===== *)
theory Cat
  imports Io_Writer
begin

text \<open>
  The program \<open>cat\<close> (\<open>cat.rs\<close>, \<open>splice.rs\<close>, \<open>platform/unix.rs\<close>): the line number buffer, the output
  state machine of \<open>write_lines\<close>, the plain copy with its use of \<open>splice\<close>, the classification of
  the operands and the loop over them. Standard output is a device with the results of its
  \<open>write\<close> calls; \<open>BufWriter\<close> is modelled as the standard library has it. Parameters are the code
  outside the repository: \<open>memchr2\<close>, \<open>fast_inc_one\<close> and \<open>splice_exact\<close>.
\<close>

section \<open>Writers\<close>

record 'w device = \<comment> \<open>a file descriptor: bytes accepted by one call, or an error\<close>
  dev_write :: "'w \<Rightarrow> bytes \<Rightarrow> 'w \<times> nat option"
  dev_flush :: "'w \<Rightarrow> 'w \<times> bool"
  splice_exact :: "'w \<Rightarrow> bytes \<Rightarrow> 'w \<times> nat \<times> bool" \<comment> \<open>bytes moved out of the pipe, and success\<close>

function dev_write_loop :: "'w device \<Rightarrow> 'w \<Rightarrow> bytes \<Rightarrow> ('w \<times> bytes) \<times> bool" where
  \<comment> \<open>the loop of \<open>write_all\<close> and \<open>flush_buf\<close>, with the bytes not written\<close>
  "dev_write_loop D w bs =
     (if bs = [] then ((w, []), True)
      else case dev_write D w bs of
             (w', None) \<Rightarrow> ((w', bs), False)
           | (w', Some n) \<Rightarrow> if n = 0 then ((w', bs), False) else dev_write_loop D w' (drop n bs))"
  by pat_completeness auto
termination by (relation "measure (\<lambda>(D, w, bs). length bs)") auto

declare dev_write_loop.simps [simp del]

type_synonym 'w buffered = "bytes \<times> 'w"

definition flush_buf :: "'w device \<Rightarrow> 'w buffered \<Rightarrow> 'w buffered \<times> bool" where
  "flush_buf D s = (case dev_write_loop D (snd s) (fst s) of ((w, rest), ok) \<Rightarrow> ((rest, w), ok))"

definition buf_writer :: "'w device \<Rightarrow> nat \<Rightarrow> 'w buffered writer" where
  \<comment> \<open>\<open>BufWriter::with_capacity(cap, _)\<close>\<close>
  "buf_writer D cap =
     \<lparr>write_all = (\<lambda>(buf, w) bs.
        if length bs < cap - length buf then ((buf @ bs, w), True)
        else case (if cap - length buf < length bs then flush_buf D (buf, w) else ((buf, w), True)) of
               ((buf, w), ok) \<Rightarrow>
                 if \<not> ok then ((buf, w), False)
                 else if cap \<le> length bs then
                   (case dev_write_loop D w bs of ((w, _), ok) \<Rightarrow> ((buf, w), ok))
                 else ((buf @ bs, w), True)),
      flush = (\<lambda>s. case flush_buf D s of
        ((buf, w), ok) \<Rightarrow> if ok then (case dev_flush D w of (w, ok) \<Rightarrow> ((buf, w), ok)) else ((buf, w), False))\<rparr>"

section \<open>Errors, options and state\<close>

datatype file_type =
  FtBlockDevice | FtCharDevice | FtFifo | FtSocket | FtDir | FtFile | FtSymlink | FtOther

datatype cat_io_error = ReadError | WriteError | OsError "nat option" \<comment> \<open>with its raw code\<close>

datatype cat_error =
    Io cat_io_error
  | Nix "nat option"
  | UnknownFiletype file_type
  | IsDirectory
  | NoSuchDeviceOrAddress
  | OutputIsInput
  | TooManySymlinks

datatype numbering_mode = NumberNone | NonEmpty | All

record output_options =
  number :: numbering_mode
  squeeze_blank :: bool
  show_tabs :: bool
  show_ends :: bool
  show_nonprint :: bool

definition tab :: "output_options \<Rightarrow> bytes" where
  "tab opt = (if show_tabs opt then [94, 73] else [9])"

definition end_of_line :: "output_options \<Rightarrow> bytes" where
  "end_of_line opt = (if show_ends opt then [36, 10] else [10])"

definition can_write_fast :: "output_options \<Rightarrow> bool" where
  "can_write_fast opt \<longleftrightarrow>
     \<not> (show_tabs opt \<or> show_nonprint opt \<or> show_ends opt \<or> squeeze_blank opt \<or> number opt \<noteq> NumberNone)"

type_synonym fast_inc = "bytes \<Rightarrow> nat \<Rightarrow> nat \<Rightarrow> (cat_error, bytes \<times> nat) outcome"

record line_number =
  ln_buf :: bytes
  print_start :: nat
  num_start :: nat
  num_end :: nat

definition LINE_NUMBER_BUF_SIZE :: nat where
  "LINE_NUMBER_BUF_SIZE = 32"

definition line_number_new :: line_number where
  "line_number_new =
     (let init_str = [32, 32, 32, 32, 32, 49, 9] :: bytes; n = LINE_NUMBER_BUF_SIZE;
          print = n - length init_str
      in \<lparr>ln_buf = replicate print 48 @ init_str, print_start = print, num_start = n - 2, num_end = n - 1\<rparr>)"

definition increment :: "fast_inc \<Rightarrow> line_number \<Rightarrow> (cat_error, line_number) outcome" where
  "increment inc l =
     obind (inc (ln_buf l) (num_start l) (num_end l)) (\<lambda>(buf, start).
       Ok (l\<lparr>ln_buf := buf, num_start := start, print_start := min (print_start l) start\<rparr>))"

definition to_str :: "line_number \<Rightarrow> bytes" where
  "to_str l = drop (print_start l) (ln_buf l)"

record output_state =
  line_number :: line_number
  at_line_start :: bool
  skipped_carriage_return :: bool
  one_blank_kept :: bool

text \<open>What the functions use besides the writer: the library routines and the options.\<close>

record cat_lib =
  memchr2 :: "u8 \<Rightarrow> u8 \<Rightarrow> bytes \<Rightarrow> nat option"
  fast_inc_one :: fast_inc

section \<open>Writing to the end of a line\<close>

definition put :: "'w writer \<Rightarrow> bytes \<Rightarrow> 'w \<Rightarrow> 'w \<times> (cat_error, unit) outcome" where
  \<comment> \<open>\<open>writer.write_all(bs)?\<close>\<close>
  "put = write_or (Io WriteError)"

definition flush_writer :: "'w writer \<Rightarrow> 'w \<Rightarrow> 'w \<times> (cat_error, unit) outcome" where
  "flush_writer = flush_or (Io WriteError)"

definition write_to_end :: "cat_lib \<Rightarrow> 'w writer \<Rightarrow> bytes \<Rightarrow> 'w \<Rightarrow> 'w \<times> (cat_error, nat) outcome" where
  "write_to_end L W in_buf w =
     (case memchr2 L 10 13 in_buf of
        Some p \<Rightarrow> if p \<le> length in_buf then sbind (put W (take p in_buf) w) (\<lambda>w _. (w, Ok p))
                  else (w, Panic)
      | None \<Rightarrow> sbind (put W in_buf w) (\<lambda>w _. (w, Ok (length in_buf))))"

primrec position :: "('a \<Rightarrow> bool) \<Rightarrow> 'a list \<Rightarrow> nat option" where
  \<comment> \<open>\<open>iter().position()\<close>\<close>
  "position P [] = None"
| "position P (x # xs) = (if P x then Some 0 else map_option Suc (position P xs))"

lemma position_Some:
  "position P xs = Some p \<Longrightarrow> p < length xs \<and> P (xs ! p) \<and> (\<forall>i < p. \<not> P (xs ! i))"
  by (induction xs arbitrary: p) (auto split: if_splits simp: nth_Cons split: nat.splits)

lemma position_None: "position P xs = None \<longleftrightarrow> (\<forall>x \<in> set xs. \<not> P x)"
  by (induction xs) auto

function write_tab_to_end ::
  "'w writer \<Rightarrow> bytes \<Rightarrow> nat \<Rightarrow> 'w \<Rightarrow> 'w \<times> (cat_error, nat) outcome" where
  \<comment> \<open>the loop, with \<open>count\<close>\<close>
  "write_tab_to_end W in_buf count w =
     (case position (\<lambda>c. c = 10 \<or> c = 9 \<or> c = 13) in_buf of
        Some p \<Rightarrow>
          sbind (put W (take p in_buf) w) (\<lambda>w _.
            if in_buf ! p = 9 then
              sbind (put W [94, 73] w) (\<lambda>w _. write_tab_to_end W (drop (p + 1) in_buf) (count + (p + 1)) w)
            else (w, Ok (count + p)))
      | None \<Rightarrow> sbind (put W in_buf w) (\<lambda>w _. (w, Ok (length in_buf + count))))"
  by pat_completeness auto
termination
  by (relation "measure (\<lambda>(W, in_buf, count, w). length in_buf)") (auto dest!: position_Some)

declare write_tab_to_end.simps [simp del]

definition nonprint_bytes :: "bytes \<Rightarrow> u8 \<Rightarrow> bytes" where
  "nonprint_bytes tb byte =
     (if byte = 9 then tb
      else if byte \<le> 31 then [94, byte + 64]
      else if byte \<le> 126 then [byte]
      else if byte = 127 then [94, 63]
      else if byte \<le> 159 then [77, 45, 94, byte - 64]
      else if byte \<le> 254 then [77, 45, byte - 128]
      else [77, 45, 94, 63])"

fun write_nonprint_to_end ::
  "'w writer \<Rightarrow> bytes \<Rightarrow> bytes \<Rightarrow> nat \<Rightarrow> 'w \<Rightarrow> 'w \<times> (cat_error, nat) outcome" where
  "write_nonprint_to_end W tb [] count w = (w, Ok count)"
| "write_nonprint_to_end W tb (byte # in_buf) count w =
     (if byte = 10 then (w, Ok count)
      else sbind (put W (nonprint_bytes tb byte) w) (\<lambda>w _. write_nonprint_to_end W tb in_buf (count + 1) w))"

definition write_end ::
  "cat_lib \<Rightarrow> 'w writer \<Rightarrow> output_options \<Rightarrow> bytes \<Rightarrow> 'w \<Rightarrow> 'w \<times> (cat_error, nat) outcome" where
  "write_end L W opt in_buf w =
     (if show_nonprint opt then write_nonprint_to_end W (tab opt) in_buf 0 w
      else if show_tabs opt then write_tab_to_end W in_buf 0 w
      else write_to_end L W in_buf w)"

definition write_end_of_line ::
  "'w writer \<Rightarrow> bytes \<Rightarrow> bool \<Rightarrow> 'w \<Rightarrow> 'w \<times> (cat_error, unit) outcome" where
  "write_end_of_line W eol is_interactive w =
     sbind (put W eol w) (\<lambda>w _. if is_interactive then flush_writer W w else (w, Ok ()))"

section \<open>Lines\<close>

type_synonym 'w lines_state = "'w \<times> output_state"

definition on_writer ::
  "('w \<Rightarrow> 'w \<times> (cat_error, 'a) outcome) \<Rightarrow> 'w lines_state \<Rightarrow> 'w lines_state \<times> (cat_error, 'a) outcome" where
  "on_writer f s = (case f (fst s) of (w, r) \<Rightarrow> ((w, snd s), r))"

definition write_number ::
  "cat_lib \<Rightarrow> 'w writer \<Rightarrow> 'w lines_state \<Rightarrow> 'w lines_state \<times> (cat_error, unit) outcome" where
  \<comment> \<open>\<open>line_number.write(writer)?; line_number.increment()\<close>\<close>
  "write_number L W s =
     sbind (on_writer (put W (to_str (line_number (snd s)))) s) (\<lambda>(w, st) _.
       case increment (fast_inc_one L) (line_number st) of
         Ok l \<Rightarrow> ((w, st\<lparr>line_number := l\<rparr>), Ok ())
       | Err e \<Rightarrow> ((w, st), Err e)
       | Panic \<Rightarrow> ((w, st), Panic)
       | Diverge \<Rightarrow> ((w, st), Diverge))"

definition write_new_line ::
  "cat_lib \<Rightarrow> 'w writer \<Rightarrow> output_options \<Rightarrow> bool \<Rightarrow> 'w lines_state \<Rightarrow>
     'w lines_state \<times> (cat_error, unit) outcome" where
  "write_new_line L W opt is_interactive s =
     (if skipped_carriage_return (snd s) then
        sbind (on_writer (put W (if show_ends opt then [94, 77] else [13])) s) (\<lambda>(w, st) _.
          on_writer (write_end_of_line W (end_of_line opt) is_interactive)
            (w, st\<lparr>skipped_carriage_return := False\<rparr>))
      else if \<not> at_line_start (snd s) \<or> \<not> squeeze_blank opt \<or> \<not> one_blank_kept (snd s) then
        (let s = (fst s, (snd s)\<lparr>one_blank_kept := True\<rparr>) in
         sbind (if at_line_start (snd s) \<and> number opt = All then write_number L W s else (s, Ok ()))
           (\<lambda>s _. on_writer (write_end_of_line W (end_of_line opt) is_interactive) s))
      else (s, Ok ()))"

definition line_lead ::
  "cat_lib \<Rightarrow> 'w writer \<Rightarrow> output_options \<Rightarrow> 'w lines_state \<Rightarrow> 'w lines_state \<times> (cat_error, unit) outcome" where
  \<comment> \<open>a held back carriage return, then the number at the beginning of a line\<close>
  "line_lead L W opt s =
     sbind (if skipped_carriage_return (snd s) then
              sbind (on_writer (put W [13]) s) (\<lambda>(w, st) _.
                ((w, st\<lparr>skipped_carriage_return := False, at_line_start := False\<rparr>), Ok ()))
            else (s, Ok ())) (\<lambda>(w, st) _.
     let s = (w, st\<lparr>one_blank_kept := False\<rparr>) in
     if at_line_start (snd s) \<and> number opt \<noteq> NumberNone then write_number L W s else (s, Ok ()))"

function lines_loop ::
  "cat_lib \<Rightarrow> 'w writer \<Rightarrow> output_options \<Rightarrow> bool \<Rightarrow> bytes \<Rightarrow> nat \<Rightarrow> 'w lines_state \<Rightarrow>
     'w lines_state \<times> (cat_error, unit) outcome" where
  \<comment> \<open>\<open>while pos < n\<close>\<close>
  "lines_loop L W opt is_interactive in_buf pos s =
     (if pos < length in_buf then
        (if in_buf ! pos = 10 then
           sbind (write_new_line L W opt is_interactive s) (\<lambda>(w, st) _.
             lines_loop L W opt is_interactive in_buf (pos + 1) (w, st\<lparr>at_line_start := True\<rparr>))
         else
           sbind (line_lead L W opt s) (\<lambda>s _.
           sbind (on_writer (write_end L W opt (drop pos in_buf)) s) (\<lambda>(w, st) offset.
             if offset + pos = length in_buf then ((w, st\<lparr>at_line_start := False\<rparr>), Ok ())
             else if length in_buf < pos + offset then ((w, st), Panic)
             else if in_buf ! (pos + offset) = 13 then
               lines_loop L W opt is_interactive in_buf (pos + offset + 1) (w, st\<lparr>skipped_carriage_return := True\<rparr>)
             else if in_buf ! (pos + offset) \<noteq> 10 then ((w, st), Panic)
             else
               sbind (on_writer (write_end_of_line W (end_of_line opt) is_interactive) (w, st)) (\<lambda>(w, st) _.
                 lines_loop L W opt is_interactive in_buf (pos + offset + 1) (w, st\<lparr>at_line_start := True\<rparr>)))))
      else (s, Ok ()))"
  by pat_completeness auto
termination
  by (relation "measure (\<lambda>(L, W, opt, i, in_buf, pos, s). length in_buf - pos)") auto

declare lines_loop.simps [simp del]

fun read_lines ::
  "cat_lib \<Rightarrow> 'w writer \<Rightarrow> output_options \<Rightarrow> bool \<Rightarrow> reader \<Rightarrow> 'w lines_state \<Rightarrow>
     (reader \<times> 'w lines_state) \<times> (cat_error, unit) outcome" where
  \<comment> \<open>the outer loop of \<open>write_lines\<close>; the reader keeps what was not read\<close>
  "read_lines L W opt is_interactive [] s = (([], s), Ok ())"
| "read_lines L W opt is_interactive (Interrupted # es) s = read_lines L W opt is_interactive es s"
| "read_lines L W opt is_interactive (ReadFailed # es) s = ((es, s), Err (Io ReadError))"
| "read_lines L W opt is_interactive (Chunk in_buf # es) s =
     (if in_buf = [] then ((es, s), Ok ())
      else case sbind (lines_loop L W opt is_interactive in_buf 0 s) (\<lambda>s _. on_writer (flush_writer W) s) of
             (s, r) \<Rightarrow> if r = Ok () then read_lines L W opt is_interactive es s else ((es, s), r))"

text \<open>The state of a run: what is left of the reader, standard output, and the output state.\<close>

type_synonym 'w cat_state = "reader \<times> 'w \<times> output_state"

definition write_lines ::
  "cat_lib \<Rightarrow> 'w device \<Rightarrow> output_options \<Rightarrow> bool \<Rightarrow> 'w cat_state \<Rightarrow>
     'w cat_state \<times> (cat_error, unit) outcome" where
  \<comment> \<open>the \<open>BufWriter\<close> is flushed once more, without a result, when it is dropped\<close>
  "write_lines L D opt is_interactive = (\<lambda>(es, w, st).
     case read_lines L (buf_writer D (32 * 1024)) opt is_interactive es (([], w), st) of
       ((es, bw, st), r) \<Rightarrow> ((es, snd (fst (flush_buf D bw)), st), r))"

section \<open>The plain copy\<close>

definition BUF_SIZE :: nat where
  "BUF_SIZE = 1024 * 16"

function copy_write :: "'w device \<Rightarrow> 'w \<Rightarrow> bytes \<Rightarrow> 'w \<times> (cat_error, unit) outcome" where
  \<comment> \<open>\<open>while written < read\<close>\<close>
  "copy_write D w buf =
     (if buf = [] then (w, Ok ())
      else case dev_write D w buf of
             (w, None) \<Rightarrow> (w, Err (Nix None))
           | (w, Some n) \<Rightarrow> if n = 0 then (w, Panic) else copy_write D w (drop n buf))"
  by pat_completeness auto
termination by (relation "measure (\<lambda>(D, w, buf). length buf)") auto

declare copy_write.simps [simp del]

function copy_exact :: "'w device \<Rightarrow> bytes \<Rightarrow> nat \<Rightarrow> 'w \<Rightarrow> 'w \<times> (cat_error, unit) outcome" where
  \<comment> \<open>reading an empty pipe waits for ever: its writing end is open in this very process\<close>
  "copy_exact D pipe left w =
     (if left = 0 then (w, Ok ())
      else if pipe = [] then (w, Diverge)
      else let buf = take BUF_SIZE pipe in
           sbind (copy_write D w buf) (\<lambda>w _.
             if left < length buf then (w, Panic)
             else copy_exact D (drop BUF_SIZE pipe) (left - length buf) w))"
  by pat_completeness auto
termination by (relation "measure (\<lambda>(D, pipe, left, w). length pipe)") (auto simp: BUF_SIZE_def)

declare copy_exact.simps [simp del]

fun splice_loop ::
  "'w device \<Rightarrow> reader \<Rightarrow> 'w \<Rightarrow> (reader \<times> 'w) \<times> (cat_error, bool) outcome" where
  \<comment> \<open>a failed \<open>splice\<close> from the reader moves nothing\<close>
  "splice_loop D [] w = (([], w), Ok False)"
| "splice_loop D (Interrupted # es) w = ((Interrupted # es, w), Ok True)"
| "splice_loop D (ReadFailed # es) w = ((ReadFailed # es, w), Ok True)"
| "splice_loop D (Chunk b # es) w =
     (if b = [] then ((es, w), Ok False)
      else case splice_exact D w b of
             (w, k, True) \<Rightarrow> splice_loop D es w
           | (w, k, False) \<Rightarrow> sbind (case copy_exact D (drop k b) (length b) w of (w, r) \<Rightarrow> ((es, w), r))
                                 (\<lambda>s _. (s, Ok True)))"

record splice_env =
  pipe_error :: "nat option option" \<comment> \<open>the error of \<open>pipe()\<close>, if it fails\<close>
  can_splice :: bool \<comment> \<open>whether \<open>splice\<close> accepts the file descriptors\<close>

definition write_fast_using_splice ::
  "splice_env \<Rightarrow> 'w device \<Rightarrow> reader \<Rightarrow> 'w \<Rightarrow> (reader \<times> 'w) \<times> (cat_error, bool) outcome" where
  "write_fast_using_splice E D es w =
     (case pipe_error E of
        Some e \<Rightarrow> ((es, w), Err (Nix e))
      | None \<Rightarrow> if can_splice E then splice_loop D es w else ((es, w), Ok True))"

fun fast_loop :: "'w device \<Rightarrow> reader \<Rightarrow> 'w \<Rightarrow> (reader \<times> 'w) \<times> (cat_error, unit) outcome" where
  "fast_loop D [] w = (([], w), Ok ())"
| "fast_loop D (Interrupted # es) w = fast_loop D es w"
| "fast_loop D (ReadFailed # es) w = ((es, w), Err (Io ReadError))"
| "fast_loop D (Chunk b # es) w =
     (if b = [] then ((es, w), Ok ())
      else case dev_write_loop D w b of
             ((w, _), True) \<Rightarrow> fast_loop D es w
           | ((w, _), False) \<Rightarrow> ((es, w), Err (Io WriteError)))"

definition write_fast ::
  "splice_env \<Rightarrow> 'w device \<Rightarrow> 'w cat_state \<Rightarrow> 'w cat_state \<times> (cat_error, unit) outcome" where
  "write_fast E D = (\<lambda>(es, w, st).
     case sbind (write_fast_using_splice E D es w) (\<lambda>(es, w) fall_back.
       if \<not> fall_back then ((es, w), Ok ())
       else sbind (fast_loop D es w) (\<lambda>(es, w) _.
         case dev_flush D w of (w, ok) \<Rightarrow> ((es, w), if ok then Ok () else Err (Io WriteError)))) of
       ((es, w), r) \<Rightarrow> ((es, w, st), r))"

definition cat_handle ::
  "cat_lib \<Rightarrow> splice_env \<Rightarrow> 'w device \<Rightarrow> output_options \<Rightarrow> bool \<Rightarrow> 'w cat_state \<Rightarrow>
     'w cat_state \<times> (cat_error, unit) outcome" where
  "cat_handle L E D opt is_interactive s =
     (if can_write_fast opt then write_fast E D s else write_lines L D opt is_interactive s)"

section \<open>The same file as input and output\<close>

record fd_view = \<comment> \<open>what the system calls of \<open>is_unsafe_overwrite\<close> return for a file descriptor\<close>
  file_information :: "(nat \<times> nat) option" \<comment> \<open>identity and size of a regular file\<close>
  seek_position :: "int option" \<comment> \<open>\<open>lseek(fd, 0, SEEK_CUR)\<close>\<close>
  open_flags :: "u32 option" \<comment> \<open>\<open>fcntl(fd, F_GETFL)\<close>\<close>

definition O_APPEND :: u32 where
  "O_APPEND = 1024"

definition is_appending :: "fd_view \<Rightarrow> bool" where
  "is_appending f = (and (case open_flags f of None \<Rightarrow> 0 | Some flags \<Rightarrow> flags) O_APPEND = O_APPEND)"

definition is_unsafe_overwrite :: "fd_view \<Rightarrow> fd_view \<Rightarrow> bool" where
  "is_unsafe_overwrite input out =
     (case file_information input of
        None \<Rightarrow> False
      | Some (input_id, _) \<Rightarrow>
          (case file_information out of
             None \<Rightarrow> False
           | Some (output_id, file_size) \<Rightarrow>
               if input_id \<noteq> output_id then False
               else if file_size = 0 then False
               else if is_appending out then
                 (case seek_position input of
                    Some pos \<Rightarrow> \<not> (0 \<le> pos \<and> int file_size \<le> pos)
                  | None \<Rightarrow> True)
               else (case seek_position input of
                       None \<Rightarrow> False
                     | Some input_pos \<Rightarrow>
                         (case seek_position out of
                            None \<Rightarrow> False
                          | Some output_pos \<Rightarrow> input_pos < output_pos))))"

section \<open>Operands\<close>

datatype input_type =
  InDirectory | InFile | StdIn | SymLink | BlockDevice | CharacterDevice | Fifo | Socket

type_synonym path = string

record input_file =
  file_events :: reader
  file_view :: fd_view
  file_splice :: splice_env

record 'w cat_system = \<comment> \<open>the system calls of the program\<close>
  metadata :: "path \<Rightarrow> nat option + file_type" \<comment> \<open>or the raw error code\<close>
  open_file :: "path \<Rightarrow> nat option + input_file"
  stdin_view :: "reader \<Rightarrow> fd_view"
  stdin_splice :: splice_env
  stdin_is_terminal :: bool
  stdout_view :: "'w \<Rightarrow> fd_view"
  stdout_device :: "'w device"

definition get_input_type :: "'w cat_system \<Rightarrow> path \<Rightarrow> (cat_error, input_type) outcome" where
  "get_input_type Y path =
     (if path = ''-'' then Ok StdIn
      else case metadata Y path of
             Inl raw \<Rightarrow> if raw = Some 40 then Err TooManySymlinks else Err (Io (OsError raw))
           | Inr ft \<Rightarrow>
               (case ft of
                  FtBlockDevice \<Rightarrow> Ok BlockDevice
                | FtCharDevice \<Rightarrow> Ok CharacterDevice
                | FtFifo \<Rightarrow> Ok Fifo
                | FtSocket \<Rightarrow> Ok Socket
                | FtDir \<Rightarrow> Ok InDirectory
                | FtFile \<Rightarrow> Ok InFile
                | FtSymlink \<Rightarrow> Ok SymLink
                | FtOther \<Rightarrow> Err (UnknownFiletype ft)))"

definition cat_path ::
  "cat_lib \<Rightarrow> 'w cat_system \<Rightarrow> path \<Rightarrow> output_options \<Rightarrow> 'w cat_state \<Rightarrow>
     'w cat_state \<times> (cat_error, unit) outcome" where
  \<comment> \<open>the reader of the state is standard input; a file has its own\<close>
  "cat_path L Y path opt s =
     (case s of (stdin, w, st) \<Rightarrow>
      sbind (s, get_input_type Y path) (\<lambda>_ it.
      case it of
        StdIn \<Rightarrow>
          if is_unsafe_overwrite (stdin_view Y stdin) (stdout_view Y w) then (s, Err OutputIsInput)
          else cat_handle L (stdin_splice Y) (stdout_device Y) opt (stdin_is_terminal Y) s
      | InDirectory \<Rightarrow> (s, Err IsDirectory)
      | Socket \<Rightarrow> (s, Err NoSuchDeviceOrAddress)
      | _ \<Rightarrow>
          (case open_file Y path of
             Inl raw \<Rightarrow> (s, Err (Io (OsError raw)))
           | Inr f \<Rightarrow>
               if is_unsafe_overwrite (file_view f) (stdout_view Y w) then (s, Err OutputIsInput)
               else (case cat_handle L (file_splice f) (stdout_device Y) opt False (file_events f, w, st) of
                       ((_, w, st), r) \<Rightarrow> ((stdin, w, st), r)))))"

fun cat_each ::
  "cat_lib \<Rightarrow> 'w cat_system \<Rightarrow> output_options \<Rightarrow> path list \<Rightarrow> 'w cat_state \<Rightarrow> (path \<times> cat_error) list \<Rightarrow>
     'w cat_state \<times> (cat_error, (path \<times> cat_error) list) outcome" where
  \<comment> \<open>\<open>for path in files\<close>, with the errors so far\<close>
  "cat_each L Y opt [] s errs = (s, Ok errs)"
| "cat_each L Y opt (path # files) s errs =
     (case cat_path L Y path opt s of
        (s, Ok _) \<Rightarrow> cat_each L Y opt files s errs
      | (s, Err e) \<Rightarrow> cat_each L Y opt files s (errs @ [(path, e)])
      | (s, Panic) \<Rightarrow> (s, Panic)
      | (s, Diverge) \<Rightarrow> (s, Diverge))"

definition output_state_new :: output_state where
  "output_state_new =
     \<lparr>line_number = line_number_new, at_line_start = True, skipped_carriage_return = False,
      one_blank_kept = False\<rparr>"

type_synonym exit_error = "int \<times> (path \<times> cat_error) list" \<comment> \<open>the exit code and its messages\<close>

definition cat_files ::
  "cat_lib \<Rightarrow> 'w cat_system \<Rightarrow> path list \<Rightarrow> output_options \<Rightarrow> reader \<Rightarrow> 'w \<Rightarrow>
     'w \<times> (exit_error, unit) outcome" where
  "cat_files L Y files opt stdin w =
     (case cat_each L Y opt files (stdin, w, output_state_new) [] of
        ((_, w, st), Ok errs) \<Rightarrow>
          (case (if skipped_carriage_return st then
                   (case dev_write_loop (stdout_device Y) w [13] of ((w, _), ok) \<Rightarrow> (w, ok))
                 else (w, True)) of
             (w, ok) \<Rightarrow> (w, if \<not> ok then Panic else if errs = [] then Ok ()
                            else Err (sint (of_nat (length errs) :: 32 word), errs)))
      | ((_, w, _), Panic) \<Rightarrow> (w, Panic)
      | ((_, w, _), _) \<Rightarrow> (w, Diverge))"

section \<open>The command line\<close>

definition cat_options :: "(string \<Rightarrow> bool) \<Rightarrow> output_options" where
  \<comment> \<open>\<open>get_flag\<close> of the parsed command line\<close>
  "cat_options get_flag =
     \<lparr>number = (if get_flag ''number-nonblank'' then NonEmpty
                else if get_flag ''number'' then All else NumberNone),
      squeeze_blank = get_flag ''squeeze-blank'',
      show_tabs = list_ex get_flag [''show-all'', ''show-tabs'', ''t''],
      show_ends = list_ex get_flag [''show-ends'', ''show-all'', ''e''],
      show_nonprint = list_ex get_flag [''show-all'', ''e'', ''t'', ''show-nonprinting'']\<rparr>"

definition cat_uumain ::
  "cat_lib \<Rightarrow> 'w cat_system \<Rightarrow> (string \<Rightarrow> bool) \<Rightarrow> path list option \<Rightarrow> reader \<Rightarrow> 'w \<Rightarrow>
     'w \<times> (exit_error, unit) outcome" where
  "cat_uumain L Y get_flag operands stdin w =
     cat_files L Y (case operands of Some v \<Rightarrow> v | None \<Rightarrow> [''-'']) (cat_options get_flag) stdin w"

end
