(* ===== verification/Cat_Lines.thy ===== *)
theory Cat_Lines
  imports Cat
begin

text \<open>
  The output state machine of \<open>cat\<close> against a reference that looks at one byte at a time:
  what the functions that write to the end of a line emit, on any writer.
\<close>

section \<open>Operations that write\<close>

abbreviation cat_emits ::
  "bool \<Rightarrow> ('s \<Rightarrow> bytes) \<Rightarrow> 's \<Rightarrow> 's \<times> (cat_error, 'a) outcome \<Rightarrow> bytes \<Rightarrow> ('s \<Rightarrow> 'a \<Rightarrow> bool) \<Rightarrow> bool" where
  "cat_emits fb \<equiv> emits (\<lambda>e. fb \<and> e = Io WriteError)"

lemma emits_on_writer:
  assumes "cat_emits fb content w (f w) out Q"
  shows "cat_emits fb (content \<circ> fst) (w, st) (on_writer f (w, st)) out (\<lambda>s x. snd s = st \<and> Q (fst s) x)"
  using assms by (auto simp: emits_def on_writer_def split: outcome.splits prod.splits)

context byte_writer
begin

lemma put_emits: "cat_emits fb content w (put W bs w) bs (\<lambda>_ _. True)"
  unfolding put_def by (rule write_or_emits)

lemma flush_emits: "cat_emits fb content w (flush_writer W w) [] (\<lambda>w _. settled w)"
  unfolding flush_writer_def by (rule flush_or_emits)

lemma write_end_of_line_emits: "cat_emits fb content w (write_end_of_line W eol i w) eol (\<lambda>_ _. True)"
  unfolding write_end_of_line_def
  by (rule emits_last [OF put_emits])
    (auto intro: emits_mono [OF flush_emits] emits_Ok)

end

section \<open>The end of a line\<close>

definition stop_byte :: "output_options \<Rightarrow> u8 \<Rightarrow> bool" where
  "stop_byte opt c \<longleftrightarrow> c = 10 \<or> (c = 13 \<and> \<not> show_nonprint opt)"

definition text_bytes :: "output_options \<Rightarrow> u8 \<Rightarrow> bytes" where
  "text_bytes opt c =
     (if show_nonprint opt then nonprint_bytes (tab opt) c
      else if show_tabs opt \<and> c = 9 then [94, 73] else [c])"

definition memchr2_law :: "(u8 \<Rightarrow> u8 \<Rightarrow> bytes \<Rightarrow> nat option) \<Rightarrow> bool" where
  "memchr2_law mc \<longleftrightarrow> (\<forall>a b bs. mc a b bs = position (\<lambda>c. c = a \<or> c = b) bs)"

lemma takeWhile_position:
  "takeWhile (\<lambda>c. \<not> P c) xs = (case position P xs of Some p \<Rightarrow> take p xs | None \<Rightarrow> xs)"
  by (induction xs) (auto split: option.splits)

lemma position_le: "position P xs = Some p \<Longrightarrow> p \<le> length xs"
  using position_Some [of P xs p] by simp

context byte_writer
begin

lemma write_to_end_emits:
  assumes "memchr2_law (memchr2 L)"
  shows "cat_emits fb content w (write_to_end L W in_buf w) (takeWhile (\<lambda>c. \<not> (c = 10 \<or> c = 13)) in_buf)
    (\<lambda>_ n. n = length (takeWhile (\<lambda>c. \<not> (c = 10 \<or> c = 13)) in_buf))"
proof -
  have mc: "memchr2 L 10 13 in_buf = position (\<lambda>c. c = 10 \<or> c = 13) in_buf"
    using assms by (simp add: memchr2_law_def)
  show ?thesis
  proof (cases "position (\<lambda>c. c = 10 \<or> c = 13) in_buf")
    case None
    then show ?thesis
      unfolding write_to_end_def mc takeWhile_position None option.case
      by (intro emits_last [OF put_emits] emits_Ok) simp
  next
    case (Some p)
    have le: "p \<le> length in_buf" using position_le [OF Some] .
    show ?thesis
      unfolding write_to_end_def mc takeWhile_position Some option.case if_P [OF le]
      by (intro emits_last [OF put_emits] emits_Ok) (simp add: le)
  qed
qed

lemma write_tab_to_end_emits:
  "cat_emits fb content w (write_tab_to_end W in_buf count w)
     (concat (map (\<lambda>c. if c = 9 then [94, 73] else [c]) (takeWhile (\<lambda>c. \<not> (c = 10 \<or> c = 13)) in_buf)))
     (\<lambda>_ n. n = count + length (takeWhile (\<lambda>c. \<not> (c = 10 \<or> c = 13)) in_buf))"
proof (induction "length in_buf" arbitrary: in_buf count w rule: less_induct)
  case less
  let ?T = "\<lambda>c :: u8. \<not> (c = 10 \<or> c = 13)" and ?f = "\<lambda>c :: u8. if c = 9 then [94, 73] else [c]"
  let ?P = "\<lambda>c :: u8. c = 10 \<or> c = 9 \<or> c = 13"
  have plain: "concat (map ?f xs) = xs" if "\<forall>x \<in> set xs. \<not> ?P x" for xs
    using that by (induction xs) auto
  show ?case
  proof (cases "position ?P in_buf")
    case None
    then have np: "\<forall>x \<in> set in_buf. \<not> ?P x" by (simp only: position_None)
    then have tw: "takeWhile ?T in_buf = in_buf" by (auto simp: takeWhile_eq_all_conv)
    show ?thesis
      unfolding write_tab_to_end.simps [of W in_buf] None option.case tw plain [OF np]
      by (intro emits_last [OF put_emits] emits_Ok) simp
  next
    case (Some p)
    let ?a = "take p in_buf" and ?r = "drop (p + 1) in_buf"
    from position_Some [OF Some] have p: "p < length in_buf" "?P (in_buf ! p)"
      and np: "\<forall>x \<in> set ?a. \<not> ?P x" by (auto simp: in_set_conv_nth)
    have split: "in_buf = ?a @ in_buf ! p # ?r" using id_take_nth_drop [OF p(1)] by simp
    have tw: "takeWhile ?T in_buf = ?a @ (if in_buf ! p = 9 then 9 # takeWhile ?T ?r else [])"
      using p(2) np by (subst split) (auto simp: takeWhile_append)
    show ?thesis
    proof (cases "in_buf ! p = 9")
      case True
      have "length ?r < length in_buf" using p(1) by simp
      note IH = less [OF this]
      have "cat_emits fb content w (write_tab_to_end W in_buf count w)
        (?a @ [94, 73] @ concat (map ?f (takeWhile ?T ?r)))
        (\<lambda>_ n. n = count + (p + 1) + length (takeWhile ?T ?r))"
        unfolding write_tab_to_end.simps [of W in_buf] Some option.case if_P [OF True]
        by (intro emits_bind [OF put_emits] emits_mono [OF IH]) simp
      then show ?thesis
        unfolding tw using True p(1) plain [OF np] by (simp add: add.assoc)
    next
      case False
      show ?thesis
        unfolding write_tab_to_end.simps [of W in_buf] Some option.case if_not_P [OF False] tw
        using plain [OF np] p(1)
        by (auto intro!: emits_last [OF put_emits] emits_Ok)
    qed
  qed
qed

lemma write_nonprint_to_end_emits:
  "cat_emits fb content w (write_nonprint_to_end W tb in_buf count w)
     (concat (map (nonprint_bytes tb) (takeWhile (\<lambda>c. c \<noteq> 10) in_buf)))
     (\<lambda>_ n. n = count + length (takeWhile (\<lambda>c. c \<noteq> 10) in_buf))"
proof (induction in_buf arbitrary: count w)
  case Nil
  show ?case by (simp add: emits_Ok)
next
  case (Cons c cs)
  show ?case
  proof (cases "c = 10")
    case True
    then show ?thesis by (simp add: emits_Ok)
  next
    case False
    have "cat_emits fb content w (sbind (put W (nonprint_bytes tb c) w)
        (\<lambda>w _. write_nonprint_to_end W tb cs (count + 1) w))
      (nonprint_bytes tb c @ concat (map (nonprint_bytes tb) (takeWhile (\<lambda>c. c \<noteq> 10) cs)))
      (\<lambda>_ n. n = count + 1 + length (takeWhile (\<lambda>c. c \<noteq> 10) cs))"
      by (rule emits_bind [OF put_emits]) (rule Cons.IH)
    with False show ?thesis by simp
  qed
qed

lemma write_end_emits:
  assumes "memchr2_law (memchr2 L)"
  shows "cat_emits fb content w (write_end L W opt in_buf w)
    (concat (map (text_bytes opt) (takeWhile (\<lambda>c. \<not> stop_byte opt c) in_buf)))
    (\<lambda>_ n. n = length (takeWhile (\<lambda>c. \<not> stop_byte opt c) in_buf))"
proof -
  have id: "concat (map (\<lambda>c. [c]) xs) = xs" for xs :: bytes by (induction xs) auto
  consider (np) "show_nonprint opt" | (tabs) "\<not> show_nonprint opt" "show_tabs opt"
    | (plain) "\<not> show_nonprint opt" "\<not> show_tabs opt" by blast
  then show ?thesis
  proof cases
    case np
    then have s: "stop_byte opt = (\<lambda>c. c = 10)" "text_bytes opt = nonprint_bytes (tab opt)"
      by (auto simp: stop_byte_def text_bytes_def)
    show ?thesis
      using np write_nonprint_to_end_emits [of w "tab opt" in_buf 0]
      unfolding s write_end_def by simp
  next
    case tabs
    then have s: "stop_byte opt = (\<lambda>c. c = 10 \<or> c = 13)"
      "text_bytes opt = (\<lambda>c. if c = 9 then [94, 73] else [c])"
      by (auto simp: stop_byte_def text_bytes_def)
    show ?thesis
      using tabs write_tab_to_end_emits [of w in_buf 0]
      unfolding s write_end_def by simp
  next
    case plain
    then have s: "stop_byte opt = (\<lambda>c. c = 10 \<or> c = 13)" "text_bytes opt = (\<lambda>c. [c])"
      by (auto simp: stop_byte_def text_bytes_def)
    show ?thesis
      using plain write_to_end_emits [OF assms, of w in_buf]
      unfolding s id write_end_def by simp
  qed
qed

end

end
