(* ===== verification/Cat_Number.thy ===== *)
theory Cat_Number
  imports Cat
begin

text \<open>
  The line number of \<open>cat\<close>: a decimal number kept as text at the end of a buffer, incremented in
  place by \<open>fast_inc_one\<close> of \<open>uucore\<close>, against the number it stands for.
\<close>

definition fast_inc_law :: "fast_inc \<Rightarrow> bool" where
  \<comment> \<open>the decimal number in \<open>buf[start..end]\<close> grows by one, to the left if it needs another digit\<close>
  "fast_inc_law inc \<longleftrightarrow> (\<forall>buf start e n.
     start \<le> e \<and> e \<le> length buf \<and> drop start (take e buf) = bdec n \<and> length (bdec (Suc n)) \<le> e \<longrightarrow>
     inc buf start e = Ok (take (e - length (bdec (Suc n))) buf @ bdec (Suc n) @ drop e buf,
                           e - length (bdec (Suc n))))"

definition num_text :: "nat \<Rightarrow> bytes" where
  \<comment> \<open>the number in at least six columns, and a tab\<close>
  "num_text n = replicate (6 - length (bdec n)) 32 @ bdec n @ [9]"

definition ln_ok :: "line_number \<Rightarrow> nat \<Rightarrow> bool" where
  "ln_ok l n \<longleftrightarrow>
     length (ln_buf l) = 32 \<and> num_end l = 31 \<and> length (bdec n) \<le> 31 \<and>
     num_start l = 31 - length (bdec n) \<and> print_start l = min 25 (num_start l) \<and>
     drop (print_start l) (ln_buf l) = num_text n"

lemma length_bdec: "length (bdec n) = length (dec_digits n)"
  by (simp add: bdec_def)

lemma length_dec_digits_mono: "length (dec_digits n) \<le> length (dec_digits (Suc n))"
proof (induction n rule: dec_digits.induct)
  case (1 n)
  have ne: "1 \<le> length (dec_digits m)" for m by (cases "dec_digits m") simp_all
  show ?case
  proof (cases "n < 10")
    case True
    then have "length (dec_digits n) = 1" by (subst dec_digits.simps) simp
    with ne [of "Suc n"] show ?thesis by simp
  next
    case False
    have "Suc n div 10 = n div 10 \<or> Suc n div 10 = Suc (n div 10)" by linarith
    moreover have "length (dec_digits n) = Suc (length (dec_digits (n div 10)))"
      "length (dec_digits (Suc n)) = Suc (length (dec_digits (Suc n div 10)))"
      using False dec_digits.simps [of n] dec_digits.simps [of "Suc n"] by simp_all
    ultimately show ?thesis using 1 [OF False] by auto
  qed
qed

lemma to_str_ok: "ln_ok l n \<Longrightarrow> to_str l = num_text n"
  unfolding ln_ok_def to_str_def by blast

lemma line_number_new_ok: "ln_ok line_number_new 1"
proof -
  have "bdec 1 = [49]" by (simp add: bdec_def dec_digits.simps)
  then show ?thesis
    by (simp add: ln_ok_def line_number_new_def LINE_NUMBER_BUF_SIZE_def num_text_def Let_def
        numeral_eq_Suc)
qed

lemma drop_take_append:
  assumes "length xs = n" shows "drop n (xs @ ys) = ys" "take n (xs @ ys) = xs"
  using assms by simp_all

lemma increment_ok:
  assumes inc: "fast_inc_law inc" and l: "ln_ok l n" and bound: "length (bdec (Suc n)) \<le> 31"
  shows "\<exists>l'. increment inc l = Ok l' \<and> ln_ok l' (Suc n)"
proof -
  define d d' where "d = length (bdec n)" "d' = length (bdec (Suc n))"
  have dd: "d \<le> d'" "1 \<le> d" "d' \<le> 31"
    using length_dec_digits_mono bound unfolding d_d'_def length_bdec
    by (simp_all add: Suc_le_eq)
  let ?p = "print_start l"
  have lb: "length (ln_buf l) = 32" "num_end l = 31" "num_start l = 31 - d" "?p = min 25 (31 - d)"
    "drop ?p (ln_buf l) = num_text n"
    using l unfolding ln_ok_def d_d'_def(1) by metis+
  have nt: "drop (31 - d - ?p) (num_text n) = bdec n @ [9]"
  proof (cases "d \<le> 6")
    case True
    with lb(4) have "31 - d - ?p = 6 - d" by simp
    then show ?thesis by (simp add: num_text_def d_d'_def)
  next
    case False
    with lb(4) have "31 - d - ?p = 0" by simp
    with False show ?thesis by (simp add: num_text_def d_d'_def)
  qed
  have tail: "drop (31 - d) (ln_buf l) = bdec n @ [9]"
  proof -
    have "drop (31 - d) (ln_buf l) = drop (31 - d - ?p) (drop ?p (ln_buf l))"
      unfolding drop_drop using lb(4) by (metis le_add_diff_inverse2 min.cobounded2)
    then show ?thesis using lb(5) nt by simp
  qed
  have digits: "drop (31 - d) (take 31 (ln_buf l)) = bdec n"
  proof -
    have "drop (31 - d) (take 31 (ln_buf l)) = take d (drop (31 - d) (ln_buf l))"
      using dd by (simp add: drop_take)
    then show ?thesis using tail by (simp add: d_d'_def)
  qed
  have last: "drop 31 (ln_buf l) = [9]"
  proof -
    have "drop 31 (ln_buf l) = drop d (drop (31 - d) (ln_buf l))" using dd by simp
    also have "\<dots> = drop d (bdec n @ [9])" unfolding tail ..
    finally show ?thesis by (simp add: d_d'_def)
  qed
  define buf where "buf = take (31 - d') (ln_buf l) @ bdec (Suc n) @ [9]"
  have i: "inc (ln_buf l) (num_start l) (num_end l) = Ok (buf, 31 - d')"
    using inc lb digits dd last unfolding fast_inc_law_def buf_def d_d'_def(2) by simp
  have "drop (min 25 (31 - d')) buf = num_text (Suc n)"
  proof (cases "d' \<le> 6")
    case False
    then have "min 25 (31 - d') = 31 - d'" by simp
    with False show ?thesis using lb(1) by (simp add: buf_def num_text_def d_d'_def)
  next
    case True
    with dd lb(4) have p: "?p = 25" and m: "min 25 (31 - d') = 25" by simp_all
    have "drop 25 (take (31 - d') (ln_buf l)) = take (6 - d') (drop 25 (ln_buf l))"
      using True by (simp add: drop_take)
    also have "\<dots> = take (6 - d') (num_text n)" using lb(5) p by simp
    also have "\<dots> = replicate (6 - d') 32"
      using dd by (simp add: num_text_def d_d'_def)
    finally show ?thesis
      unfolding m buf_def using lb(1) True by (simp add: num_text_def d_d'_def)
  qed
  moreover have "min ?p (31 - d') = min 25 (31 - d')" using lb(4) dd by linarith
  moreover have "length buf = 32" using lb(1) dd(3) by (simp add: buf_def d_d'_def)
  ultimately have "ln_ok (l\<lparr>ln_buf := buf, num_start := 31 - d', print_start := min ?p (31 - d')\<rparr>) (Suc n)"
    unfolding ln_ok_def using lb(2) dd(3) d_d'_def(2) by simp
  with i show ?thesis by (simp add: increment_def)
qed

lemma bdec_bound: "n < 10 ^ 31 \<Longrightarrow> length (bdec n) \<le> 31"
  using length_dec_digits [of n 30] by (simp add: length_bdec)

end
