(* ===== verification/Cat_Automaton.thy ===== *)
theory Cat_Automaton
  imports Cat_Lines Cat_Number
begin

text \<open>
  The reference for \<open>write_lines\<close>: an automaton that reads one byte at a time, counts lines with a
  number and knows whether a byte is the first of what one \<open>read\<close> returned. The loop of the code
  emits exactly its output.
\<close>

section \<open>The reference automaton\<close>

record line_state =
  next_no :: nat \<comment> \<open>the number of the next numbered line\<close>
  bol :: bool \<comment> \<open>at the beginning of a line\<close>
  cr :: bool \<comment> \<open>a carriage return is held back\<close>
  blank :: bool \<comment> \<open>the last line was an empty one that was kept\<close>

definition line_state_new :: line_state where
  "line_state_new = \<lparr>next_no = 1, bol = True, cr = False, blank = False\<rparr>"

definition numbered :: "output_options \<Rightarrow> line_state \<Rightarrow> bool" where
  "numbered opt s \<longleftrightarrow> bol s \<and> \<not> cr s \<and> number opt \<noteq> NumberNone"

definition byte_step :: "output_options \<Rightarrow> bool \<Rightarrow> u8 \<Rightarrow> line_state \<Rightarrow> bytes \<times> line_state" where
  \<comment> \<open>the flag says that the byte is the first of a chunk\<close>
  "byte_step opt first c s =
     (if c = 10 then
        (if cr s then ((if show_ends opt then [94, 77] else [13]) @ end_of_line opt, s\<lparr>cr := False, bol := True\<rparr>)
         else if \<not> bol s then (end_of_line opt, s\<lparr>bol := True, blank := blank s \<or> first\<rparr>)
         else if squeeze_blank opt \<and> blank s then ([], s)
         else if number opt = All
         then (num_text (next_no s) @ end_of_line opt, s\<lparr>next_no := Suc (next_no s), blank := True\<rparr>)
         else (end_of_line opt, s\<lparr>blank := True\<rparr>))
      else
        (let out = (if cr s then [13] else []) @ (if numbered opt s then num_text (next_no s) else []);
             s' = s\<lparr>next_no := (if numbered opt s then Suc (next_no s) else next_no s),
                    bol := False, blank := False\<rparr>
         in if stop_byte opt c then (out, s'\<lparr>cr := True\<rparr>)
            else (out @ text_bytes opt c, s'\<lparr>cr := False\<rparr>)))"

fun run_chunk :: "output_options \<Rightarrow> bool \<Rightarrow> bytes \<Rightarrow> line_state \<Rightarrow> bytes \<times> line_state" where
  "run_chunk opt first [] s = ([], s)"
| "run_chunk opt first (c # cs) s =
     (case byte_step opt first c s of (out, s') \<Rightarrow>
        (case run_chunk opt False cs s' of (out', s'') \<Rightarrow> (out @ out', s'')))"

definition st_rel :: "output_state \<Rightarrow> line_state \<Rightarrow> bool" where
  "st_rel st s \<longleftrightarrow> ln_ok (line_number st) (next_no s) \<and> skipped_carriage_return st = cr s \<and>
     (\<not> cr s \<longrightarrow> at_line_start st = bol s) \<and> one_blank_kept st = blank s"

lemma st_rel_new: "st_rel output_state_new line_state_new"
  by (simp add: st_rel_def output_state_new_def line_state_new_def
      line_number_new_ok [unfolded One_nat_def])

lemma run_chunk_Cons:
  "run_chunk opt first (c # cs) s =
     (fst (byte_step opt first c s) @ fst (run_chunk opt False cs (snd (byte_step opt first c s))),
      snd (run_chunk opt False cs (snd (byte_step opt first c s))))"
  by (simp split: prod.splits)

lemma run_chunk_text:
  assumes "\<forall>c \<in> set cs. \<not> stop_byte opt c" "\<not> bol s" "\<not> cr s" "\<not> blank s"
  shows "run_chunk opt False (cs @ rest) s =
    (concat (map (text_bytes opt) cs) @ fst (run_chunk opt False rest s), snd (run_chunk opt False rest s))"
  using assms(1)
proof (induction cs)
  case (Cons c cs)
  have "c \<noteq> 10" using Cons.prems by (auto simp: stop_byte_def)
  moreover have "s\<lparr>bol := False, blank := False, cr := False\<rparr> = s"
    using assms(2-4) by (cases s) simp
  ultimately have "byte_step opt False c s = (text_bytes opt c, s)"
    using Cons.prems assms(2-4) by (cases s) (simp add: byte_step_def numbered_def)
  then show ?case using Cons by (simp add: run_chunk_Cons del: run_chunk.simps(2))
qed simp

text \<open>What comes before the text of a line, and the state after it.\<close>

definition lead_bytes :: "output_options \<Rightarrow> line_state \<Rightarrow> bytes" where
  "lead_bytes opt s =
     (if cr s then [13] else []) @ (if numbered opt s then num_text (next_no s) else [])"

definition lead_state :: "output_options \<Rightarrow> line_state \<Rightarrow> line_state" where
  "lead_state opt s =
     s\<lparr>next_no := (if numbered opt s then Suc (next_no s) else next_no s), bol := False, blank := False,
       cr := False\<rparr>"

lemma run_chunk_line:
  assumes t: "t = takeWhile (\<lambda>c. \<not> stop_byte opt c) bs" and ne: "bs \<noteq> []" "hd bs \<noteq> 10"
  shows "run_chunk opt first bs s =
    (lead_bytes opt s @ concat (map (text_bytes opt) t) @
       fst (run_chunk opt False (drop (length t) bs) (lead_state opt s)),
     snd (run_chunk opt False (drop (length t) bs) (lead_state opt s)))"
proof (cases t)
  case Nil
  then obtain cs where bs: "bs = 13 # cs" and np: "stop_byte opt 13"
    using t ne by (cases bs) (auto simp: stop_byte_def split: if_splits)
  have l: "numbered opt (lead_state opt s) = False" "cr (lead_state opt s) = False"
    by (simp_all add: numbered_def lead_state_def)
  have "byte_step opt first 13 s = (lead_bytes opt s, (lead_state opt s)\<lparr>cr := True\<rparr>)"
    using np by (simp add: byte_step_def lead_bytes_def lead_state_def Let_def)
  moreover have "byte_step opt False 13 (lead_state opt s) = ([], (lead_state opt s)\<lparr>cr := True\<rparr>)"
    using np l by (simp add: byte_step_def) (simp add: lead_state_def)
  ultimately show ?thesis using Nil by (simp add: bs run_chunk_Cons del: run_chunk.simps(2))
next
  case (Cons c ts)
  then obtain cs where bs: "bs = c # cs" and c: "\<not> stop_byte opt c"
    and ts: "ts = takeWhile (\<lambda>c. \<not> stop_byte opt c) cs"
    using t by (cases bs) (auto split: if_splits)
  have cs: "cs = ts @ drop (length ts) cs"
    unfolding ts by (metis takeWhile_dropWhile_id dropWhile_eq_drop)
  have all: "\<forall>c \<in> set ts. \<not> stop_byte opt c" unfolding ts by (auto dest: set_takeWhileD)
  have l: "\<not> bol (lead_state opt s)" "\<not> cr (lead_state opt s)" "\<not> blank (lead_state opt s)"
    by (simp_all add: lead_state_def)
  have "byte_step opt first c s = (lead_bytes opt s @ text_bytes opt c, lead_state opt s)"
    using c by (auto simp: byte_step_def lead_bytes_def lead_state_def Let_def stop_byte_def)
  then show ?thesis
    using run_chunk_text [OF all l, of "drop (length ts) cs"] cs Cons
    by (simp add: bs run_chunk_Cons del: run_chunk.simps(2))
qed

section \<open>The loop emits the output of the automaton\<close>

definition lib_ok :: "cat_lib \<Rightarrow> bool" where
  "lib_ok L \<longleftrightarrow> memchr2_law (memchr2 L) \<and> fast_inc_law (fast_inc_one L)"

definition no_limit :: nat where
  \<comment> \<open>numbers up to here fit the buffer of the line number\<close>
  "no_limit = 10 ^ 31"

context byte_writer
begin

lemma on_put_emits:
  "cat_emits fb (content \<circ> fst) s (on_writer (put W bs) s) bs (\<lambda>s' _. snd s' = snd s)"
  by (cases s) (auto intro: emits_mono [OF emits_on_writer [OF put_emits]])

lemma on_eol_emits:
  "cat_emits fb (content \<circ> fst) s (on_writer (write_end_of_line W eol i) s) eol (\<lambda>s' _. snd s' = snd s)"
  by (cases s) (auto intro: emits_mono [OF emits_on_writer [OF write_end_of_line_emits]])

lemma write_number_emits:
  assumes L: "lib_ok L" and l: "ln_ok (line_number (snd s)) n" and b: "Suc n < no_limit"
  shows "cat_emits fb (content \<circ> fst) s (write_number L W s) (num_text n)
    (\<lambda>s' _. \<exists>l. snd s' = (snd s)\<lparr>line_number := l\<rparr> \<and> ln_ok l (Suc n))"
proof -
  obtain l where i: "increment (fast_inc_one L) (line_number (snd s)) = Ok l" "ln_ok l (Suc n)"
    using increment_ok [OF _ l bdec_bound] L b by (auto simp: lib_ok_def no_limit_def)
  show ?thesis
    unfolding write_number_def to_str_ok [OF l]
    by (rule emits_last_pair [OF on_put_emits]) (use i in \<open>auto intro!: emits_update exI [of _ l]\<close>)
qed

lemma write_new_line_emits:
  assumes L: "lib_ok L" and r: "st_rel (snd s) q" and f: "first \<or> bol q \<or> cr q"
    and b: "Suc (next_no q) < no_limit"
  shows "cat_emits fb (content \<circ> fst) s (write_new_line L W opt i s) (fst (byte_step opt first 10 q))
    (\<lambda>s' _. st_rel ((snd s')\<lparr>at_line_start := True\<rparr>) (snd (byte_step opt first 10 q)))"
proof -
  have ln: "ln_ok (line_number (snd s)) (next_no q)" and cr: "skipped_carriage_return (snd s) = cr q"
    and bl: "one_blank_kept (snd s) = blank q" using r by (simp_all add: st_rel_def)
  show ?thesis
  proof (cases "cr q")
    case True
    have out: "fst (byte_step opt first 10 q) =
        (if show_ends opt then [94, 77] else [13]) @ end_of_line opt" using True by (simp add: byte_step_def)
    show ?thesis
      unfolding write_new_line_def cr if_P [OF True] out
    proof (rule emits_bind_pair [OF on_put_emits])
      fix w :: 'w and st and x :: unit
      assume st: "snd (w, st) = snd s"
      show "cat_emits fb (content \<circ> fst) (w, st)
         (on_writer (write_end_of_line W (end_of_line opt) i) (w, st\<lparr>skipped_carriage_return := False\<rparr>))
         (end_of_line opt) (\<lambda>s' _. st_rel ((snd s')\<lparr>at_line_start := True\<rparr>) (snd (byte_step opt first 10 q)))"
        by (rule emits_mono [OF emits_from [OF on_eol_emits]])
          (use True st r in \<open>simp_all add: byte_step_def st_rel_def\<close>)
    qed
  next
    case False
    then have bol: "at_line_start (snd s) = bol q" using r by (simp add: st_rel_def)
    show ?thesis
    proof (cases "bol q \<and> squeeze_blank opt \<and> blank q")
      case True
      with False bol cr bl r show ?thesis
        by (auto simp: write_new_line_def byte_step_def st_rel_def intro!: emits_Ok)
    next
      case go: False
      let ?s = "(fst s, (snd s)\<lparr>one_blank_kept := True\<rparr>)"
      have eq: "write_new_line L W opt i s =
        sbind (if bol q \<and> number opt = All then write_number L W ?s else (?s, Ok ()))
          (\<lambda>s _. on_writer (write_end_of_line W (end_of_line opt) i) s)"
        unfolding write_new_line_def cr if_not_P [OF False] bol bl using go by (simp add: bol Let_def)
      show ?thesis
      proof (cases "bol q \<and> number opt = All")
        case num: True
        have out: "byte_step opt first 10 q = (num_text (next_no q) @ end_of_line opt,
            q\<lparr>next_no := Suc (next_no q), blank := True\<rparr>)"
          using num go False by (auto simp: byte_step_def)
        have ln': "ln_ok (line_number (snd ?s)) (next_no q)" using ln by simp
        show ?thesis
          unfolding eq if_P [OF num] out fst_conv snd_conv
          by (rule emits_bind [OF emits_from [OF write_number_emits [OF L ln' b]]], simp,
              rule emits_mono [OF on_eol_emits])
            (use num r False in \<open>auto simp: st_rel_def\<close>)
      next
        case no: False
        have out: "byte_step opt first 10 q = (end_of_line opt, q\<lparr>bol := True, blank := True\<rparr>)"
          using no go False f by (auto simp: byte_step_def)
        show ?thesis
          unfolding eq if_not_P [OF no] out fst_conv snd_conv sbind.simps
          by (rule emits_mono [OF emits_from [OF on_eol_emits]])
            (use r False in \<open>auto simp: st_rel_def\<close>)
      qed
    qed
  qed
qed

definition mid_line :: "output_options \<Rightarrow> line_state \<Rightarrow> output_state \<Rightarrow> bool" where
  \<comment> \<open>the output state once the lead of a line is written\<close>
  "mid_line opt q st \<longleftrightarrow> ln_ok (line_number st) (next_no (lead_state opt q)) \<and>
     \<not> skipped_carriage_return st \<and> \<not> one_blank_kept st"

lemma lead_emits:
  assumes L: "lib_ok L" and r: "st_rel (snd s) q" and b: "Suc (next_no q) < no_limit"
  shows "cat_emits fb (content \<circ> fst) s (line_lead L W opt s)
    (lead_bytes opt q) (\<lambda>s' _. mid_line opt q (snd s'))"
  unfolding lead_bytes_def line_lead_def
proof (rule emits_bind_pair)
  let ?st = "(snd s)\<lparr>skipped_carriage_return := False, at_line_start := (at_line_start (snd s) \<and> \<not> cr q)\<rparr>"
  have cr: "skipped_carriage_return (snd s) = cr q" using r by (simp add: st_rel_def)
  have same: "snd s = (snd s)\<lparr>skipped_carriage_return := False\<rparr>" if "\<not> cr q"
    using that cr by (cases "snd s") simp
  show "cat_emits fb (content \<circ> fst) s (if skipped_carriage_return (snd s) then
              sbind (on_writer (put W [13]) s) (\<lambda>(w, st) _.
                ((w, st\<lparr>skipped_carriage_return := False, at_line_start := False\<rparr>), Ok ()))
            else (s, Ok ())) (if cr q then [13] else []) (\<lambda>s' _. snd s' = ?st)"
  proof (cases "cr q")
    case True
    show ?thesis
      unfolding cr if_P [OF True]
      by (rule emits_last_pair [OF on_put_emits]) (use True in \<open>auto intro!: emits_update\<close>)
  next
    case False
    with same [OF False] show ?thesis unfolding cr by (auto intro!: emits_Ok)
  qed
  fix w :: 'w and st and x :: unit
  assume "snd (w, st) = ?st"
  then have st: "st = ?st" by simp
  let ?s = "(w, st\<lparr>one_blank_kept := False\<rparr>)"
  have n: "at_line_start (snd ?s) \<and> number opt \<noteq> NumberNone \<longleftrightarrow> numbered opt q"
    using r st by (auto simp: numbered_def st_rel_def)
  have ln: "ln_ok (line_number (snd ?s)) (next_no q)" using r st by (simp add: st_rel_def)
  show "cat_emits fb (content \<circ> fst) (w, st) (let s = ?s in
      if at_line_start (snd s) \<and> number opt \<noteq> NumberNone then write_number L W s else (s, Ok ()))
      (if numbered opt q then num_text (next_no q) else []) (\<lambda>s' _. mid_line opt q (snd s'))"
  proof (cases "numbered opt q")
    case True
    show ?thesis
      unfolding Let_def n if_P [OF True]
      by (rule emits_from [OF emits_mono [OF write_number_emits [OF L ln b]]])
        (use True st in \<open>auto simp: mid_line_def lead_state_def\<close>)
  next
    case False
    show ?thesis
      unfolding Let_def n if_not_P [OF False]
      by (rule emits_update) (use False st ln in \<open>auto simp: mid_line_def lead_state_def\<close>)
  qed
qed

lemma lines_loop_emits:
  assumes L: "lib_ok L"
  shows "st_rel (snd s) q \<Longrightarrow> pos = 0 \<or> bol q \<or> cr q \<Longrightarrow>
    next_no q + length (drop pos in_buf) < no_limit \<Longrightarrow>
    cat_emits fb (content \<circ> fst) s (lines_loop L W opt i in_buf pos s)
      (fst (run_chunk opt (pos = 0) (drop pos in_buf) q))
      (\<lambda>s' _. st_rel (snd s') (snd (run_chunk opt (pos = 0) (drop pos in_buf) q)))"
proof (induction "length in_buf - pos" arbitrary: pos s q rule: less_induct)
  case less
  note IH = less.hyps and r = less.prems(1) and f = less.prems(2) and b = less.prems(3)
  let ?first = "pos = 0"
  show ?case
  proof (cases "pos < length in_buf")
    case False
    with r show ?thesis by (subst lines_loop.simps) (simp add: emits_Ok)
  next
    case pos: True
    define c where "c = in_buf ! pos"
    have d: "drop pos in_buf = c # drop (pos + 1) in_buf"
      using pos by (simp add: c_def Cons_nth_drop_Suc)
    have rec: "cat_emits fb (content \<circ> fst) (w, st) (lines_loop L W opt i in_buf (pos + Suc k) (w, st'))
        (fst (run_chunk opt False (drop (pos + Suc k) in_buf) q'))
        (\<lambda>s' _. st_rel (snd s') (snd (run_chunk opt False (drop (pos + Suc k) in_buf) q')))"
      if "st_rel st' q'" "bol q' \<or> cr q'" "next_no q' + length (drop (pos + Suc k) in_buf) < no_limit"
      for k and w :: 'w and st st' q'
    proof -
      have "cat_emits fb (content \<circ> fst) (w, st') (lines_loop L W opt i in_buf (pos + Suc k) (w, st'))
        (fst (run_chunk opt False (drop (pos + Suc k) in_buf) q'))
        (\<lambda>s' _. st_rel (snd s') (snd (run_chunk opt False (drop (pos + Suc k) in_buf) q')))"
        using IH [of "pos + Suc k" "(w, st')" q'] that pos by simp
      then show ?thesis by (rule emits_from) simp
    qed
    show ?thesis
    proof (cases "c = 10")
      case True
      have b1: "Suc (next_no q) < no_limit" using b d by simp
      let ?q = "snd (byte_step opt ?first 10 q)"
      have q: "bol ?q \<or> cr ?q" by (simp add: byte_step_def)
      have nb: "next_no ?q + length (drop (pos + 1) in_buf) < no_limit"
        using b d by (simp add: byte_step_def)
      show ?thesis
        unfolding d run_chunk_Cons True fst_conv snd_conv lines_loop.simps [of L W opt i in_buf pos]
          if_P [OF pos] c_def [symmetric] True if_P [OF refl]
      proof (rule emits_bind_pair [OF write_new_line_emits [OF L r _ b1]])
        show "?first \<or> bol q \<or> cr q" using f by blast
        fix w :: 'w and st and x :: unit
        assume "st_rel ((snd (w, st))\<lparr>at_line_start := True\<rparr>) ?q"
        then show "cat_emits fb (content \<circ> fst) (w, st)
            (lines_loop L W opt i in_buf (pos + 1) (w, st\<lparr>at_line_start := True\<rparr>))
            (fst (run_chunk opt False (drop (pos + 1) in_buf) ?q))
            (\<lambda>s' _. st_rel (snd s') (snd (run_chunk opt False (drop (pos + 1) in_buf) ?q)))"
          using rec [of "st\<lparr>at_line_start := True\<rparr>" ?q 0 w st] q nb by simp
      qed
    next
      case False
      have nb: "next_no (lead_state opt q) + length (drop (pos + 1) in_buf) < no_limit"
        and b1: "Suc (next_no q) < no_limit"
        using b d by (auto simp: lead_state_def)
      let ?t = "takeWhile (\<lambda>c. \<not> stop_byte opt c) (drop pos in_buf)"
      let ?n = "length ?t" and ?q = "lead_state opt q"
      let ?text = "concat (map (text_bytes opt) ?t)"
      have "drop pos in_buf \<noteq> []" "hd (drop pos in_buf) \<noteq> 10" using False pos by (simp_all add: d)
      note line = run_chunk_line [OF refl this, of opt ?first q]
      have le: "?n \<le> length in_buf - pos" using length_takeWhile_le [of _ "drop pos in_buf"] by simp
      have rest: "drop ?n (drop pos in_buf) = drop (pos + ?n) in_buf" by (simp add: add.commute)
      have stop: "stop_byte opt (in_buf ! (pos + ?n))" if "pos + ?n < length in_buf"
        using that nth_length_takeWhile [of "\<lambda>c. \<not> stop_byte opt c" "drop pos in_buf"] by simp
      have bnd: "next_no ?q + length (drop (pos + Suc ?n) in_buf) < no_limit"
        using nb by simp
      let ?Q = "\<lambda>s' _. st_rel (snd s') (snd (run_chunk opt False (drop (pos + ?n) in_buf) ?q))"
      have tail: "cat_emits fb (content \<circ> fst) (w, st)
         (if ?n + pos = length in_buf then ((w, st\<lparr>at_line_start := False\<rparr>), Ok ())
             else if length in_buf < pos + ?n then ((w, st), Panic)
             else if in_buf ! (pos + ?n) = 13 then
               lines_loop L W opt i in_buf (pos + ?n + 1) (w, st\<lparr>skipped_carriage_return := True\<rparr>)
             else if in_buf ! (pos + ?n) \<noteq> 10 then ((w, st), Panic)
             else
               sbind (on_writer (write_end_of_line W (end_of_line opt) i) (w, st)) (\<lambda>(w, st) _.
                 lines_loop L W opt i in_buf (pos + ?n + 1) (w, st\<lparr>at_line_start := True\<rparr>)))
         (fst (run_chunk opt False (drop (pos + ?n) in_buf) ?q)) ?Q"
        if mid: "mid_line opt q st" for w :: 'w and st
      proof -
        have q: "\<not> bol ?q" "\<not> cr ?q" "\<not> blank ?q" by (simp_all add: lead_state_def)
        have m: "ln_ok (line_number st) (next_no ?q)" "\<not> skipped_carriage_return st" "\<not> one_blank_kept st"
          using mid by (simp_all add: mid_line_def)
        consider (finish) "?n + pos = length in_buf" | (more) "pos + ?n < length in_buf"
          using le pos by linarith
        then show ?thesis
        proof cases
          case finish
          then show ?thesis using m q by (simp add: st_rel_def emits_def add.commute)
        next
          case more
          let ?b = "in_buf ! (pos + ?n)"
          have d2: "drop (pos + ?n) in_buf = ?b # drop (pos + Suc ?n) in_buf"
            using more by (simp add: Cons_nth_drop_Suc)
          have e1: "?n + pos \<noteq> length in_buf" and e2: "\<not> length in_buf < pos + ?n" using more by simp_all
          have e3: "pos + ?n + 1 = pos + Suc ?n" by simp
          show ?thesis
          proof (cases "?b = 13")
            case True
            with stop [OF more] have np: "\<not> show_nonprint opt" by (simp add: stop_byte_def)
            have "byte_step opt False 13 ?q = ([], ?q\<lparr>cr := True\<rparr>)"
              using q np by (cases ?q) (simp add: byte_step_def numbered_def stop_byte_def)
            then show ?thesis
              unfolding if_not_P [OF e1] if_not_P [OF e2] if_P [OF True] d2 run_chunk_Cons True e3
              using rec [of "st\<lparr>skipped_carriage_return := True\<rparr>" "?q\<lparr>cr := True\<rparr>" ?n w st] m q bnd
              by (simp add: st_rel_def)
          next
            case False
            with stop [OF more] have b10: "?b = 10" by (simp add: stop_byte_def)
            have bs: "byte_step opt False 10 ?q = (end_of_line opt, ?q\<lparr>bol := True\<rparr>)"
              using q by (cases ?q) (simp add: byte_step_def)
            have ne: "((10 :: u8) = 13) = False" "((10 :: u8) \<noteq> 10) = False" by simp_all
            show ?thesis
              unfolding if_not_P [OF e1] if_not_P [OF e2] d2 run_chunk_Cons b10 e3 bs ne if_False
                fst_conv snd_conv
            proof (rule emits_bind_pair [OF on_eol_emits])
              fix w' :: 'w and st' and x :: unit
              assume "snd (w', st') = snd (w, st)"
              then show "cat_emits fb (content \<circ> fst) (w', st')
                (lines_loop L W opt i in_buf (pos + Suc ?n) (w', st'\<lparr>at_line_start := True\<rparr>))
                (fst (run_chunk opt False (drop (pos + Suc ?n) in_buf) (?q\<lparr>bol := True\<rparr>)))
                (\<lambda>s' _. st_rel (snd s') (snd (run_chunk opt False (drop (pos + Suc ?n) in_buf) (?q\<lparr>bol := True\<rparr>))))"
                using rec [of "st'\<lparr>at_line_start := True\<rparr>" "?q\<lparr>bol := True\<rparr>" ?n w' st'] m q bnd
                by (simp add: st_rel_def)
            qed
          qed
        qed
      qed
      show ?thesis
        unfolding line rest fst_conv snd_conv lines_loop.simps [of L W opt i in_buf pos]
          if_P [OF pos] c_def [symmetric] if_not_P [OF False]
      proof (rule emits_bind [OF lead_emits [OF L r b1]])
        fix s1 :: "'w \<times> output_state" and x :: unit
        assume mid: "mid_line opt q (snd s1)"
        have we: "cat_emits fb (content \<circ> fst) s1 (on_writer (write_end L W opt (drop pos in_buf)) s1) ?text
            (\<lambda>s x. snd s = snd s1 \<and> x = ?n)"
        proof -
          have "memchr2_law (memchr2 L)" using L by (simp add: lib_ok_def)
          from emits_on_writer [where f = "write_end L W opt (drop pos in_buf)" and w = "fst s1"
              and st = "snd s1", OF write_end_emits [OF this]]
          show ?thesis by simp
        qed
        show "cat_emits fb (content \<circ> fst) s1
          (sbind (on_writer (write_end L W opt (drop pos in_buf)) s1) (\<lambda>(w, st) offset.
             if offset + pos = length in_buf then ((w, st\<lparr>at_line_start := False\<rparr>), Ok ())
             else if length in_buf < pos + offset then ((w, st), Panic)
             else if in_buf ! (pos + offset) = 13 then
               lines_loop L W opt i in_buf (pos + offset + 1) (w, st\<lparr>skipped_carriage_return := True\<rparr>)
             else if in_buf ! (pos + offset) \<noteq> 10 then ((w, st), Panic)
             else
               sbind (on_writer (write_end_of_line W (end_of_line opt) i) (w, st)) (\<lambda>(w, st) _.
                 lines_loop L W opt i in_buf (pos + offset + 1) (w, st\<lparr>at_line_start := True\<rparr>))))
          (?text @ fst (run_chunk opt False (drop (pos + ?n) in_buf) ?q)) ?Q"
        proof (rule emits_bind_pair [OF we])
          fix w :: 'w and st and offset
          assume "snd (w, st) = snd s1 \<and> offset = ?n"
          then have st: "st = snd s1" and off: "offset = ?n" by simp_all
          show "cat_emits fb (content \<circ> fst) (w, st)
            (if offset + pos = length in_buf then ((w, st\<lparr>at_line_start := False\<rparr>), Ok ())
             else if length in_buf < pos + offset then ((w, st), Panic)
             else if in_buf ! (pos + offset) = 13 then
               lines_loop L W opt i in_buf (pos + offset + 1) (w, st\<lparr>skipped_carriage_return := True\<rparr>)
             else if in_buf ! (pos + offset) \<noteq> 10 then ((w, st), Panic)
             else
               sbind (on_writer (write_end_of_line W (end_of_line opt) i) (w, st)) (\<lambda>(w, st) _.
                 lines_loop L W opt i in_buf (pos + offset + 1) (w, st\<lparr>at_line_start := True\<rparr>)))
            (fst (run_chunk opt False (drop (pos + ?n) in_buf) ?q)) ?Q"
            unfolding off by (rule tail) (use mid st in simp)
        qed
      qed
    qed
  qed
qed

end

end
