(* ===== verification/Cat_Device.thy ===== *)
theory Cat_Device
  imports Cat_Automaton
begin

text \<open>
  Standard output as a device, and the \<open>BufWriter\<close> on it: whatever the device accepts, the bytes on
  it and in the buffer are the bytes written so far, and they are all on the device after a flush.
  With that, \<open>write_lines\<close> on any reader and any device is the reference automaton.
\<close>

section \<open>Devices\<close>

locale byte_device =
  fixes D :: "'w device" and got :: "'w \<Rightarrow> bytes"
    and fb :: bool \<comment> \<open>whether a call may fail\<close>
  assumes dev_write_law: "dev_write D w bs = (w', r) \<Longrightarrow>
      (case r of None \<Rightarrow> fb \<and> got w' = got w
       | Some n \<Rightarrow> n \<le> length bs \<and> got w' = got w @ take n bs \<and> (n = 0 \<and> bs \<noteq> [] \<longrightarrow> fb))"
    and dev_flush_law: "dev_flush D w = (w', ok) \<Longrightarrow> got w' = got w \<and> (\<not> ok \<longrightarrow> fb)"
    and splice_law: "splice_exact D w bs = (w', k, ok) \<Longrightarrow>
      k \<le> length bs \<and> got w' = got w @ take k bs \<and> (ok \<longrightarrow> k = length bs) \<and> (\<not> ok \<longrightarrow> fb)"
begin

lemma dev_write_loop_law:
  "dev_write_loop D w bs = ((w', rest), ok) \<Longrightarrow>
     got w' @ rest = got w @ bs \<and> (ok \<longrightarrow> rest = []) \<and> (\<not> ok \<longrightarrow> fb) \<and> (\<exists>p. bs = p @ rest)"
proof (induction "length bs" arbitrary: bs w rule: less_induct)
  case less
  show ?case
  proof (cases "bs = []")
    case True
    with less.prems show ?thesis by (simp add: dev_write_loop.simps [of D w "[]"])
  next
    case False
    obtain w1 r where w1: "dev_write D w bs = (w1, r)" by (cases "dev_write D w bs")
    note law = dev_write_law [OF w1]
    show ?thesis
    proof (cases r)
      case None
      with less.prems w1 False law show ?thesis by (simp add: dev_write_loop.simps [of D w bs])
    next
      case (Some n)
      show ?thesis
      proof (cases "n = 0")
        case True
        with less.prems w1 False law Some show ?thesis
          by (simp add: dev_write_loop.simps [of D w bs])
      next
        case n: False
        with less.prems w1 False Some have rest: "dev_write_loop D w1 (drop n bs) = ((w', rest), ok)"
          by (simp add: dev_write_loop.simps [of D w bs])
        have "length (drop n bs) < length bs" using n False by simp
        note ih = less.hyps [OF this rest]
        then obtain p where "drop n bs = p @ rest" by blast
        then have "bs = (take n bs @ p) @ rest" by (metis append.assoc append_take_drop_id)
        then have "\<exists>p. bs = p @ rest" by blast
        moreover have "got w' @ rest = got w @ bs"
        proof -
          have "got w1 = got w @ take n bs" using law Some by simp
          with ih show ?thesis by simp
        qed
        ultimately show ?thesis using ih by blast
      qed
    qed
  qed
qed

lemma flush_buf_law:
  "flush_buf D (buf, w) = ((buf', w'), ok) \<Longrightarrow>
     got w' @ buf' = got w @ buf \<and> (ok \<longrightarrow> buf' = []) \<and> (\<not> ok \<longrightarrow> fb) \<and> (\<exists>p. buf = p @ buf')"
  using dev_write_loop_law [of w buf] by (auto simp: flush_buf_def split: prod.splits)

end

definition buffered_content :: "('w \<Rightarrow> bytes) \<Rightarrow> 'w buffered \<Rightarrow> bytes" where
  "buffered_content got s = got (snd s) @ fst s"

definition buffer_empty :: "'w buffered \<Rightarrow> bool" where
  "buffer_empty s \<longleftrightarrow> fst s = []"

sublocale byte_device \<subseteq> buffered: byte_writer "buf_writer D cap" "buffered_content got" buffer_empty fb
  for cap
proof
  fix s s' :: "'w buffered" and bs ok
  assume a: "write_all (buf_writer D cap) s bs = (s', ok)"
  obtain buf w where s: "s = (buf, w)" by (cases s)
  show "\<exists>p. prefix p bs \<and> buffered_content got s' = buffered_content got s @ p \<and> (ok \<longrightarrow> p = bs) \<and> (\<not> ok \<longrightarrow> fb)"
  proof (cases "length bs < cap - length buf")
    case True
    with a s show ?thesis by (auto simp: buf_writer_def buffered_content_def)
  next
    case cold: False
    obtain buf1 w1 ok1 where f:
      "(if cap - length buf < length bs then flush_buf D (buf, w) else ((buf, w), True)) = ((buf1, w1), ok1)"
      by (metis prod.collapse)
    have c1: "got w1 @ buf1 = got w @ buf" "\<not> ok1 \<Longrightarrow> fb"
      and e1: "cap - length buf < length bs \<Longrightarrow> ok1 \<Longrightarrow> buf1 = []"
      and n1: "\<not> cap - length buf < length bs \<Longrightarrow> buf1 = buf"
      using f flush_buf_law [of buf w buf1 w1 ok1] by (auto split: if_splits)
    have a': "(if \<not> ok1 then ((buf1, w1), False)
        else if cap \<le> length bs then (case dev_write_loop D w1 bs of ((w, _), ok) \<Rightarrow> ((buf1, w), ok))
        else ((buf1 @ bs, w1), True)) = (s', ok)"
      using a cold by (simp add: s buf_writer_def f)
    show ?thesis
    proof (cases "ok1 \<and> cap \<le> length bs")
      case False
      with a' c1 show ?thesis by (auto simp: s buffered_content_def split: if_splits)
    next
      case True
      obtain w2 rest ok2 where l: "dev_write_loop D w1 bs = ((w2, rest), ok2)" by (metis prod.collapse)
      have "buf1 = [] \<or> bs = []"
      proof (cases "cap - length buf < length bs")
        case False
        with True cold have "buf = [] \<or> bs = []" by (cases buf; cases bs) auto
        with n1 [OF False] show ?thesis by simp
      qed (use e1 True in blast)
      with a' l True c1 dev_write_loop_law [OF l] show ?thesis
        by (auto simp: s buffered_content_def)
    qed
  qed
next
  fix s s' :: "'w buffered" and ok
  assume a: "flush (buf_writer D cap) s = (s', ok)"
  obtain buf w where s: "s = (buf, w)" by (cases s)
  obtain buf1 w1 ok1 where f: "flush_buf D (buf, w) = ((buf1, w1), ok1)" by (metis prod.collapse)
  note law = flush_buf_law [OF f]
  show "buffered_content got s' = buffered_content got s \<and> (ok \<longrightarrow> buffer_empty s') \<and> (\<not> ok \<longrightarrow> fb)"
  proof (cases ok1)
    case False
    with a f law show ?thesis by (auto simp: s buf_writer_def buffered_content_def)
  next
    case True
    obtain w2 ok2 where d: "dev_flush D w1 = (w2, ok2)" by (cases "dev_flush D w1")
    with True a f law dev_flush_law [OF d] show ?thesis
      by (auto simp: s buf_writer_def buffered_content_def buffer_empty_def)
  qed
qed

section \<open>A whole input\<close>

fun run_reader :: "output_options \<Rightarrow> reader \<Rightarrow> line_state \<Rightarrow> bytes \<times> line_state" where
  \<comment> \<open>the automaton over the chunks of a reader, up to its end or a failure\<close>
  "run_reader opt [] q = ([], q)"
| "run_reader opt (Interrupted # es) q = run_reader opt es q"
| "run_reader opt (ReadFailed # es) q = ([], q)"
| "run_reader opt (Chunk b # es) q =
     (if b = [] then ([], q)
      else case run_chunk opt True b q of (out, q') \<Rightarrow>
             (case run_reader opt es q' of (out', q'') \<Rightarrow> (out @ out', q'')))"

definition read_outcome :: "reader \<Rightarrow> (cat_error, unit) outcome" where
  "read_outcome es = (if stream_ok es then Ok () else Err (Io ReadError))"

definition delivers ::
  "bool \<Rightarrow> ('s \<Rightarrow> bytes) \<Rightarrow> 's \<Rightarrow> 's \<times> (cat_error, unit) outcome \<Rightarrow> reader \<Rightarrow> bytes \<Rightarrow> ('s \<Rightarrow> bool) \<Rightarrow> bool" where
  \<comment> \<open>all of \<open>out\<close> and the outcome of the reader, or a part of it and a write error\<close>
  "delivers fb cont s m es out Q \<longleftrightarrow>
     (case m of (s', r) \<Rightarrow>
        (r = read_outcome es \<and> cont s' = cont s @ out \<and> Q s') \<or>
        (fb \<and> r = Err (Io WriteError) \<and> prefix (cont s') (cont s @ out)))"

lemma next_no_step: "next_no (snd (byte_step opt first c q)) \<le> Suc (next_no q)"
  by (simp add: byte_step_def Let_def)

lemma next_no_run: "next_no (snd (run_chunk opt first bs q)) \<le> next_no q + length bs"
proof (induction bs arbitrary: first q)
  case (Cons c cs)
  have "next_no (snd (run_chunk opt first (c # cs) q)) \<le> next_no (snd (byte_step opt first c q)) + length cs"
    unfolding run_chunk_Cons snd_conv by (rule Cons.IH)
  with next_no_step [of opt first c q] show ?case by simp
qed simp

lemma run_chunk_fst_snd: "run_chunk opt first b q = (fst (run_chunk opt first b q), snd (run_chunk opt first b q))"
  by simp

context byte_writer
begin

lemma read_lines_delivers:
  assumes L: "lib_ok L"
  shows "st_rel (snd s) q \<Longrightarrow> next_no q + length (stream_bytes es) < no_limit \<Longrightarrow> settled (fst s) \<Longrightarrow>
    delivers fb (content \<circ> fst) s
      (case read_lines L W opt i es s of ((es', s'), r) \<Rightarrow> (s', r)) es (fst (run_reader opt es q))
      (\<lambda>s'. st_rel (snd s') (snd (run_reader opt es q)) \<and> settled (fst s'))"
proof (induction es arbitrary: s q)
  case Nil
  then show ?case by (simp add: delivers_def read_outcome_def)
next
  case (Cons e es)
  show ?case
  proof (cases e)
    case Interrupted
    with Cons show ?thesis by (simp add: delivers_def read_outcome_def)
  next
    case ReadFailed
    with Cons.prems show ?thesis by (simp add: delivers_def read_outcome_def)
  next
    case (Chunk b)
    show ?thesis
    proof (cases "b = []")
      case True
      with Chunk Cons.prems show ?thesis by (simp add: delivers_def read_outcome_def)
    next
      case ne: False
      let ?o = "fst (run_chunk opt True b q)" and ?q = "snd (run_chunk opt True b q)"
      have rr: "run_reader opt (e # es) q = (?o @ fst (run_reader opt es ?q), snd (run_reader opt es ?q))"
        using Chunk ne by (simp split: prod.splits)
      have ro: "read_outcome (e # es) = read_outcome es" using Chunk ne by (simp add: read_outcome_def)
      let ?m = "sbind (lines_loop L W opt i b 0 s) (\<lambda>s _. on_writer (flush_writer W) s)"
      have "next_no q + length (drop 0 b) < no_limit" using Cons.prems(2) Chunk ne by simp
      note ll = lines_loop_emits [OF L Cons.prems(1) disjI1 [OF refl] this, of opt i, simplified]
      have em: "cat_emits fb (content \<circ> fst) s ?m ?o (\<lambda>s' _. st_rel (snd s') ?q \<and> settled (fst s'))"
      proof (rule emits_last [OF ll])
        fix s' :: "'w \<times> output_state" and x :: unit
        assume "st_rel (snd s') ?q"
        then show "cat_emits fb (content \<circ> fst) s' (on_writer (flush_writer W) s') []
            (\<lambda>s' _. st_rel (snd s') ?q \<and> settled (fst s'))"
          by (cases s') (auto intro: emits_mono [OF emits_on_writer [OF flush_emits]])
      qed
      obtain s1 r where m: "?m = (s1, r)" by (cases ?m)
      have rl: "read_lines L W opt i (e # es) s =
          (if r = Ok () then read_lines L W opt i es s1 else ((es, s1), r))"
        using Chunk ne m by simp
      show ?thesis
      proof (cases r)
        case (Ok x)
        with em m have s1: "(content \<circ> fst) s1 = (content \<circ> fst) s @ ?o" "st_rel (snd s1) ?q"
          "settled (fst s1)" by (simp_all add: emits_def)
        have "next_no ?q + length (stream_bytes es) < no_limit"
          using Cons.prems(2) Chunk ne next_no_run [of opt True b q] by simp
        from Cons.IH [OF s1(2) this s1(3)] s1(1) Ok show ?thesis
          unfolding rl rr ro delivers_def by (auto split: prod.splits)
      next
        case (Err x)
        with em m obtain p where "fb" "x = Io WriteError" "prefix p ?o" "(content \<circ> fst) s1 = (content \<circ> fst) s @ p"
          by (auto simp: emits_def)
        with Err show ?thesis
          unfolding rl rr delivers_def by auto
      qed (use em m in \<open>simp_all add: emits_def\<close>)
    qed
  qed
qed

end

context byte_device
begin

lemma write_lines_delivers:
  assumes L: "lib_ok L" and r: "st_rel st q" and b: "next_no q + length (stream_bytes es) < no_limit"
  shows "delivers fb got w (case write_lines L D opt i (es, w, st) of ((_, w', _), r) \<Rightarrow> (w', r)) es
      (fst (run_reader opt es q)) (\<lambda>_. True)"
    and "write_lines L D opt i (es, w, st) = ((es', w', st'), r') \<Longrightarrow> r' \<noteq> Err (Io WriteError) \<Longrightarrow>
      st_rel st' (snd (run_reader opt es q))"
proof -
  obtain es1 bw st1 r1 where rl:
    "read_lines L (buf_writer D (32 * 1024)) opt i es (([], w), st) = ((es1, bw, st1), r1)"
    by (metis prod.collapse)
  obtain buf w1 where bw: "bw = (buf, w1)" by (cases bw)
  obtain rest w2 ok where f: "flush_buf D (buf, w1) = ((rest, w2), ok)" by (metis prod.collapse)
  have wl: "write_lines L D opt i (es, w, st) = ((es1, w2, st1), r1)"
    using rl f by (simp add: write_lines_def bw)
  have "st_rel (snd (([], w), st)) q" "buffer_empty (fst (([], w), st))"
    using r by (simp_all add: buffer_empty_def)
  from buffered.read_lines_delivers [OF L this(1) b this(2), of "32 * 1024" opt i]
  have d: "(r1 = read_outcome es \<and> got w1 @ buf = got w @ fst (run_reader opt es q) \<and>
        st_rel st1 (snd (run_reader opt es q)) \<and> buf = []) \<or>
      (fb \<and> r1 = Err (Io WriteError) \<and> prefix (got w1 @ buf) (got w @ fst (run_reader opt es q)))"
    unfolding rl by (simp add: delivers_def bw buffered_content_def buffer_empty_def)
  note fl = flush_buf_law [OF f]
  from d show "delivers fb got w (case write_lines L D opt i (es, w, st) of ((_, w', _), r) \<Rightarrow> (w', r)) es
      (fst (run_reader opt es q)) (\<lambda>_. True)"
  proof
    assume a: "fb \<and> r1 = Err (Io WriteError) \<and> prefix (got w1 @ buf) (got w @ fst (run_reader opt es q))"
    have "prefix (got w2) (got w1 @ buf)" using fl by (metis prefixI)
    with a wl show ?thesis by (auto simp: delivers_def intro: prefix_order.trans)
  next
    assume "r1 = read_outcome es \<and> got w1 @ buf = got w @ fst (run_reader opt es q) \<and>
        st_rel st1 (snd (run_reader opt es q)) \<and> buf = []"
    with fl wl show ?thesis by (auto simp: delivers_def)
  qed
  show "write_lines L D opt i (es, w, st) = ((es', w', st'), r') \<Longrightarrow> r' \<noteq> Err (Io WriteError) \<Longrightarrow>
      st_rel st' (snd (run_reader opt es q))"
    using d wl by auto
qed

end

end
