(* ===== verification/Cat_Spec.thy ===== *)
theory Cat_Spec
  imports Cat_Device
begin

text \<open>
  The reference automaton of \<open>cat\<close> against what the options mean: its output does not depend on the
  chunks of the reader unless empty lines are squeezed, \<open>-n\<close> numbers the lines, \<open>-s\<close> drops repeated
  empty lines when no chunk begins with a line break, and \<open>-A\<close> prints printable characters only.
\<close>

section \<open>Chunks\<close>

definition eqb :: "line_state \<Rightarrow> line_state \<Rightarrow> bool" where
  \<comment> \<open>the same but for the memory of an empty line\<close>
  "eqb q q' \<longleftrightarrow> next_no q = next_no q' \<and> bol q = bol q' \<and> cr q = cr q'"

lemma byte_step_eqb:
  "\<not> squeeze_blank opt \<Longrightarrow> eqb q q' \<Longrightarrow>
     fst (byte_step opt f c q) = fst (byte_step opt f' c q') \<and>
     eqb (snd (byte_step opt f c q)) (snd (byte_step opt f' c q'))"
  by (auto simp: byte_step_def eqb_def numbered_def Let_def)

lemma run_chunk_eqb:
  "\<not> squeeze_blank opt \<Longrightarrow> eqb q q' \<Longrightarrow>
     fst (run_chunk opt f bs q) = fst (run_chunk opt f' bs q') \<and>
     eqb (snd (run_chunk opt f bs q)) (snd (run_chunk opt f' bs q'))"
proof (induction bs arbitrary: f f' q q')
  case (Cons c cs)
  from byte_step_eqb [OF Cons.prems, of f c f'] Cons.IH [OF Cons.prems(1)] show ?case
    unfolding run_chunk_Cons by simp
qed simp

lemma run_chunk_append:
  "run_chunk opt f (a @ b) q =
     (fst (run_chunk opt f a q) @ fst (run_chunk opt (f \<and> a = []) b (snd (run_chunk opt f a q))),
      snd (run_chunk opt (f \<and> a = []) b (snd (run_chunk opt f a q))))"
proof (induction a arbitrary: f q)
  case (Cons c cs)
  show ?case
    unfolding append_Cons run_chunk_Cons Cons.IH [of False] by simp
qed simp

lemma run_reader_Chunk:
  "b \<noteq> [] \<Longrightarrow> run_reader opt (Chunk b # es) q =
     (fst (run_chunk opt True b q) @ fst (run_reader opt es (snd (run_chunk opt True b q))),
      snd (run_reader opt es (snd (run_chunk opt True b q))))"
  by (simp split: prod.splits)

lemma run_reader_eqb:
  assumes "\<not> squeeze_blank opt"
  shows "eqb q q' \<Longrightarrow>
     fst (run_reader opt es q) = fst (run_chunk opt False (stream_bytes es) q') \<and>
     eqb (snd (run_reader opt es q)) (snd (run_chunk opt False (stream_bytes es) q'))"
proof (induction es arbitrary: q q')
  case (Cons e es)
  show ?case
  proof (cases e)
    case (Chunk b)
    show ?thesis
    proof (cases "b = []")
      case False
      with run_chunk_eqb [OF assms Cons.prems, of True b False] Cons.IH Chunk show ?thesis
        by (simp add: run_reader_Chunk run_chunk_append del: run_reader.simps(4))
    qed (use Chunk Cons.prems in simp)
  qed (use Cons in simp_all)
qed simp

definition clean :: "reader \<Rightarrow> bool" where
  \<comment> \<open>no chunk begins with a line break\<close>
  "clean es \<longleftrightarrow> (\<forall>b. Chunk b \<in> set es \<longrightarrow> b = [] \<or> hd b \<noteq> 10)"

lemma run_chunk_clean: "b = [] \<or> hd b \<noteq> 10 \<Longrightarrow> run_chunk opt True b q = run_chunk opt False b q"
  by (cases b) (auto simp: run_chunk_Cons byte_step_def Let_def simp del: run_chunk.simps(2))

lemma run_reader_clean:
  "clean es \<Longrightarrow> run_reader opt es q = run_chunk opt False (stream_bytes es) q"
proof (induction es arbitrary: q)
  case (Cons e es)
  have c: "clean es" using Cons.prems by (simp add: clean_def)
  show ?case
  proof (cases e)
    case (Chunk b)
    show ?thesis
    proof (cases "b = []")
      case False
      have "run_chunk opt True b q = run_chunk opt False b q"
        by (rule run_chunk_clean) (use Cons.prems Chunk in \<open>simp add: clean_def\<close>)
      with False Chunk Cons.IH [OF c] show ?thesis
        by (simp add: run_reader_Chunk run_chunk_append del: run_reader.simps(4))
    qed (use Chunk in simp)
  qed (use Cons.IH [OF c] in simp_all)
qed simp

lemma run_reader_bytes:
  assumes "\<not> squeeze_blank opt \<or> clean es"
  shows "fst (run_reader opt es q) = fst (run_chunk opt False (stream_bytes es) q) \<and>
    eqb (snd (run_reader opt es q)) (snd (run_chunk opt False (stream_bytes es) q)) \<and>
    (clean es \<longrightarrow> snd (run_reader opt es q) = snd (run_chunk opt False (stream_bytes es) q))"
  using assms run_reader_eqb [of opt q q es] run_reader_clean [of es opt q] by (auto simp: eqb_def)

section \<open>Several inputs\<close>

fun run_readers :: "output_options \<Rightarrow> reader list \<Rightarrow> line_state \<Rightarrow> bytes \<times> line_state" where
  "run_readers opt [] q = ([], q)"
| "run_readers opt (es # ess) q =
     (case run_reader opt es q of (out, q') \<Rightarrow>
        (case run_readers opt ess q' of (out', q'') \<Rightarrow> (out @ out', q'')))"

definition held :: "line_state \<Rightarrow> bytes" where
  "held q = (if cr q then [13] else [])"

definition cat_output :: "output_options \<Rightarrow> reader list \<Rightarrow> bytes" where
  \<comment> \<open>what the program prints for its inputs\<close>
  "cat_output opt ess =
     (if can_write_fast opt then concat (map stream_bytes ess)
      else case run_readers opt ess line_state_new of (out, q) \<Rightarrow> out @ held q)"

lemma run_readers_Cons:
  "run_readers opt (es # ess) q =
     (fst (run_reader opt es q) @ fst (run_readers opt ess (snd (run_reader opt es q))),
      snd (run_readers opt ess (snd (run_reader opt es q))))"
  by (simp split: prod.splits)

lemma run_readers_bytes:
  assumes "\<not> squeeze_blank opt \<or> list_all clean ess"
  shows "eqb q q' \<Longrightarrow> (squeeze_blank opt \<longrightarrow> q = q') \<Longrightarrow>
    fst (run_readers opt ess q) = fst (run_chunk opt False (concat (map stream_bytes ess)) q') \<and>
    eqb (snd (run_readers opt ess q)) (snd (run_chunk opt False (concat (map stream_bytes ess)) q'))"
  using assms
proof (induction ess arbitrary: q q')
  case (Cons es ess)
  let ?r = "run_reader opt es q" and ?c = "run_chunk opt False (stream_bytes es) q'"
  have 1: "fst ?r = fst ?c \<and> eqb (snd ?r) (snd ?c) \<and> (squeeze_blank opt \<longrightarrow> snd ?r = snd ?c)"
  proof (cases "squeeze_blank opt")
    case False
    then show ?thesis using run_reader_eqb [OF False Cons.prems(1), of es] by blast
  next
    case True
    with Cons.prems show ?thesis by (simp add: run_reader_clean eqb_def)
  qed
  from Cons.IH [of "snd ?r" "snd ?c"] 1 Cons.prems(3) show ?case
    by (simp add: run_readers_Cons run_chunk_append del: run_readers.simps(2))
qed simp

lemma cat_output_bytes:
  assumes "\<not> squeeze_blank opt \<or> list_all clean ess" "\<not> can_write_fast opt"
  shows "cat_output opt ess =
    (case run_chunk opt False (concat (map stream_bytes ess)) line_state_new of (out, q) \<Rightarrow> out @ held q)"
  using run_readers_bytes [OF assms(1), of line_state_new line_state_new] assms(2)
  by (auto simp: cat_output_def eqb_def held_def split: prod.splits)

section \<open>Line numbers\<close>

fun number_lines :: "bool \<Rightarrow> nat \<Rightarrow> bytes \<Rightarrow> bytes" where
  \<comment> \<open>\<open>cat -n\<close>: the number and a tab before every line\<close>
  "number_lines start n [] = []"
| "number_lines start n (c # cs) =
     (if start then num_text n @ c # number_lines (c = 10) (Suc n) cs
      else c # number_lines (c = 10) n cs)"

definition number_only :: output_options where
  "number_only = \<lparr>number = All, squeeze_blank = False, show_tabs = False, show_ends = False, show_nonprint = False\<rparr>"

lemma run_chunk_number:
  "(case run_chunk number_only False bs q of (out, q') \<Rightarrow> out @ held q') =
     held q @ number_lines (bol q \<and> \<not> cr q) (next_no q) bs"
proof (induction bs arbitrary: q)
  case (Cons c cs)
  let ?b = "byte_step number_only False c q"
  have "(case run_chunk number_only False (c # cs) q of (out, q') \<Rightarrow> out @ held q') =
      fst ?b @ (case run_chunk number_only False cs (snd ?b) of (out, q') \<Rightarrow> out @ held q')"
    unfolding run_chunk_Cons by (simp split: prod.splits)
  also have "\<dots> = held q @ number_lines (bol q \<and> \<not> cr q) (next_no q) (c # cs)"
    unfolding Cons.IH
    by (auto simp: byte_step_def held_def number_only_def numbered_def stop_byte_def text_bytes_def
        end_of_line_def Let_def)
  finally show ?case .
qed simp

section \<open>Squeezed empty lines\<close>

fun squeeze_lines :: "nat \<Rightarrow> bytes \<Rightarrow> bytes" where
  \<comment> \<open>drop a line break after two others; the number is how many came just before\<close>
  "squeeze_lines k [] = []"
| "squeeze_lines k (c # cs) =
     (if c \<noteq> 10 then c # squeeze_lines 0 cs
      else if 2 \<le> k then squeeze_lines k cs
      else c # squeeze_lines (Suc k) cs)"

definition squeeze_only :: output_options where
  "squeeze_only = \<lparr>number = NumberNone, squeeze_blank = True, show_tabs = False, show_ends = False, show_nonprint = False\<rparr>"

definition breaks_before :: "line_state \<Rightarrow> nat" where
  "breaks_before q = (if cr q \<or> \<not> bol q then 0 else if blank q then 2 else 1)"

lemma run_chunk_squeeze:
  "(cr q \<or> \<not> bol q \<longrightarrow> \<not> blank q) \<Longrightarrow>
     (case run_chunk squeeze_only False bs q of (out, q') \<Rightarrow> out @ held q') =
     held q @ squeeze_lines (breaks_before q) bs"
proof (induction bs arbitrary: q)
  case (Cons c cs)
  let ?b = "byte_step squeeze_only False c q"
  have inv: "cr (snd ?b) \<or> \<not> bol (snd ?b) \<longrightarrow> \<not> blank (snd ?b)"
    using Cons.prems by (auto simp: byte_step_def Let_def)
  have "(case run_chunk squeeze_only False (c # cs) q of (out, q') \<Rightarrow> out @ held q') =
      fst ?b @ (case run_chunk squeeze_only False cs (snd ?b) of (out, q') \<Rightarrow> out @ held q')"
    unfolding run_chunk_Cons by (simp split: prod.splits)
  also have "\<dots> = held q @ squeeze_lines (breaks_before q) (c # cs)"
    unfolding Cons.IH [OF inv] using Cons.prems
    by (auto simp: byte_step_def held_def squeeze_only_def numbered_def stop_byte_def text_bytes_def
        end_of_line_def breaks_before_def Let_def numeral_2_eq_2)
  finally show ?case .
qed simp

section \<open>Visible output\<close>

definition visible :: "u8 \<Rightarrow> bool" where
  "visible c \<longleftrightarrow> (32 \<le> c \<and> c \<le> 126) \<or> c = 10"

lemma bdec_visible: "c \<in> set (bdec n) \<Longrightarrow> 48 \<le> c \<and> c \<le> 57"
  using dec_digits_range [of _ n] by (fastforce simp: bdec_def word_le_nat_alt unat_of_nat)

lemma nonprint_visible:
  "c \<noteq> 10 \<Longrightarrow> x \<in> set (nonprint_bytes [94, 73] c) \<Longrightarrow> visible x"
  unfolding nonprint_bytes_def visible_def
  by (auto split: if_splits simp: word_le_nat_alt unat_word_ariths unat_sub_if_size)

lemma byte_step_visible:
  assumes opt: "show_nonprint opt" "show_tabs opt" "number opt = NumberNone" and q: "\<not> cr q"
  shows "(\<forall>x \<in> set (fst (byte_step opt f c q)). visible x) \<and> \<not> cr (snd (byte_step opt f c q))"
proof (cases "c = 10")
  case True
  have "visible x" if "x \<in> set (end_of_line opt)" for x
    using that by (auto simp: end_of_line_def visible_def split: if_splits)
  with True q opt show ?thesis by (auto simp: byte_step_def)
next
  case False
  with q opt have "byte_step opt f c q = (nonprint_bytes [94, 73] c,
      q\<lparr>next_no := next_no q, bol := False, blank := False, cr := False\<rparr>)"
    by (simp add: byte_step_def numbered_def stop_byte_def text_bytes_def tab_def Let_def)
  with False nonprint_visible show ?thesis by auto
qed

lemma run_chunk_visible:
  assumes opt: "show_nonprint opt" "show_tabs opt" "number opt = NumberNone"
  shows "\<not> cr q \<Longrightarrow> (\<forall>x \<in> set (fst (run_chunk opt f bs q)). visible x) \<and> \<not> cr (snd (run_chunk opt f bs q))"
proof (induction bs arbitrary: f q)
  case (Cons c cs)
  from byte_step_visible [OF opt Cons.prems, of f c] Cons.IH [of "snd (byte_step opt f c q)" False]
  show ?case unfolding run_chunk_Cons by auto
qed simp

lemma run_reader_visible:
  assumes opt: "show_nonprint opt" "show_tabs opt" "number opt = NumberNone"
  shows "\<not> cr q \<Longrightarrow> (\<forall>x \<in> set (fst (run_reader opt es q)). visible x) \<and> \<not> cr (snd (run_reader opt es q))"
proof (induction es arbitrary: q)
  case (Cons e es)
  show ?case
  proof (cases e)
    case (Chunk b)
    with Cons.prems show ?thesis
      using run_chunk_visible [OF opt Cons.prems, of True b]
        Cons.IH [of "snd (run_chunk opt True b q)"]
      by (cases "b = []") (auto simp: run_reader_Chunk simp del: run_reader.simps(4), simp_all)
  qed (use Cons in simp_all)
qed simp

lemma cat_output_visible:
  assumes opt: "show_nonprint opt" "show_tabs opt" "number opt = NumberNone"
  shows "\<forall>x \<in> set (cat_output opt ess). visible x"
proof -
  have "\<not> cr q \<Longrightarrow> (\<forall>x \<in> set (fst (run_readers opt ess q)). visible x) \<and> \<not> cr (snd (run_readers opt ess q))" for q
  proof (induction ess arbitrary: q)
    case (Cons es ess)
    from run_reader_visible [OF opt Cons.prems, of es] Cons.IH [of "snd (run_reader opt es q)"]
    show ?case unfolding run_readers_Cons by auto
  qed simp
  from this [of line_state_new] have "(\<forall>x \<in> set (fst (run_readers opt ess line_state_new)). visible x) \<and>
      held (snd (run_readers opt ess line_state_new)) = []" by (simp add: held_def line_state_new_def)
  then show ?thesis
    using opt by (cases "run_readers opt ess line_state_new") (simp add: cat_output_def can_write_fast_def)
qed

end
