(* ===== verification/Cat_Facts.thy ===== *)
theory Cat_Facts
  imports Cat_Spec
begin

text \<open>
  The properties of \<open>cat\<close>: what the whole program prints for readable operands, the effect of the
  options, what reaches a device that fails, the line that \<open>-s\<close> loses at the boundary of two reads,
  and the wait for ever after a partial \<open>splice\<close>.
\<close>

section \<open>A concrete device and library\<close>

definition memory :: "bytes device" where
  "memory = \<lparr>dev_write = (\<lambda>w b. (w @ b, Some (length b))), dev_flush = (\<lambda>w. (w, True)),
     splice_exact = (\<lambda>w b. (w @ b, length b, True))\<rparr>"

definition small_disk :: "(bytes \<times> nat) device" where
  \<comment> \<open>a file on a device with room for that many more bytes\<close>
  "small_disk =
     \<lparr>dev_write = (\<lambda>(w, room) b. if room = 0 \<and> b \<noteq> [] then ((w, room), None)
        else let n = min room (length b) in ((w @ take n b, room - n), Some n)),
      dev_flush = (\<lambda>w. (w, True)),
      splice_exact = (\<lambda>(w, room) b. let n = min room (length b) in ((w @ take n b, room - n), n, n = length b))\<rparr>"

definition fast_inc_ref :: fast_inc where
  "fast_inc_ref buf start e =
     (case digits_val 10 0 (map unat (drop start (take e buf))) of
        None \<Rightarrow> Panic
      | Some n \<Rightarrow> let t = bdec (Suc n) in
          if length t \<le> e then Ok (take (e - length t) buf @ t @ drop e buf, e - length t) else Panic)"

definition lib_ref :: cat_lib where
  "lib_ref = \<lparr>memchr2 = (\<lambda>a b. position (\<lambda>c. c = a \<or> c = b)), fast_inc_one = fast_inc_ref\<rparr>"

lemma lib_ref_ok: "lib_ok lib_ref"
  by (simp add: lib_ok_def lib_ref_def memchr2_law_def fast_inc_law_def fast_inc_ref_def unat_bdec
      digits_val_dec_digits Let_def)

interpretation memory: byte_device memory "\<lambda>w. w" False
  by unfold_locales (auto simp: memory_def)

interpretation small_disk: byte_device small_disk fst True
  by unfold_locales (auto simp: small_disk_def Let_def min_def split: if_splits)

section \<open>One input\<close>

context byte_device
begin

lemma splice_loop_law:
  assumes "\<not> fb"
  shows "\<exists>es' w' b. splice_loop D es w = ((es', w'), Ok b) \<and>
    (if b then got w' @ stream_bytes es' = got w @ stream_bytes es \<and> stream_ok es' = stream_ok es
     else got w' = got w @ stream_bytes es \<and> stream_ok es)"
proof (induction es arbitrary: w)
  case Nil
  show ?case by (auto intro!: exI [of _ False])
next
  case (Cons e es)
  show ?case
  proof (cases e)
    case (Chunk b)
    show ?thesis
    proof (cases "b = []")
      case False
      obtain w1 k ok where x: "splice_exact D w b = (w1, k, ok)" by (metis prod.collapse)
      from splice_law [OF x] assms have ok: "ok" "got w1 = got w @ b" by auto
      from Cons.IH [of w1] ok False Chunk x show ?thesis by fastforce
    qed (use Chunk in auto)
  qed auto
qed

lemma fast_loop_law:
  assumes "\<not> fb"
  shows "\<exists>es' w'. fast_loop D es w = ((es', w'), read_outcome es) \<and> got w' = got w @ stream_bytes es"
proof (induction es arbitrary: w)
  case Nil
  show ?case by (simp add: read_outcome_def)
next
  case (Cons e es)
  show ?case
  proof (cases e)
    case (Chunk b)
    show ?thesis
    proof (cases "b = []")
      case False
      obtain w1 rest ok where x: "dev_write_loop D w b = ((w1, rest), ok)" by (metis prod.collapse)
      from dev_write_loop_law [OF x] assms have ok: "ok" "got w1 = got w @ b" by auto
      from Cons.IH [of w1] ok False Chunk x show ?thesis by (auto simp: read_outcome_def)
    qed (use Chunk in \<open>simp add: read_outcome_def\<close>)
  qed (use Cons in \<open>auto simp: read_outcome_def\<close>)
qed

lemma write_fast_law:
  assumes "\<not> fb" "pipe_error E = None"
  shows "\<exists>es' w'. write_fast E D (es, w, st) = ((es', w', st), read_outcome es) \<and>
    got w' = got w @ stream_bytes es"
proof -
  have slow: "\<exists>es' w'. sbind (fast_loop D es1 w1) (\<lambda>(es, w) _.
      case dev_flush D w of (w, ok) \<Rightarrow> ((es, w), if ok then Ok () else Err (Io WriteError))) =
      ((es', w'), read_outcome es1) \<and> got w' = got w1 @ stream_bytes es1" for es1 w1
  proof -
    obtain es2 w2 where f: "fast_loop D es1 w1 = ((es2, w2), read_outcome es1)"
      "got w2 = got w1 @ stream_bytes es1" using fast_loop_law [OF assms(1)] by blast
    obtain w3 ok where d: "dev_flush D w2 = (w3, ok)" by (cases "dev_flush D w2")
    from dev_flush_law [OF d] assms(1) have "ok" "got w3 = got w2" by auto
    with f d show ?thesis by (simp add: read_outcome_def)
  qed
  show ?thesis
  proof (cases "can_splice E")
    case False
    with slow [of es w] assms(2) show ?thesis
      by (auto simp: write_fast_def write_fast_using_splice_def)
  next
    case True
    obtain es1 w1 b where s: "splice_loop D es w = ((es1, w1), Ok b)" and
      law: "if b then got w1 @ stream_bytes es1 = got w @ stream_bytes es \<and> stream_ok es1 = stream_ok es
        else got w1 = got w @ stream_bytes es \<and> stream_ok es"
      using splice_loop_law [OF assms(1)] by blast
    show ?thesis
    proof (cases b)
      case False
      with s law True assms(2) show ?thesis
        by (simp add: write_fast_def write_fast_using_splice_def read_outcome_def)
    next
      case b: True
      from slow [of es1 w1] b s law True assms(2) show ?thesis
        by (auto simp: write_fast_def write_fast_using_splice_def read_outcome_def)
    qed
  qed
qed

lemma write_lines_law:
  assumes "lib_ok L" "st_rel st q" "next_no q + length (stream_bytes es) < no_limit" "\<not> fb"
  shows "\<exists>es' w' st'. write_lines L D opt i (es, w, st) = ((es', w', st'), read_outcome es) \<and>
    got w' = got w @ fst (run_reader opt es q) \<and> st_rel st' (snd (run_reader opt es q))"
proof -
  obtain es' w' st' r where w: "write_lines L D opt i (es, w, st) = ((es', w', st'), r)"
    by (metis prod.collapse)
  from write_lines_delivers(1) [OF assms(1-3), of w opt i] assms(4) w
  have 1: "r = read_outcome es" "got w' = got w @ fst (run_reader opt es q)"
    by (simp_all add: delivers_def)
  then have "r \<noteq> Err (Io WriteError)" by (simp add: read_outcome_def)
  with write_lines_delivers(2) [OF assms(1-3) w] 1 w show ?thesis by blast
qed

end

section \<open>The program\<close>

definition readable :: "'w cat_system \<Rightarrow> path \<Rightarrow> reader \<Rightarrow> bool" where
  \<comment> \<open>a file, device or pipe that opens, is read to its end and is not the output\<close>
  "readable Y p es \<longleftrightarrow> p \<noteq> ''-'' \<and> stream_ok es \<and>
     metadata Y p \<in> Inr ` {FtFile, FtCharDevice, FtBlockDevice, FtFifo, FtSymlink} \<and>
     (\<exists>f. open_file Y p = Inr f \<and> file_events f = es \<and> pipe_error (file_splice f) = None \<and>
          (\<forall>w. \<not> is_unsafe_overwrite (file_view f) (stdout_view Y w)))"

lemma cat_path_readable:
  assumes D: "byte_device (stdout_device Y) got False" and L: "lib_ok L" and p: "readable Y p es"
    and q: "st_rel st q" "next_no q + length (stream_bytes es) < no_limit"
  shows "\<exists>w' st'. cat_path L Y p opt (stdin, w, st) = ((stdin, w', st'), Ok ()) \<and>
    (if can_write_fast opt then got w' = got w @ stream_bytes es \<and> st' = st
     else got w' = got w @ fst (run_reader opt es q) \<and> st_rel st' (snd (run_reader opt es q)))"
proof -
  from p obtain f where f: "open_file Y p = Inr f" "file_events f = es" "pipe_error (file_splice f) = None"
    "\<not> is_unsafe_overwrite (file_view f) (stdout_view Y w)" and ok: "stream_ok es" "p \<noteq> ''-''"
    by (auto simp: readable_def)
  have ro: "read_outcome es = Ok ()" using ok by (simp add: read_outcome_def)
  have "\<exists>it. get_input_type Y p = Ok it \<and> it \<notin> {StdIn, InDirectory, Socket}"
    using p by (auto simp: readable_def get_input_type_def)
  then obtain it where it: "get_input_type Y p = Ok it" "it \<noteq> StdIn" "it \<noteq> InDirectory" "it \<noteq> Socket" by auto
  have path: "cat_path L Y p opt (stdin, w, st) =
      (case cat_handle L (file_splice f) (stdout_device Y) opt False (es, w, st) of
         ((_, w, st), r) \<Rightarrow> ((stdin, w, st), r))"
    using it f by (cases it) (simp_all add: cat_path_def split: prod.splits)
  show ?thesis
  proof (cases "can_write_fast opt")
    case True
    from byte_device.write_fast_law [OF D _ f(3), of es w st] True ro show ?thesis
      unfolding path cat_handle_def by auto
  next
    case False
    from byte_device.write_lines_law [OF D L q, of opt False w] False ro show ?thesis
      unfolding path cat_handle_def by auto
  qed
qed

lemma next_no_reader: "next_no (snd (run_reader opt es q)) \<le> next_no q + length (stream_bytes es)"
proof (induction es arbitrary: q)
  case (Cons e es)
  show ?case
  proof (cases e)
    case (Chunk b)
    show ?thesis
    proof (cases "b = []")
      case False
      with Chunk Cons.IH [of "snd (run_chunk opt True b q)"] next_no_run [of opt True b q] show ?thesis
        by (simp add: run_reader_Chunk del: run_reader.simps(4))
    qed (use Chunk in simp)
  qed (use Cons in simp_all)
qed simp

lemma cat_each_readable:
  assumes D: "byte_device (stdout_device Y) got False" and L: "lib_ok L"
  shows "list_all2 (readable Y) files ess \<Longrightarrow> st_rel st q \<Longrightarrow>
    next_no q + length (concat (map stream_bytes ess)) < no_limit \<Longrightarrow>
    \<exists>w' st'. cat_each L Y opt files (stdin, w, st) errs = ((stdin, w', st'), Ok errs) \<and>
      (if can_write_fast opt then got w' = got w @ concat (map stream_bytes ess) \<and> st' = st
       else got w' = got w @ fst (run_readers opt ess q) \<and> st_rel st' (snd (run_readers opt ess q)))"
proof (induction files ess arbitrary: w st q rule: list_all2_induct)
  case Nil
  then show ?case by auto
next
  case (Cons p files es ess)
  from Cons.prems have b: "next_no q + length (stream_bytes es) < no_limit" by simp
  from cat_path_readable [OF D L Cons.hyps(1) Cons.prems(1) b, of opt stdin w] obtain w1 st1 where
    1: "cat_path L Y p opt (stdin, w, st) = ((stdin, w1, st1), Ok ())" and
    2: "if can_write_fast opt then got w1 = got w @ stream_bytes es \<and> st1 = st
     else got w1 = got w @ fst (run_reader opt es q) \<and> st_rel st1 (snd (run_reader opt es q))" by blast
  have ce: "cat_each L Y opt (p # files) (stdin, w, st) errs = cat_each L Y opt files (stdin, w1, st1) errs"
    using 1 by simp
  show ?case
  proof (cases "can_write_fast opt")
    case True
    with 2 have g: "got w1 = got w @ stream_bytes es" "st1 = st" by simp_all
    have "next_no q + length (concat (map stream_bytes ess)) < no_limit" using Cons.prems(2) by simp
    from Cons.IH [OF Cons.prems(1) this, of w1] True obtain w' where
      "cat_each L Y opt files (stdin, w1, st) errs = ((stdin, w', st), Ok errs)"
      "got w' = got w1 @ concat (map stream_bytes ess)" by auto
    with True g show ?thesis unfolding ce by simp
  next
    case False
    let ?q = "snd (run_reader opt es q)"
    from False 2 have g: "got w1 = got w @ fst (run_reader opt es q)" and r: "st_rel st1 ?q" by simp_all
    have "next_no ?q + length (concat (map stream_bytes ess)) < no_limit"
      using Cons.prems(2) next_no_reader [of opt es q] by simp
    from Cons.IH [OF r this, of w1] False obtain w' st' where
      "cat_each L Y opt files (stdin, w1, st1) errs = ((stdin, w', st'), Ok errs)"
      "got w' = got w1 @ fst (run_readers opt ess ?q)" "st_rel st' (snd (run_readers opt ess ?q))" by auto
    with False g show ?thesis unfolding ce run_readers_Cons by simp
  qed
qed

lemma cat_prints_readable:
  assumes D: "byte_device (stdout_device Y) got False" and L: "lib_ok L"
    and files: "list_all2 (readable Y) files ess" and b: "length (concat (map stream_bytes ess)) < 10 ^ 30"
  shows "\<exists>w'. cat_files L Y files opt stdin w = (w', Ok ()) \<and> got w' = got w @ cat_output opt ess"
proof -
  have "next_no line_state_new + length (concat (map stream_bytes ess)) < no_limit"
    using b by (simp add: line_state_new_def no_limit_def)
  from cat_each_readable [OF D L files st_rel_new this, of opt stdin w "[]"] obtain w1 st1 where
    e: "cat_each L Y opt files (stdin, w, output_state_new) [] = ((stdin, w1, st1), Ok [])" and
    r: "if can_write_fast opt then got w1 = got w @ concat (map stream_bytes ess) \<and> st1 = output_state_new
      else got w1 = got w @ fst (run_readers opt ess line_state_new) \<and>
        st_rel st1 (snd (run_readers opt ess line_state_new))" by blast
  obtain w2 rest ok where d: "dev_write_loop (stdout_device Y) w1 [13] = ((w2, rest), ok)"
    by (metis prod.collapse)
  from byte_device.dev_write_loop_law [OF D d] have ok: "ok" "got w2 = got w1 @ [13]" by auto
  have sk: "skipped_carriage_return output_state_new = False" by (simp add: output_state_new_def)
  show ?thesis
  proof (cases "can_write_fast opt")
    case True
    with e r sk show ?thesis by (simp add: cat_files_def cat_output_def)
  next
    case False
    with r have "skipped_carriage_return st1 = cr (snd (run_readers opt ess line_state_new))"
      by (simp add: st_rel_def)
    with False e r d ok show ?thesis
      by (auto simp: cat_files_def cat_output_def held_def split: prod.splits)
  qed
qed

text \<open>
  C21. What \<open>cat\<close> prints.  For any operands that can be read to their end and any options, the run
  succeeds and standard output receives the output of the byte-by-byte reference, in the order of
  the operands and continuing line numbers and empty lines from one to the next; without options
  that is the concatenation of the files, however the reads, the buffer and \<open>splice\<close> cut it.
\<close>

theorem cat_prints:
  assumes "byte_device (stdout_device Y) got False" and "lib_ok L" and "list_all2 (readable Y) files ess"
    and "length (concat (map stream_bytes ess)) < 10 ^ 30"
  shows "\<exists>w'. cat_uumain L Y get_flag (Some files) stdin w = (w', Ok ()) \<and>
    got w' = got w @ cat_output (cat_options get_flag) ess"
  unfolding cat_uumain_def option.case by (rule cat_prints_readable [OF assms])

definition demo_file :: "reader \<Rightarrow> input_file" where
  "demo_file es = \<lparr>file_events = es,
     file_view = \<lparr>file_information = Some (7, 3), seek_position = Some 0, open_flags = Some 0\<rparr>,
     file_splice = \<lparr>pipe_error = None, can_splice = True\<rparr>\<rparr>"

definition demo_system :: "reader \<Rightarrow> bytes cat_system" where
  "demo_system es =
     \<lparr>metadata = (\<lambda>_. Inr FtFile), open_file = (\<lambda>_. Inr (demo_file es)),
      stdin_view = (\<lambda>_. \<lparr>file_information = None, seek_position = None, open_flags = None\<rparr>),
      stdin_splice = \<lparr>pipe_error = None, can_splice = False\<rparr>, stdin_is_terminal = False,
      stdout_view = (\<lambda>_. \<lparr>file_information = None, seek_position = None, open_flags = Some 0\<rparr>),
      stdout_device = memory\<rparr>"

lemma demo_readable: "stream_ok es \<Longrightarrow> p \<noteq> ''-'' \<Longrightarrow> readable (demo_system es) p es"
  by (auto simp: readable_def demo_system_def demo_file_def is_unsafe_overwrite_def)

lemma demo_device: "byte_device (stdout_device (demo_system es)) (\<lambda>w. w) False"
  using memory.byte_device_axioms by (simp add: demo_system_def)

theorem cat_prints_witness:
  "\<exists>w'. cat_uumain lib_ref (demo_system [Chunk [97], Chunk [98, 10]]) (\<lambda>_. False)
       (Some [''f'', ''g'']) [] [] = (w', Ok ()) \<and> w' = [97, 98, 10, 97, 98, 10]"
  using cat_prints [OF demo_device lib_ref_ok, where files = "[''f'', ''g'']" and
      ess = "[[Chunk [97], Chunk [98, 10]], [Chunk [97], Chunk [98, 10]]]" and
      get_flag = "\<lambda>_. False" and stdin = "[]" and w = "[]"] demo_readable [of "[Chunk [97], Chunk [98, 10]]"]
  by (simp add: cat_output_def can_write_fast_def cat_options_def)

section \<open>One input, any device\<close>

text \<open>
  C22. A device that fails.  On any device, whatever its \<open>write\<close> calls accept and whether or not they
  fail, and for any chunks and failures of the reader, \<open>write_lines\<close> returns without a panic (the
  assertion on the end of a line holds) and the device holds exactly the output of the reference
  for the bytes read, or a prefix of it and the write error is reported: nothing is lost in the
  buffer, reordered or written twice.
\<close>

theorem cat_write_lines:
  assumes "byte_device D got fb" and "lib_ok L" and "length (stream_bytes es) < 10 ^ 30"
  shows "\<exists>es' w' st' r. write_lines L D opt i (es, w, output_state_new) = ((es', w', st'), r) \<and>
    (r = read_outcome es \<and> got w' = got w @ fst (run_reader opt es line_state_new) \<or>
     fb \<and> r = Err (Io WriteError) \<and> prefix (got w') (got w @ fst (run_reader opt es line_state_new)))"
proof -
  obtain es' w' st' r where w: "write_lines L D opt i (es, w, output_state_new) = ((es', w', st'), r)"
    by (metis prod.collapse)
  have "next_no line_state_new + length (stream_bytes es) < no_limit"
    using assms(3) by (simp add: line_state_new_def no_limit_def)
  from byte_device.write_lines_delivers(1) [OF assms(1,2) st_rel_new this, of w opt i] w show ?thesis
    by (simp add: delivers_def)
qed

theorem cat_write_lines_witness:
  "\<exists>es' w' st' r. write_lines lib_ref small_disk number_only True ([Chunk [97, 10, 98]], ([], 9), output_state_new)
       = ((es', w', st'), r) \<and>
    (r = Ok () \<and> fst w' = [32, 32, 32, 32, 32, 49, 9, 97, 10, 32, 32, 32, 32, 32, 50, 9, 98] \<or>
     r = Err (Io WriteError) \<and>
     prefix (fst w') [32, 32, 32, 32, 32, 49, 9, 97, 10, 32, 32, 32, 32, 32, 50, 9, 98])"
proof -
  have "bdec (Suc 0) = [49]" "bdec (Suc (Suc 0)) = [50]"
    by (simp_all add: bdec_def dec_digits.simps)
  then have nt: "num_text (Suc 0) = [32, 32, 32, 32, 32, 49, 9]"
      "num_text (Suc (Suc 0)) = [32, 32, 32, 32, 32, 50, 9]"
    by (simp_all add: num_text_def numeral_eq_Suc)
  have o: "fst (run_reader number_only [Chunk [97, 10, 98]] line_state_new) =
      [32, 32, 32, 32, 32, 49, 9, 97, 10, 32, 32, 32, 32, 32, 50, 9, 98]"
    by (simp add: number_only_def line_state_new_def byte_step_def numbered_def stop_byte_def
        text_bytes_def end_of_line_def nt Let_def)
  from cat_write_lines [OF small_disk.byte_device_axioms lib_ref_ok, of "[Chunk [97, 10, 98]]" number_only True "([], 9)"]
  show ?thesis unfolding o by (simp add: read_outcome_def)
qed

section \<open>Options\<close>

lemma cat_output_number: "cat_output number_only ess = number_lines True 1 (concat (map stream_bytes ess))"
proof -
  have "cat_output number_only ess =
      (case run_chunk number_only False (concat (map stream_bytes ess)) line_state_new of (out, q) \<Rightarrow> out @ held q)"
    by (rule cat_output_bytes) (simp_all add: number_only_def can_write_fast_def)
  then show ?thesis unfolding run_chunk_number by (simp add: line_state_new_def held_def)
qed

lemma cat_output_squeeze:
  assumes "list_all clean ess"
  shows "cat_output squeeze_only ess = squeeze_lines 1 (concat (map stream_bytes ess))"
proof -
  have "cat_output squeeze_only ess =
      (case run_chunk squeeze_only False (concat (map stream_bytes ess)) line_state_new of (out, q) \<Rightarrow> out @ held q)"
    by (rule cat_output_bytes) (use assms in \<open>simp_all add: squeeze_only_def can_write_fast_def\<close>)
  then show ?thesis
    using run_chunk_squeeze [of line_state_new "concat (map stream_bytes ess)"]
    by (simp add: line_state_new_def held_def breaks_before_def)
qed

text \<open>
  C23. Line numbers.  \<open>cat -n\<close> prints the bytes of the files one after the other with the number and
  a tab before the first byte of every line, counting through all files, independently of the
  reads; a carriage return held back at the end of a read, a line or a file is printed in its place.
\<close>

theorem cat_number_lines:
  assumes "byte_device (stdout_device Y) got False" and "lib_ok L" and "list_all2 (readable Y) files ess"
    and "length (concat (map stream_bytes ess)) < 10 ^ 30"
  shows "\<exists>w'. cat_uumain L Y (\<lambda>f. f = ''number'') (Some files) stdin w = (w', Ok ()) \<and>
    got w' = got w @ number_lines True 1 (concat (map stream_bytes ess))"
proof -
  have o: "cat_options (\<lambda>f. f = ''number'') = number_only"
    by (simp add: cat_options_def number_only_def)
  show ?thesis
    using cat_prints_readable [OF assms, of number_only stdin w]
    unfolding cat_uumain_def option.case o cat_output_number .
qed

theorem cat_number_lines_witness:
  "\<exists>w'. cat_uumain lib_ref (demo_system [Chunk [97, 10], Chunk [10]]) (\<lambda>f. f = ''number'')
       (Some [''f'']) [] [] = (w', Ok ()) \<and> w' = num_text 1 @ [97, 10] @ num_text 2 @ [10]"
  using cat_number_lines [OF demo_device lib_ref_ok, where files = "[''f'']" and
      ess = "[[Chunk [97, 10], Chunk [10]]]" and stdin = "[]" and w = "[]"]
    demo_readable [of "[Chunk [97, 10], Chunk [10]]"]
  by (simp flip: numeral_2_eq_2)

text \<open>
  Squeezed empty lines.  When no read begins with a line break, \<open>cat -s\<close> prints the bytes of the
  files without every line break that follows two others (one at the beginning), across files too.
\<close>

theorem cat_squeeze_lines:
  assumes "byte_device (stdout_device Y) got False" and "lib_ok L" and "list_all2 (readable Y) files ess"
    and "length (concat (map stream_bytes ess)) < 10 ^ 30" and "list_all clean ess"
  shows "\<exists>w'. cat_uumain L Y (\<lambda>f. f = ''squeeze-blank'') (Some files) stdin w = (w', Ok ()) \<and>
    got w' = got w @ squeeze_lines 1 (concat (map stream_bytes ess))"
proof -
  have o: "cat_options (\<lambda>f. f = ''squeeze-blank'') = squeeze_only"
    by (simp add: cat_options_def squeeze_only_def)
  show ?thesis
    using cat_prints_readable [OF assms(1-4), of squeeze_only stdin w]
    unfolding cat_uumain_def option.case o cat_output_squeeze [OF assms(5)] .
qed

theorem cat_squeeze_lines_witness:
  "\<exists>w'. cat_uumain lib_ref (demo_system [Chunk [97, 10, 10, 10, 98]]) (\<lambda>f. f = ''squeeze-blank'')
       (Some [''f'']) [] [] = (w', Ok ()) \<and> w' = [97, 10, 10, 98]"
  using cat_squeeze_lines [OF demo_device lib_ref_ok, where files = "[''f'']" and
      ess = "[[Chunk [97, 10, 10, 10, 98]]]" and stdin = "[]" and w = "[]"]
    demo_readable [of "[Chunk [97, 10, 10, 10, 98]]"]
  by (simp add: clean_def)

text \<open>
  A line lost between two reads.  The same bytes, a line, an empty line and another line, are
  printed with the empty line when one read returns them, and without it when the first read ends
  just before the line break: at the beginning of a chunk the end of a line with text is taken for
  an empty line that was kept.
\<close>

theorem cat_squeeze_boundary:
  assumes "byte_device (stdout_device Y) got False" and "lib_ok L"
    and "readable Y f [Chunk [97, 10, 10, 98]]" and "readable Y g [Chunk [97], Chunk [10, 10, 98]]"
  shows "(\<exists>w'. cat_uumain L Y (\<lambda>f. f = ''squeeze-blank'') (Some [f]) stdin w = (w', Ok ()) \<and>
      got w' = got w @ [97, 10, 10, 98]) \<and>
    (\<exists>w'. cat_uumain L Y (\<lambda>f. f = ''squeeze-blank'') (Some [g]) stdin w = (w', Ok ()) \<and>
      got w' = got w @ [97, 10, 98])"
proof -
  have o: "cat_options (\<lambda>f. f = ''squeeze-blank'') = squeeze_only"
    by (simp add: cat_options_def squeeze_only_def)
  have c: "cat_output squeeze_only [[Chunk [97, 10, 10, 98]]] = [97, 10, 10, 98]"
    "cat_output squeeze_only [[Chunk [97], Chunk [10, 10, 98]]] = [97, 10, 98]"
    by (simp_all add: cat_output_def can_write_fast_def squeeze_only_def line_state_new_def byte_step_def
        numbered_def stop_byte_def text_bytes_def end_of_line_def held_def Let_def)
  show ?thesis
    using cat_prints_readable [OF assms(1,2), of "[f]" "[[Chunk [97, 10, 10, 98]]]" squeeze_only stdin w]
      cat_prints_readable [OF assms(1,2), of "[g]" "[[Chunk [97], Chunk [10, 10, 98]]]" squeeze_only stdin w]
      assms(3,4)
    unfolding cat_uumain_def option.case o c by simp
qed

definition two_files :: "bytes cat_system" where
  "two_files = (demo_system [])\<lparr>open_file := (\<lambda>p. if p = ''f'' then Inr (demo_file [Chunk [97, 10, 10, 98]])
     else Inr (demo_file [Chunk [97], Chunk [10, 10, 98]]))\<rparr>"

theorem cat_squeeze_boundary_witness:
  "(\<exists>w'. cat_uumain lib_ref two_files (\<lambda>f. f = ''squeeze-blank'') (Some [''f'']) [] [] = (w', Ok ()) \<and>
      w' = [97, 10, 10, 98]) \<and>
   (\<exists>w'. cat_uumain lib_ref two_files (\<lambda>f. f = ''squeeze-blank'') (Some [''g'']) [] [] = (w', Ok ()) \<and>
      w' = [97, 10, 98])"
proof -
  have "byte_device (stdout_device two_files) (\<lambda>w. w) False"
    using memory.byte_device_axioms by (simp add: two_files_def demo_system_def)
  moreover have "readable two_files ''f'' [Chunk [97, 10, 10, 98]]"
    "readable two_files ''g'' [Chunk [97], Chunk [10, 10, 98]]"
    by (auto simp: readable_def two_files_def demo_system_def demo_file_def is_unsafe_overwrite_def)
  ultimately show ?thesis using cat_squeeze_boundary [OF _ lib_ref_ok, of two_files "\<lambda>w. w" "''f''" "''g''" "[]" "[]"] by simp
qed

text \<open>
  Visible output.  With \<open>-A\<close> (or \<open>-vT\<close>) and without line numbers nothing but printable ASCII
  characters and line breaks reaches the output, whatever bytes the files contain.
\<close>

theorem cat_show_all_visible:
  assumes "byte_device (stdout_device Y) got False" and "lib_ok L" and "list_all2 (readable Y) files ess"
    and "length (concat (map stream_bytes ess)) < 10 ^ 30"
    and "get_flag ''show-all''" and "\<not> get_flag ''number''" and "\<not> get_flag ''number-nonblank''"
  shows "\<exists>w' out. cat_uumain L Y get_flag (Some files) stdin w = (w', Ok ()) \<and>
    got w' = got w @ out \<and> list_all visible out"
proof -
  have "list_all visible (cat_output (cat_options get_flag) ess)"
    using cat_output_visible [of "cat_options get_flag" ess] assms(5-7)
    by (simp add: cat_options_def list_all_iff)
  with cat_prints_readable [OF assms(1-4), of "cat_options get_flag" stdin w] show ?thesis
    unfolding cat_uumain_def option.case by blast
qed

theorem cat_show_all_visible_witness:
  "\<exists>w' out. cat_uumain lib_ref (demo_system [Chunk [0, 9, 13, 200, 255]]) (\<lambda>f. f = ''show-all'')
       (Some [''f'']) [] [] = (w', Ok ()) \<and> w' = out \<and> list_all visible out"
  using cat_show_all_visible [OF demo_device lib_ref_ok, where files = "[''f'']" and
      ess = "[[Chunk [0, 9, 13, 200, 255]]]" and get_flag = "\<lambda>f. f = ''show-all''" and stdin = "[]" and w = "[]"]
    demo_readable [of "[Chunk [0, 9, 13, 200, 255]]"]
  by simp

section \<open>Splice\<close>

lemma copy_exact_blocks:
  assumes acc: "\<And>w bs. bs \<noteq> [] \<Longrightarrow> \<exists>w' n. dev_write D w bs = (w', Some n) \<and> 0 < n"
  shows "length pipe < left \<Longrightarrow> \<exists>w'. copy_exact D pipe left w = (w', Diverge)"
proof (induction "length pipe" arbitrary: pipe left w rule: less_induct)
  case less
  show ?case
  proof (cases "pipe = []")
    case True
    with less.prems show ?thesis by (simp add: copy_exact.simps [of D "[]"])
  next
    case False
    have cw: "\<exists>w'. copy_write D w buf = (w', Ok ())" for buf w
    proof (induction "length buf" arbitrary: buf w rule: less_induct)
      case less
      show ?case
      proof (cases "buf = []")
        case True
        then show ?thesis by (simp add: copy_write.simps [of D w "[]"])
      next
        case ne: False
        from acc [OF ne, of w] obtain w1 n where n: "dev_write D w buf = (w1, Some n)" "0 < n" by blast
        have "length (drop n buf) < length buf" using n ne by simp
        from less [OF this, of w1] n ne show ?thesis by (simp add: copy_write.simps [of D w buf])
      qed
    qed
    let ?buf = "take BUF_SIZE pipe"
    obtain w1 where w1: "copy_write D w ?buf = (w1, Ok ())" using cw by blast
    have small: "length (drop BUF_SIZE pipe) < length pipe" using False by (simp add: BUF_SIZE_def)
    have lt: "length (drop BUF_SIZE pipe) < left - length ?buf" "\<not> left < length ?buf" "left \<noteq> 0"
      using less.prems by auto
    from less.hyps [OF small lt(1), of w1] w1 lt False show ?thesis
      by (simp add: copy_exact.simps [of D pipe left w] Let_def)
  qed
qed

text \<open>
  A partial splice.  When \<open>splice_exact\<close> moves a part of what was read into the intermediate pipe
  to standard output and then fails (an output that does not block, say), the fallback asks the
  pipe for all of it again; the missing bytes never come, because the writing end of the pipe is
  open in this process, and \<open>cat\<close> waits for ever.
\<close>

theorem cat_splice_blocks:
  assumes "\<And>w bs. bs \<noteq> [] \<Longrightarrow> \<exists>w' n. dev_write D w bs = (w', Some n) \<and> 0 < n"
    and "can_splice E" and "pipe_error E = None"
    and "splice_exact D w b = (w1, k, False)" and "0 < k" and "k \<le> length b"
  shows "snd (write_fast E D (Chunk b # es, w, st)) = Diverge"
proof -
  have "length (drop k b) < length b" "b \<noteq> []" using assms(5,6) by auto
  with copy_exact_blocks [OF assms(1), of "drop k b" "length b" w1] obtain w' where
    "copy_exact D (drop k b) (length b) w1 = (w', Diverge)" by blast
  with assms(2-4) \<open>b \<noteq> []\<close> show ?thesis by (simp add: write_fast_def write_fast_using_splice_def)
qed

theorem cat_splice_blocks_witness:
  "snd (write_fast \<lparr>pipe_error = None, can_splice = True\<rparr>
     (memory\<lparr>splice_exact := (\<lambda>w b. (w @ take 1 b, 1, False))\<rparr>) ([Chunk [97, 98]], [], output_state_new)) = Diverge"
  by (rule cat_splice_blocks [where k = 1]) (simp_all add: memory_def)

end
