(* ===== verification/Cat_Windows.thy ===== *)
theory Cat_Windows
  imports Prelude
begin

text \<open>
  The variant of \<open>is_unsafe_overwrite\<close> for Windows (\<open>platform/windows.rs\<close>). The system calls on a file
  handle are a record of functions.
\<close>

record 'f windows =
  final_path :: "'f \<Rightarrow> nat \<Rightarrow> nat \<times> 16 word list"
    \<comment> \<open>\<open>GetFinalPathNameByHandleW\<close> with a buffer of a length: its result and the buffer\<close>
  file_size :: "'f \<Rightarrow> nat option" \<comment> \<open>\<open>FileInformation::from_file\<close>\<close>

definition get_file_path_from_handle :: "'f windows \<Rightarrow> 'f \<Rightarrow> ('e, 16 word list option) outcome" where
  \<comment> \<open>the slice \<open>path_buf[..len]\<close> panics past the end of the buffer\<close>
  "get_file_path_from_handle W f =
     (case final_path W f 4096 of
        (len, path_buf) \<Rightarrow>
          if len = 0 then Ok None
          else if length path_buf < len then Panic
          else Ok (Some (take len path_buf)))"

definition is_same_file_by_path :: "'f windows \<Rightarrow> 'f \<Rightarrow> 'f \<Rightarrow> ('e, bool) outcome" where
  "is_same_file_by_path W a b =
     obind (get_file_path_from_handle W a) (\<lambda>path1.
     obind (get_file_path_from_handle W b) (\<lambda>path2.
       Ok (case (path1, path2) of (Some p1, Some p2) \<Rightarrow> p1 = p2 | _ \<Rightarrow> False)))"

definition windows_unsafe_overwrite :: "'f windows \<Rightarrow> 'f \<Rightarrow> 'f \<Rightarrow> ('e, bool) outcome" where
  "windows_unsafe_overwrite W input out =
     obind (is_same_file_by_path W input out) (\<lambda>same.
       if \<not> same then Ok False
       else Ok (case file_size W out of Some n \<Rightarrow> 0 < n | None \<Rightarrow> False))"

definition final_path_law :: "'f windows \<Rightarrow> ('f \<Rightarrow> 16 word list option) \<Rightarrow> bool" where
  \<comment> \<open>the documentation of the call: zero on failure; the length of the path when it fits with a final
    zero; else the length that the buffer would need, with the zero\<close>
  "final_path_law W path \<longleftrightarrow>
     (\<forall>f cap. length (snd (final_path W f cap)) = cap \<and>
        (case path f of
           None \<Rightarrow> fst (final_path W f cap) = 0
         | Some p \<Rightarrow> p \<noteq> [] \<and>
             (if length p < cap then \<exists>rest. final_path W f cap = (length p, p @ rest)
              else fst (final_path W f cap) = length p + 1)))"

lemma get_file_path_eq:
  assumes "final_path_law W path"
  shows "get_file_path_from_handle W f =
    (case path f of Some p \<Rightarrow> if length p < 4096 then Ok (Some p) else Panic | None \<Rightarrow> Ok None)"
proof -
  obtain len buf where fp: "final_path W f 4096 = (len, buf)" by (cases "final_path W f 4096")
  have law: "length buf = 4096 \<and>
    (case path f of None \<Rightarrow> len = 0
     | Some p \<Rightarrow> p \<noteq> [] \<and> (if length p < 4096 then \<exists>rest. (len, buf) = (length p, p @ rest) else len = length p + 1))"
    using assms [unfolded final_path_law_def, rule_format, of f 4096] unfolding fp by (auto split: option.splits if_splits)
  show ?thesis
  proof (cases "path f")
    case None
    with law fp show ?thesis by (simp add: get_file_path_from_handle_def)
  next
    case (Some p)
    with law fp show ?thesis by (cases "length p < 4096") (auto simp: get_file_path_from_handle_def)
  qed
qed

text \<open>
  On Windows a file that is written to itself is found by its path.  The answer is right for paths
  of less than 4096 units; a longer path of either file is a panic, because the result of the call
  is then the length that it would need and not a length that it has written.
\<close>

theorem cat_windows_long_path:
  assumes "final_path_law W path"
  shows "windows_unsafe_overwrite W input out =
    (if (\<exists>p. (path input = Some p \<or> path out = Some p) \<and> 4096 \<le> length p) then Panic
     else Ok (path input \<noteq> None \<and> path input = path out \<and> (\<exists>n>0. file_size W out = Some n)))"
  by (cases "path input"; cases "path out"; cases "file_size W out")
    (auto simp: windows_unsafe_overwrite_def is_same_file_by_path_def get_file_path_eq [OF assms])

theorem cat_windows_long_path_witness:
  "windows_unsafe_overwrite
     \<lparr>final_path = (\<lambda>f cap. (if f = 0 \<or> f < cap then f else f + 1, replicate cap 65)), file_size = (\<lambda>f. Some 1)\<rparr>
     (5000 :: nat) 1 = (Panic :: (unit, bool) outcome)"
proof -
  let ?W = "\<lparr>final_path = (\<lambda>f cap. (if f = 0 \<or> f < cap then f else f + 1, replicate cap 65)),
    file_size = (\<lambda>f. Some 1)\<rparr> :: nat windows"
  have "final_path_law ?W (\<lambda>f. if f = 0 then None else Some (replicate f 65))"
  proof (unfold final_path_law_def, intro allI)
    fix f cap :: nat
    have "\<exists>rest. replicate cap 65 = replicate f (65 :: 16 word) @ rest" if "f < cap"
      using that replicate_add [of f "cap - f" "65 :: 16 word"] by auto
    then show "length (snd (final_path ?W f cap)) = cap \<and>
        (case if f = 0 then None else Some (replicate f 65) of
           None \<Rightarrow> fst (final_path ?W f cap) = 0
         | Some p \<Rightarrow> p \<noteq> [] \<and>
             (if length p < cap then \<exists>rest. final_path ?W f cap = (length p, p @ rest)
              else fst (final_path ?W f cap) = length p + 1))" by auto
  qed
  note long = cat_windows_long_path [OF this, of 5000 1]
  have "4096 \<le> length (replicate 5000 (65 :: 16 word))" by simp
  then have "\<exists>p. ((if (5000 :: nat) = 0 then None else Some (replicate 5000 65)) = Some p \<or>
      (if (1 :: nat) = 0 then None else Some (replicate 1 65)) = Some p) \<and> 4096 \<le> length (p :: 16 word list)"
    by (intro exI [of _ "replicate 5000 65"]) (simp only: if_False zero_neq_numeral [symmetric] numeral_eq_iff, simp)
  with long show ?thesis by (simp only: if_True)
qed

end
