(* ===== verification/Echo.thy ===== *)
theory Echo
  imports Io_Writer
begin

text \<open>
  \<open>echo\<close> (\<open>src/02-coreutils/echo/rust-rewrite/echo.rs\<close>): the flags before the first operand, the
  variable \<open>POSIXLY_CORRECT\<close>, and the output; beside it the rules of the C program it rewrites
  (\<open>original-c/echo.c\<close>), and the theorem that both print the same bytes, up to what the escapes of one
  argument stand for. Operands are the bytes of an
  \<open>OsStr\<close>. The escape parser of uucore is a parameter: for each item that it yields, what \<open>write\<close> writes and
  whether it says to stop. So is \<open>os_str_as_bytes\<close>, which fails on some platforms only.
\<close>

section \<open>Flags\<close>

record echo_options =
  trailing_newline :: bool
  escape :: bool

definition default_options :: echo_options where
  "default_options = \<lparr>trailing_newline = True, escape = False\<rparr>"

definition posixly_correct_default :: echo_options where
  "posixly_correct_default = \<lparr>trailing_newline = True, escape = True\<rparr>"

fun flag_chars :: "bytes \<Rightarrow> echo_options \<Rightarrow> echo_options option" where
  \<comment> \<open>the loop over the characters of a flag; \<open>None\<close> is its early return\<close>
  "flag_chars [] opts = Some opts"
| "flag_chars (c # cs) opts =
     (if c = 101 then flag_chars cs (opts\<lparr>escape := True\<rparr>)
      else if c = 69 then flag_chars cs (opts\<lparr>escape := False\<rparr>)
      else if c = 110 then flag_chars cs (opts\<lparr>trailing_newline := False\<rparr>)
      else None)"

definition is_flag :: "bytes \<Rightarrow> echo_options \<Rightarrow> bool \<times> echo_options" where
  "is_flag arg opts =
     (case arg of
        [] \<Rightarrow> (False, opts)
      | c # cs \<Rightarrow>
          if c \<noteq> 45 \<or> arg = [45] then (False, opts)
          else (case flag_chars cs opts of None \<Rightarrow> (False, opts) | Some opts' \<Rightarrow> (True, opts')))"

fun filter_flags_from :: "echo_options \<Rightarrow> bytes list \<Rightarrow> bytes list \<times> echo_options" where
  "filter_flags_from opts [] = ([], opts)"
| "filter_flags_from opts (a # args) =
     (case is_flag a opts of
        (True, opts') \<Rightarrow> filter_flags_from opts' args
      | (False, opts') \<Rightarrow> (a # args, opts'))"

definition filter_flags :: "bytes list \<Rightarrow> bytes list \<times> echo_options" where
  "filter_flags args = filter_flags_from default_options args"

section \<open>Output\<close>

datatype echo_error = EchoIo | EchoNonUtf8

type_synonym escape_items = "bytes \<Rightarrow> (bytes \<times> bool) list"

fun write_items :: "'w writer \<Rightarrow> (bytes \<times> bool) list \<Rightarrow> 'w \<Rightarrow> 'w \<times> (echo_error, bool) outcome" where
  \<comment> \<open>\<open>true\<close> when an item said to stop\<close>
  "write_items W [] w = (w, Ok False)"
| "write_items W ((bs, stop) # items) w =
     sbind (write_or EchoIo W bs w) (\<lambda>w _. if stop then (w, Ok True) else write_items W items w)"

fun write_args ::
  "'w writer \<Rightarrow> (bytes \<Rightarrow> bytes option) \<Rightarrow> escape_items \<Rightarrow> echo_options \<Rightarrow> nat \<Rightarrow> bytes list \<Rightarrow> 'w
     \<Rightarrow> 'w \<times> (echo_error, bool) outcome" where
  \<comment> \<open>the loop of \<open>execute\<close>; \<open>true\<close> when it returned early\<close>
  "write_args W osb esc opts i [] w = (w, Ok False)"
| "write_args W osb esc opts i (a # args) w =
     (case osb a of
        None \<Rightarrow> (w, Err EchoNonUtf8)
      | Some bs \<Rightarrow>
          sbind (if 0 < i then write_or EchoIo W [32] w else (w, Ok ())) (\<lambda>w _.
          sbind (if escape opts then write_items W (esc bs) w
                 else sbind (write_or EchoIo W bs w) (\<lambda>w _. (w, Ok False))) (\<lambda>w stop.
            if stop then (w, Ok True) else write_args W osb esc opts (Suc i) args w)))"

definition execute ::
  "'w writer \<Rightarrow> (bytes \<Rightarrow> bytes option) \<Rightarrow> escape_items \<Rightarrow> bytes list \<Rightarrow> echo_options \<Rightarrow> 'w
     \<Rightarrow> 'w \<times> (echo_error, unit) outcome" where
  "execute W osb esc args opts w =
     sbind (write_args W osb esc opts 0 args w) (\<lambda>w stop.
       if stop then (w, Ok ())
       else if trailing_newline opts then write_or EchoIo W [10] w else (w, Ok ()))"

section \<open>The program\<close>

datatype echo_request = EchoHelp | EchoVersion | EchoText "bytes list" echo_options

definition echo_request :: "bool \<Rightarrow> bytes list \<Rightarrow> echo_request" where
  \<comment> \<open>what \<open>uumain\<close> makes of the arguments behind the name of the program\<close>
  "echo_request is_posixly_correct args =
     (if is_posixly_correct then
        (if args \<noteq> [] \<and> hd args = bstr ''-n'' then
           (case filter_flags args of
              (args, _) \<Rightarrow> EchoText args (posixly_correct_default\<lparr>trailing_newline := False\<rparr>))
         else EchoText args posixly_correct_default)
      else
        (case args of
           [] \<Rightarrow> EchoText [] default_options
         | first_arg # args \<Rightarrow>
             if first_arg = bstr ''--help'' \<and> args = [] then EchoHelp
             else if first_arg = bstr ''--version'' \<and> args = [] then EchoVersion
             else (case filter_flags (first_arg # args) of (args, opts) \<Rightarrow> EchoText args opts)))"

definition echo_uumain ::
  "'w writer \<Rightarrow> (bytes \<Rightarrow> bytes option) \<Rightarrow> escape_items \<Rightarrow> bytes \<Rightarrow> bytes \<Rightarrow> bool \<Rightarrow> bytes list \<Rightarrow> 'w
     \<Rightarrow> 'w \<times> (echo_error, unit) outcome" where
  \<comment> \<open>the texts of the help and of the version are arguments\<close>
  "echo_uumain W osb esc help_text version_text is_posixly_correct args w =
     (case echo_request is_posixly_correct args of
        EchoHelp \<Rightarrow> write_or EchoIo W help_text w
      | EchoVersion \<Rightarrow> write_or EchoIo W version_text w
      | EchoText args opts \<Rightarrow> execute W osb esc args opts w)"

section \<open>The rules of the C program\<close>

text \<open>
  \<open>echo.c\<close> without \<open>DEFAULT_ECHO_TO_XPG\<close>. Its strings end at a NUL byte, so the arguments here have none.
\<close>

definition octal_digit :: "u8 \<Rightarrow> bool" where
  "octal_digit c \<longleftrightarrow> 48 \<le> unat c \<and> unat c \<le> 55"

definition hextobin :: "u8 \<Rightarrow> u8" where
  "hextobin c = (case digit_val 16 (unat c) of Some v \<Rightarrow> of_nat v | None \<Rightarrow> c - 48)"

definition xdigit :: "u8 \<Rightarrow> bool" where
  "xdigit c \<longleftrightarrow> digit_val 16 (unat c) \<noteq> None"

fun gnu_octal :: "nat \<Rightarrow> u8 \<Rightarrow> bytes \<Rightarrow> u8 \<times> bytes" where
  \<comment> \<open>up to \<open>k\<close> more octal digits\<close>
  "gnu_octal (Suc k) c (d # s) = (if octal_digit d then gnu_octal k (c * 8 + (d - 48)) s else (c, d # s))"
| "gnu_octal _ c s = (c, s)"

definition gnu_letters :: "(u8 \<times> u8) list" where
  "gnu_letters = [(97, 7), (98, 8), (101, 27), (102, 12), (110, 10), (114, 13), (116, 9), (118, 11), (92, 92)]"

definition gnu_escape :: "u8 \<Rightarrow> bytes \<Rightarrow> (bytes \<times> bytes) option" where
  \<comment> \<open>behind a backslash and \<open>c\<close>: what is printed and the rest; \<open>None\<close> stops the program\<close>
  "gnu_escape c s =
     (if c = 99 then None
      else case map_of gnu_letters c of
        Some v \<Rightarrow> Some ([v], s)
      | None \<Rightarrow>
          if c = 120 then
            (case s of
               h # t \<Rightarrow>
                 if xdigit h then
                   (case t of
                      h' # t' \<Rightarrow> if xdigit h' then Some ([hextobin h * 16 + hextobin h'], t') else Some ([hextobin h], t)
                    | [] \<Rightarrow> Some ([hextobin h], t))
                 else Some ([92, 120], s)
             | [] \<Rightarrow> Some ([92, 120], s))
          else if c = 48 then
            (case s of
               d # t \<Rightarrow> if octal_digit d then (case gnu_octal 2 (d - 48) t of (v, r) \<Rightarrow> Some ([v], r)) else Some ([0], s)
             | [] \<Rightarrow> Some ([0], s))
          else if octal_digit c then (case gnu_octal 2 (c - 48) s of (v, r) \<Rightarrow> Some ([v], r))
          else Some ([92, c], s))"

lemma length_gnu_octal: "gnu_octal k c s = (v, r) \<Longrightarrow> length r \<le> length s"
  by (induction k c s rule: gnu_octal.induct) (auto split: if_splits)

lemma length_gnu_escape: "gnu_escape c s = Some (bs, r) \<Longrightarrow> length r \<le> length s"
  by (auto simp: gnu_escape_def dest: length_gnu_octal split: if_splits option.splits list.splits prod.splits)

function gnu_escapes :: "bytes \<Rightarrow> bytes \<times> bool" where
  \<comment> \<open>what an argument prints, and whether it stops the program\<close>
  "gnu_escapes [] = ([], False)"
| "gnu_escapes (c # s) =
     (if c = 92 \<and> s \<noteq> [] then
        (case gnu_escape (hd s) (tl s) of
           None \<Rightarrow> ([], True)
         | Some (bs, r) \<Rightarrow> (case gnu_escapes r of (t, stop) \<Rightarrow> (bs @ t, stop)))
      else (case gnu_escapes s of (t, stop) \<Rightarrow> (c # t, stop)))"
  by pat_completeness auto
termination
  by (relation "measure length") (auto dest!: length_gnu_escape simp: neq_Nil_conv)

definition gnu_flag :: "bytes \<Rightarrow> bool" where
  "gnu_flag a \<longleftrightarrow> 1 < length a \<and> hd a = 45 \<and> set (tl a) \<subseteq> {101, 69, 110}"

definition gnu_v9 :: "bool \<Rightarrow> bytes \<Rightarrow> bool" where
  \<comment> \<open>\<open>do_v9\<close> after the letters of the options\<close>
  "gnu_v9 v9 letters = foldl (\<lambda>v9 c. if c = 101 then True else if c = 69 then False else v9) v9 letters"

fun gnu_words :: "(bytes \<Rightarrow> bytes \<times> bool) \<Rightarrow> bool \<Rightarrow> bytes list \<Rightarrow> bytes \<times> bool" where
  \<comment> \<open>the loop over the arguments; what the escapes of one print is a parameter, \<open>gnu_escapes\<close> for \<open>echo.c\<close>\<close>
  "gnu_words escs v9 [] = ([], False)"
| "gnu_words escs v9 (a # args) =
     (case (if v9 then escs a else (a, False)) of
        (t, True) \<Rightarrow> (t, True)
      | (t, False) \<Rightarrow>
          if args = [] then (t, False)
          else (case gnu_words escs v9 args of (u, stop) \<Rightarrow> (t @ [32] @ u, stop)))"

definition gnu_allow_options :: "bool \<Rightarrow> bytes list \<Rightarrow> bool" where
  "gnu_allow_options posixly_correct args \<longleftrightarrow> \<not> posixly_correct \<or> args \<noteq> [] \<and> hd args = bstr ''-n''"

definition gnu_letters_of :: "bool \<Rightarrow> bytes list \<Rightarrow> bytes" where
  \<comment> \<open>the letters of the options\<close>
  "gnu_letters_of posixly_correct args =
     (if gnu_allow_options posixly_correct args then concat (map tl (takeWhile gnu_flag args)) else [])"

definition gnu_printed :: "bool \<Rightarrow> bytes list \<Rightarrow> bytes list" where
  \<comment> \<open>the arguments behind the options\<close>
  "gnu_printed posixly_correct args =
     (if gnu_allow_options posixly_correct args then dropWhile gnu_flag args else args)"

definition gnu_interprets :: "bool \<Rightarrow> bytes list \<Rightarrow> bool" where
  \<comment> \<open>\<open>do_v9 || posixly_correct\<close>\<close>
  "gnu_interprets posixly_correct args \<longleftrightarrow>
     gnu_v9 False (gnu_letters_of posixly_correct args) \<or> posixly_correct"

definition gnu_echo :: "(bytes \<Rightarrow> bytes \<times> bool) \<Rightarrow> bytes \<Rightarrow> bytes \<Rightarrow> bool \<Rightarrow> bytes list \<Rightarrow> bytes" where
  \<comment> \<open>the output of \<open>main\<close>\<close>
  "gnu_echo escs help_text version_text posixly_correct args =
     (if gnu_allow_options posixly_correct args \<and> args = [bstr ''--help''] then help_text
      else if gnu_allow_options posixly_correct args \<and> args = [bstr ''--version''] then version_text
      else
        case gnu_words escs (gnu_interprets posixly_correct args) (gnu_printed posixly_correct args) of
          (t, stop) \<Rightarrow> t @ (if \<not> stop \<and> 110 \<notin> set (gnu_letters_of posixly_correct args) then [10] else []))"

lemmas gnu_echo_defs = gnu_echo_def gnu_interprets_def gnu_printed_def gnu_letters_of_def gnu_allow_options_def

lemma gnu_escapes_plain: "92 \<notin> set a \<Longrightarrow> gnu_escapes a = (a, False)"
  by (induction a) auto

lemma gnu_words_cong:
  "(v9 \<Longrightarrow> \<forall>a\<in>set args. f a = g a) \<Longrightarrow> gnu_words f v9 args = gnu_words g v9 args"
  by (induction args) (auto split: prod.splits bool.splits)

lemma gnu_echo_cong:
  assumes "gnu_interprets posix args \<Longrightarrow> \<forall>a\<in>set (gnu_printed posix args). f a = g a"
  shows "gnu_echo f help_text version_text posix args = gnu_echo g help_text version_text posix args"
  using gnu_words_cong [of "gnu_interprets posix args", OF assms] by (simp only: gnu_echo_def)

section \<open>Both programs print the same\<close>

lemma gnu_v9_append: "gnu_v9 b (xs @ ys) = gnu_v9 (gnu_v9 b xs) ys"
  by (simp add: gnu_v9_def)

lemma gnu_v9_Nil: "gnu_v9 b [] = b"
  by (simp add: gnu_v9_def)

lemma flag_chars_eq:
  "flag_chars cs opts =
     (if set cs \<subseteq> {101, 69, 110}
      then Some (opts\<lparr>trailing_newline := trailing_newline opts \<and> 110 \<notin> set cs, escape := gnu_v9 (escape opts) cs\<rparr>)
      else None)"
  by (induction cs opts rule: flag_chars.induct) (auto simp: gnu_v9_def)

lemma is_flag_eq:
  "is_flag a opts =
     (if gnu_flag a
      then (True, opts\<lparr>trailing_newline := trailing_newline opts \<and> 110 \<notin> set (tl a), escape := gnu_v9 (escape opts) (tl a)\<rparr>)
      else (False, opts))"
  by (cases a) (auto simp: is_flag_def gnu_flag_def flag_chars_eq)

lemma filter_flags_from_eq:
  "filter_flags_from opts args =
     (let letters = concat (map tl (takeWhile gnu_flag args)) in
      (dropWhile gnu_flag args,
       opts\<lparr>trailing_newline := trailing_newline opts \<and> 110 \<notin> set letters, escape := gnu_v9 (escape opts) letters\<rparr>))"
proof (induction args arbitrary: opts)
  case (Cons a args)
  then show ?case by (cases "gnu_flag a") (auto simp: is_flag_eq Let_def gnu_v9_append gnu_v9_Nil)
qed (simp add: gnu_v9_Nil Let_def)

definition items_text :: "(bytes \<times> bool) list \<Rightarrow> bytes \<times> bool" where
  \<comment> \<open>what items write up to the first that stops\<close>
  "items_text items =
     (let before = takeWhile (\<lambda>i. \<not> snd i) items; rest = dropWhile (\<lambda>i. \<not> snd i) items in
      (concat (map fst before) @ concat (map fst (take 1 rest)), rest \<noteq> []))"

lemma items_text_simps:
  "items_text [] = ([], False)"
  "items_text ((bs, stop) # items) = (if stop then (bs, True) else (case items_text items of (t, b) \<Rightarrow> (bs @ t, b)))"
  by (auto simp: items_text_def Let_def)

context byte_writer
begin

lemma write_items_emits:
  "emits (\<lambda>e. fb \<and> e = EchoIo) content w (write_items W items w) (fst (items_text items)) (\<lambda>_ b. b = snd (items_text items))"
proof (induction items arbitrary: w)
  case (Cons item items)
  obtain bs stop where i: "item = (bs, stop)" by (cases item)
  obtain t b where t: "items_text items = (t, b)" by (cases "items_text items")
  show ?case
  proof (cases stop)
    case True
    then show ?thesis unfolding i by (auto simp: items_text_simps intro!: emits_last [OF write_or_emits] emits_Ok)
  next
    case False
    have "emits (\<lambda>e. fb \<and> e = EchoIo) content w
        (sbind (write_or EchoIo W bs w) (\<lambda>w _. write_items W items w)) (bs @ t) (\<lambda>_ x. x = b)"
      by (rule emits_bind [OF write_or_emits]) (use Cons.IH t in simp)
    with False show ?thesis by (simp add: i t items_text_simps)
  qed
qed (simp add: items_text_simps emits_Ok)

lemma write_args_emits:
  assumes "\<forall>a\<in>set args. osb a = Some a"
  shows "emits (\<lambda>e. fb \<and> e = EchoIo) content w (write_args W osb esc opts i args w)
    ((if 0 < i \<and> args \<noteq> [] then [32] else []) @ fst (gnu_words (\<lambda>a. items_text (esc a)) (escape opts) args))
    (\<lambda>_ b. b = snd (gnu_words (\<lambda>a. items_text (esc a)) (escape opts) args))"
  using assms
proof (induction args arbitrary: i w)
  case Nil
  then show ?case by (simp add: emits_Ok)
next
  case (Cons a args)
  let ?E = "\<lambda>e. fb \<and> e = EchoIo"
  obtain t stop where t: "(if escape opts then items_text (esc a) else (a, False)) = (t, stop)" by (metis surj_pair)
  have "emits ?E content w (if escape opts then write_items W (esc a) w
      else sbind (write_or EchoIo W a w) (\<lambda>w _. (w, Ok False))) t (\<lambda>_ b. b = stop)" for w
  proof (cases "escape opts")
    case True
    with t write_items_emits [of w "esc a"] show ?thesis by simp
  next
    case False
    with t show ?thesis by (auto intro!: emits_last [OF write_or_emits] emits_Ok)
  qed
  note arg = this
  have sp: "emits ?E content w (if 0 < i then write_or EchoIo W [32] w else (w, Ok ()))
      (if 0 < i then [32] else []) (\<lambda>_ _. True)"
    by (simp add: write_or_emits emits_Ok)
  obtain u b where u: "gnu_words (\<lambda>a. items_text (esc a)) (escape opts) args = (u, b)" by (metis surj_pair)
  let ?rest = "if stop \<or> args = [] then [] else [32] @ u"
  let ?b = "stop \<or> args \<noteq> [] \<and> b"
  have go_on: "emits ?E content w (if x then (w, Ok True) else write_args W osb esc opts (Suc i) args w) ?rest (\<lambda>_ c. c = ?b)"
    if "x = stop" for w x
    using that Cons.IH [of w "Suc i"] Cons.prems u by (auto simp: emits_Ok)
  have "emits ?E content w (write_args W osb esc opts i (a # args) w)
      ((if 0 < i then [32] else []) @ t @ ?rest) (\<lambda>_ c. c = ?b)"
  proof -
    have e: "write_args W osb esc opts i (a # args) w =
        sbind (if 0 < i then write_or EchoIo W [32] w else (w, Ok ())) (\<lambda>w _.
        sbind (if escape opts then write_items W (esc a) w
               else sbind (write_or EchoIo W a w) (\<lambda>w _. (w, Ok False))) (\<lambda>w stop.
          if stop then (w, Ok True) else write_args W osb esc opts (Suc i) args w))"
      using Cons.prems(1) by simp
    show ?thesis
      unfolding e by (rule emits_bind [OF sp], rule emits_bind [OF arg], rule go_on)
  qed
  moreover have "gnu_words (\<lambda>a. items_text (esc a)) (escape opts) (a # args) = (t @ ?rest, ?b)"
    using u by (auto simp: t split: prod.splits bool.splits)
  ultimately show ?case by simp
qed

lemma execute_emits:
  assumes "\<forall>a\<in>set args. osb a = Some a"
  shows "emits (\<lambda>e. fb \<and> e = EchoIo) content w (execute W osb esc args opts w)
    (case gnu_words (\<lambda>a. items_text (esc a)) (escape opts) args of (t, stop) \<Rightarrow> t @ (if \<not> stop \<and> trailing_newline opts then [10] else [])) (\<lambda>_ _. True)"
proof -
  have "emits (\<lambda>e. fb \<and> e = EchoIo) content w (write_args W osb esc opts 0 args w)
      (fst (gnu_words (\<lambda>a. items_text (esc a)) (escape opts) args)) (\<lambda>_ b. b = snd (gnu_words (\<lambda>a. items_text (esc a)) (escape opts) args))"
    using write_args_emits [where args = args and osb = osb and opts = opts and esc = esc and w = w and i = 0] assms by simp
  then have "emits (\<lambda>e. fb \<and> e = EchoIo) content w (execute W osb esc args opts w)
      (fst (gnu_words (\<lambda>a. items_text (esc a)) (escape opts) args) @ (if \<not> snd (gnu_words (\<lambda>a. items_text (esc a)) (escape opts) args) \<and> trailing_newline opts then [10] else []))
      (\<lambda>_ _. True)"
    unfolding execute_def by (rule emits_bind) (auto intro: emits_Ok write_or_emits)
  then show ?thesis by (simp add: case_prod_beta)
qed

end

text \<open>
  C29. The rewrite prints what the C program prints.  On any writer, in both modes of \<open>POSIXLY_CORRECT\<close>
  and for all arguments that \<open>os_str_as_bytes\<close> passes through, a run writes the output of \<open>echo.c\<close> in which
  only the inner loop over the escapes of one argument is replaced by the escape parser of uucore,
  whatever that parser does: flags in any number and spelling, arguments that only look like flags,
  single \<open>--help\<close>, the blanks, the stop of \<open>\c\<close>, and the newline are those of \<open>echo.c\<close>; or a write
  fails after a prefix of it. Of the parser only its documented treatment of a text without a backslash,
  which it passes through, is then needed for the exact output of \<open>echo.c\<close>, with its own escapes, in
  every run that interprets no escapes or prints no argument with a backslash.
\<close>

theorem echo_as_gnu:
  assumes "byte_writer W content settled fb" and "\<forall>a\<in>set args. osb a = Some a"
    and "\<And>a. 92 \<notin> set a \<Longrightarrow> items_text (esc a) = (a, False)"
  shows "(\<exists>w' res. echo_uumain W osb esc help_text version_text posix args w = (w', res) \<and>
      (res = Ok () \<and> content w' = content w @ gnu_echo (\<lambda>a. items_text (esc a)) help_text version_text posix args \<or>
       fb \<and> res = Err EchoIo \<and>
         prefix (content w') (content w @ gnu_echo (\<lambda>a. items_text (esc a)) help_text version_text posix args))) \<and>
    (gnu_interprets posix args \<and> (\<exists>a\<in>set (gnu_printed posix args). 92 \<in> set a) \<or>
     gnu_echo (\<lambda>a. items_text (esc a)) help_text version_text posix args = gnu_echo gnu_escapes help_text version_text posix args)"
proof -
  let ?E = "\<lambda>e. fb \<and> e = EchoIo" and ?rest = "dropWhile gnu_flag args"
  have rest: "\<forall>a\<in>set ?rest. osb a = Some a" using assms(2) by (auto dest: set_dropWhileD)
  note exec = byte_writer.execute_emits [OF assms(1), where esc = esc]
  note wr = byte_writer.write_or_emits [OF assms(1)]
  have flags: "filter_flags args = (let letters = concat (map tl (takeWhile gnu_flag args)) in
      (?rest, \<lparr>trailing_newline = 110 \<notin> set letters, escape = gnu_v9 False letters\<rparr>))"
    by (simp add: filter_flags_def filter_flags_from_eq default_options_def Let_def)
  have "emits ?E content w (echo_uumain W osb esc help_text version_text posix args w)
      (gnu_echo (\<lambda>a. items_text (esc a)) help_text version_text posix args) (\<lambda>_ _. True)"
  proof (cases posix)
    case True
    show ?thesis
    proof (cases "args \<noteq> [] \<and> hd args = bstr ''-n''")
      case n: True
      then have "gnu_flag (hd args)" by (simp add: gnu_flag_def)
      with n have "110 \<in> set (concat (map tl (takeWhile gnu_flag args)))" by (cases args) auto
      with True n show ?thesis
        using exec [where args = ?rest and osb = osb and opts = "\<lparr>trailing_newline = False, escape = True\<rparr>" and w = w] rest
        by (auto simp: echo_uumain_def echo_request_def flags gnu_echo_defs Let_def posixly_correct_default_def case_prod_beta
            intro: emits_mono)
    next
      case False
      with True show ?thesis
        using exec [where args = args and osb = osb and opts = posixly_correct_default and w = w] assms(2)
        by (auto simp: echo_uumain_def echo_request_def gnu_echo_defs gnu_v9_Nil Let_def posixly_correct_default_def)
    qed
  next
    case False
    consider "args = []" | "args = [bstr ''--help'']" | "args = [bstr ''--version'']" |
      "args \<noteq> []" "args \<noteq> [bstr ''--help'']" "args \<noteq> [bstr ''--version'']" by blast
    then show ?thesis
    proof cases
      case 1
      with False show ?thesis using exec [where args = "[]" and osb = osb and opts = default_options and w = w]
        by (simp add: echo_uumain_def echo_request_def gnu_echo_defs default_options_def gnu_v9_Nil)
    next
      case 4
      then have r: "echo_request False args = (case filter_flags args of (args, opts) \<Rightarrow> EchoText args opts)"
        by (auto simp: echo_request_def split: list.splits)
      from 4 False show ?thesis
        using exec [where args = ?rest and osb = osb and opts = "snd (filter_flags args)" and w = w] rest
        by (simp add: echo_uumain_def r flags gnu_echo_defs Let_def Ball_def)
    qed (use False wr in \<open>simp_all add: echo_uumain_def echo_request_def gnu_echo_defs\<close>)
  qed
  note run = emits_result [OF this]
  have "gnu_echo (\<lambda>a. items_text (esc a)) help_text version_text posix args = gnu_echo gnu_escapes help_text version_text posix args"
    if "\<not> (gnu_interprets posix args \<and> (\<exists>a\<in>set (gnu_printed posix args). 92 \<in> set a))"
    by (rule gnu_echo_cong) (use that assms(3) gnu_escapes_plain in auto)
  with run show ?thesis by auto
qed

fun demo_escapes :: escape_items where
  \<comment> \<open>a parser that knows \<open>\c\<close> only\<close>
  "demo_escapes [] = []"
| "demo_escapes (c # s) = (if c = 92 \<and> take 1 s = [99] then [([], True)] else ([c], False) # demo_escapes s)"

lemma demo_escapes_plain: "92 \<notin> set a \<Longrightarrow> items_text (demo_escapes a) = (a, False)"
  by (induction a) (auto simp: items_text_simps)

theorem echo_as_gnu_witness:
  "(\<exists>w' res. echo_uumain memory_writer Some demo_escapes [] [] False
      [bstr ''-ne'', bstr ''-x'', [97, 92, 99, 98], bstr ''c''] [] = (w', res) \<and> res = Ok () \<and> w' = bstr ''-x a'') \<and>
   gnu_echo (\<lambda>a. items_text (demo_escapes a)) [] [] True [bstr ''-e'', bstr ''b''] = bstr ''-e b'' @ [10]"
proof
  have plain: "\<And>a. 92 \<notin> set a \<Longrightarrow> items_text (demo_escapes a) = (a, False)" by (rule demo_escapes_plain)
  show "\<exists>w' res. echo_uumain memory_writer Some demo_escapes [] [] False
      [bstr ''-ne'', bstr ''-x'', [97, 92, 99, 98], bstr ''c''] [] = (w', res) \<and> res = Ok () \<and> w' = bstr ''-x a''"
    using echo_as_gnu [OF collected.byte_writer_axioms _ plain, where osb = Some and posix = False and w = "[]" and
        help_text = "[]" and version_text = "[]" and args = "[bstr ''-ne'', bstr ''-x'', [97, 92, 99, 98], bstr ''c'']"]
    by (simp add: items_text_simps gnu_echo_defs gnu_flag_def gnu_v9_def)
  show "gnu_echo (\<lambda>a. items_text (demo_escapes a)) [] [] True [bstr ''-e'', bstr ''b''] = bstr ''-e b'' @ [10]"
    using echo_as_gnu [OF collected.byte_writer_axioms _ plain, where osb = Some and posix = True and
        help_text = "[]" and version_text = "[]" and args = "[bstr ''-e'', bstr ''b'']"]
    by (simp add: gnu_echo_defs gnu_flag_def gnu_v9_def)
qed

end
