(* ===== verification/Redis_Frame.thy ===== *)
theory Redis_Frame
  imports Prelude
begin

text \<open>
  The frame type of the Redis protocol and its two decoders (\<open>frame.rs\<close>): \<open>Frame::check\<close> finds out
  whether a whole frame is buffered, \<open>Frame::parse\<close> builds it. A \<open>Cursor\<close> is the pair of the
  buffer and the position; a Rust \<open>String\<close> is the list of its UTF-8 bytes. The recursion of both
  decoders on nested arrays is bounded by the length of the buffer, which is the fuel they get.
  The crate \<open>atoi\<close> and the \<open>Debug\<close> text of the crate \<open>bytes\<close> are parameters, and so are the
  build options that change the outcome: overflow checks and the size of a \<open>Frame\<close> in memory. The
  Unicode tables behind \<open>to_lowercase\<close> and \<open>to_uppercase\<close> are parameters too, known on ASCII text.
\<close>

section \<open>Strings\<close>

definition cont_byte :: "u8 \<Rightarrow> bool" where
  "cont_byte b \<longleftrightarrow> 128 \<le> b \<and> b \<le> 191"

definition utf8_lead3 :: "u8 \<Rightarrow> u8 \<Rightarrow> bool" where
  \<comment> \<open>the second byte of a three byte sequence: no overlong forms, no surrogates\<close>
  "utf8_lead3 a b \<longleftrightarrow>
     (a = 224 \<and> 160 \<le> b \<and> b \<le> 191) \<or> (225 \<le> a \<and> a \<le> 236 \<and> cont_byte b) \<or>
     (a = 237 \<and> 128 \<le> b \<and> b \<le> 159) \<or> (238 \<le> a \<and> a \<le> 239 \<and> cont_byte b)"

definition utf8_lead4 :: "u8 \<Rightarrow> u8 \<Rightarrow> bool" where
  \<comment> \<open>the second byte of a four byte sequence: no overlong forms, at most U+10FFFF\<close>
  "utf8_lead4 a b \<longleftrightarrow>
     (a = 240 \<and> 144 \<le> b \<and> b \<le> 191) \<or> (241 \<le> a \<and> a \<le> 243 \<and> cont_byte b) \<or>
     (a = 244 \<and> 128 \<le> b \<and> b \<le> 143)"

fun valid_utf8 :: "bytes \<Rightarrow> bool" where
  \<comment> \<open>\<open>String::from_utf8\<close> succeeds\<close>
  "valid_utf8 [] = True"
| "valid_utf8 (a # s) =
     (if a < 128 then valid_utf8 s
      else case s of
        [] \<Rightarrow> False
      | b # s2 \<Rightarrow>
          if 194 \<le> a \<and> a \<le> 223 then cont_byte b \<and> valid_utf8 s2
          else (case s2 of
             [] \<Rightarrow> False
           | c # s3 \<Rightarrow>
               if utf8_lead3 a b then cont_byte c \<and> valid_utf8 s3
               else (case s3 of
                  [] \<Rightarrow> False
                | d # s4 \<Rightarrow> utf8_lead4 a b \<and> cont_byte c \<and> cont_byte d \<and> valid_utf8 s4)))"

definition ascii :: "bytes \<Rightarrow> bool" where
  "ascii s \<longleftrightarrow> (\<forall>b \<in> set s. b < 128)"

lemma ascii_simps [simp]: "ascii []" "ascii (b # s) \<longleftrightarrow> b < 128 \<and> ascii s"
  "ascii (s @ t) \<longleftrightarrow> ascii s \<and> ascii t"
  by (auto simp: ascii_def)

lemma ascii_utf8: "ascii s \<Longrightarrow> valid_utf8 s"
  by (induction s) auto

section \<open>Frames and errors\<close>

datatype frame =
    Simple bytes
  | Error bytes
  | Integer u64
  | Bulk bytes
  | Null
  | Array "frame list"

text \<open>The errors that leave the crate, one constructor per message of the source.\<close>

datatype redis_error =
    InvalidFrameType u8
  | InvalidFrameFormat
  | StreamEndedEarly
  | ConnectionReset
  | RedisIo
  | UnexpectedFrame frame
  | ExpectedArray frame
  | ExpectedString frame
  | ExpectedInt frame
  | InvalidString
  | InvalidNumber
  | ExpectedEndOfFrame
  | UnexpectedEndOfStream
  | UnsupportedSetOption
  | UnsubscribeUnsupported
  | ErrorReply bytes

datatype frame_error = Incomplete | Other redis_error

record redis_env =
  overflow_checks :: bool
  frame_size :: nat
  atoi_u64 :: "bytes \<Rightarrow> u64 option"
  bytes_debug :: "bytes \<Rightarrow> bytes"
  to_lowercase :: "bytes \<Rightarrow> bytes"
  to_uppercase :: "bytes \<Rightarrow> bytes"

definition ascii_lower :: "u8 \<Rightarrow> u8" where
  "ascii_lower b = (if 65 \<le> b \<and> b \<le> 90 then b + 32 else b)"

definition ascii_upper :: "u8 \<Rightarrow> u8" where
  "ascii_upper b = (if 97 \<le> b \<and> b \<le> 122 then b - 32 else b)"

definition case_law :: "redis_env \<Rightarrow> bool" where
  \<comment> \<open>the Unicode case tables of the standard library change the ASCII letters of ASCII strings\<close>
  "case_law E \<longleftrightarrow> (\<forall>s. ascii s \<longrightarrow>
     to_lowercase E s = map ascii_lower s \<and> to_uppercase E s = map ascii_upper s)"

definition atoi_law :: "redis_env \<Rightarrow> bool" where
  \<comment> \<open>the crate \<open>atoi\<close> reads back the decimal digits of every 64 bit number\<close>
  "atoi_law E \<longleftrightarrow> (\<forall>v. atoi_u64 E (bdec (unat v)) = Some v)"

fun from_frame_error :: "frame_error \<Rightarrow> redis_error" where
  \<comment> \<open>the conversion of \<open>frame::Error\<close> into \<open>crate::Error\<close>, known by its text\<close>
  "from_frame_error Incomplete = StreamEndedEarly"
| "from_frame_error (Other e) = e"

definition frame_array :: frame where
  "frame_array = Array []"

fun push_bulk :: "frame \<Rightarrow> bytes \<Rightarrow> (redis_error, frame) outcome" where
  "push_bulk (Array v) b = Ok (Array (v @ [Bulk b]))"
| "push_bulk f b = Panic"

fun push_int :: "frame \<Rightarrow> u64 \<Rightarrow> (redis_error, frame) outcome" where
  "push_int (Array v) n = Ok (Array (v @ [Integer n]))"
| "push_int f n = Panic"

definition to_error :: "frame \<Rightarrow> redis_error" where
  "to_error f = UnexpectedFrame f"

fun frame_eq_str :: "frame \<Rightarrow> bytes \<Rightarrow> bool" where
  \<comment> \<open>\<open>PartialEq<&str>\<close>\<close>
  "frame_eq_str (Simple s) t = (s = t)"
| "frame_eq_str (Bulk s) t = (s = t)"
| "frame_eq_str f t = False"

fun join_spaces :: "bytes list \<Rightarrow> bytes" where
  "join_spaces [] = []"
| "join_spaces [x] = x"
| "join_spaces (x # xs) = x @ [32] @ join_spaces xs"

fun frame_display :: "redis_env \<Rightarrow> frame \<Rightarrow> bytes" where
  \<comment> \<open>\<open>fmt::Display\<close>\<close>
  "frame_display E (Simple s) = s"
| "frame_display E (Error s) = bstr ''error: '' @ s"
| "frame_display E (Integer n) = bdec (unat n)"
| "frame_display E (Bulk b) = (if valid_utf8 b then b else bytes_debug E b)"
| "frame_display E Null = bstr ''(nil)''"
| "frame_display E (Array fs) = join_spaces (map (frame_display E) fs)"

section \<open>The cursor\<close>

definition peek_u8 :: "bytes \<Rightarrow> nat \<Rightarrow> (frame_error, u8) outcome" where
  "peek_u8 buf p = (if length buf \<le> p then Err Incomplete else Ok (buf ! p))"

definition get_u8 :: "bytes \<Rightarrow> nat \<Rightarrow> (frame_error, u8 \<times> nat) outcome" where
  "get_u8 buf p = (if length buf \<le> p then Err Incomplete else Ok (buf ! p, Suc p))"

definition skip :: "bytes \<Rightarrow> nat \<Rightarrow> nat \<Rightarrow> (frame_error, nat) outcome" where
  "skip buf p n = (if length buf - p < n then Err Incomplete else Ok (p + n))"

definition crlf_at :: "bytes \<Rightarrow> nat \<Rightarrow> bool" where
  "crlf_at buf i \<longleftrightarrow> buf ! i = 13 \<and> buf ! (i + 1) = 10"

definition get_line :: "bytes \<Rightarrow> nat \<Rightarrow> (frame_error, bytes \<times> nat) outcome" where
  \<comment> \<open>on an empty buffer \<open>len() - 1\<close> underflows: a panic of the subtraction or of the first index\<close>
  "get_line buf start =
     (if buf = [] then Panic
      else case find (crlf_at buf) [start..<length buf - 1] of
             Some i \<Rightarrow> Ok (take (i - start) (drop start buf), i + 2)
           | None \<Rightarrow> Err Incomplete)"

definition get_decimal :: "redis_env \<Rightarrow> bytes \<Rightarrow> nat \<Rightarrow> (frame_error, u64 \<times> nat) outcome" where
  "get_decimal E buf p =
     obind (get_line buf p) (\<lambda>(line, p').
       case atoi_u64 E line of
         Some v \<Rightarrow> Ok (v, p') | None \<Rightarrow> Err (Other InvalidFrameFormat))"

definition usize_add :: "redis_env \<Rightarrow> u64 \<Rightarrow> u64 \<Rightarrow> (frame_error, u64) outcome" where
  \<comment> \<open>\<open>a + b\<close> of \<open>usize\<close>: a panic with overflow checks, the wrapped sum without\<close>
  "usize_add E a b =
     (if overflow_checks E \<and> usize_limit \<le> unat a + unat b then Panic else Ok (a + b))"

section \<open>Checking\<close>

primrec repeat_check ::
  "(nat \<Rightarrow> (frame_error, nat) outcome) \<Rightarrow> nat \<Rightarrow> nat \<Rightarrow> (frame_error, nat) outcome" where
  \<comment> \<open>\<open>for _ in 0..len { Frame::check(src)?; }\<close>\<close>
  "repeat_check f 0 p = Ok p"
| "repeat_check f (Suc n) p = obind (f p) (repeat_check f n)"

primrec check_depth ::
  "nat \<Rightarrow> redis_env \<Rightarrow> bytes \<Rightarrow> nat \<Rightarrow> (frame_error, nat) outcome" where
  "check_depth 0 E buf p0 = Diverge"
| "check_depth (Suc d) E buf p0 =
     obind (get_u8 buf p0) (\<lambda>(t, p).
       if t = 43 then obind (get_line buf p) (\<lambda>(_, q). Ok q)
       else if t = 45 then obind (get_line buf p) (\<lambda>(_, q). Ok q)
       else if t = 58 then obind (get_decimal E buf p) (\<lambda>(_, q). Ok q)
       else if t = 36 then
         obind (peek_u8 buf p) (\<lambda>c.
           if c = 45 then skip buf p 4
           else obind (get_decimal E buf p) (\<lambda>(len, q).
                  obind (usize_add E len 2) (\<lambda>n. skip buf q (unat n))))
       else if t = 42 then
         obind (get_decimal E buf p) (\<lambda>(len, q). repeat_check (check_depth d E buf) (unat len) q)
       else Err (Other (InvalidFrameType t)))"

definition frame_check :: "redis_env \<Rightarrow> bytes \<Rightarrow> nat \<Rightarrow> (frame_error, nat) outcome" where
  "frame_check E buf p = check_depth (Suc (length buf)) E buf p"

section \<open>Parsing\<close>

primrec repeat_parse ::
  "(nat \<Rightarrow> (frame_error, frame \<times> nat) outcome) \<Rightarrow> nat \<Rightarrow> nat \<Rightarrow> (frame_error, frame list \<times> nat) outcome"
where
  \<comment> \<open>\<open>for _ in 0..len { out.push(Frame::parse(src)?); }\<close>\<close>
  "repeat_parse f 0 p = Ok ([], p)"
| "repeat_parse f (Suc n) p =
     obind (f p) (\<lambda>(x, q). obind (repeat_parse f n q) (\<lambda>(xs, r). Ok (x # xs, r)))"

definition string_from_utf8 :: "bytes \<Rightarrow> (frame_error, bytes) outcome" where
  "string_from_utf8 s = (if valid_utf8 s then Ok s else Err (Other InvalidFrameFormat))"

definition slice_to :: "bytes \<Rightarrow> nat \<Rightarrow> (frame_error, bytes) outcome" where
  \<comment> \<open>\<open>&s[..len]\<close>\<close>
  "slice_to s len = (if length s < len then Panic else Ok (take len s))"

definition with_capacity :: "redis_env \<Rightarrow> nat \<Rightarrow> (frame_error, unit) outcome" where
  \<comment> \<open>\<open>Vec::with_capacity\<close> panics when the size in bytes exceeds \<open>isize::MAX\<close>\<close>
  "with_capacity E len = (if usize_limit div 2 \<le> len * frame_size E then Panic else Ok ())"

primrec parse_depth ::
  "nat \<Rightarrow> redis_env \<Rightarrow> bytes \<Rightarrow> nat \<Rightarrow> (frame_error, frame \<times> nat) outcome" where
  "parse_depth 0 E buf p0 = Diverge"
| "parse_depth (Suc d) E buf p0 =
     obind (get_u8 buf p0) (\<lambda>(t, p).
       if t = 43 then
         obind (get_line buf p) (\<lambda>(line, q).
           obind (string_from_utf8 line) (\<lambda>s. Ok (Simple s, q)))
       else if t = 45 then
         obind (get_line buf p) (\<lambda>(line, q).
           obind (string_from_utf8 line) (\<lambda>s. Ok (Error s, q)))
       else if t = 58 then obind (get_decimal E buf p) (\<lambda>(len, q). Ok (Integer len, q))
       else if t = 36 then
         obind (peek_u8 buf p) (\<lambda>c.
           if c = 45 then
             obind (get_line buf p) (\<lambda>(line, q).
               if line \<noteq> [45, 49] then Err (Other InvalidFrameFormat) else Ok (Null, q))
           else obind (get_decimal E buf p) (\<lambda>(len, q).
                  obind (usize_add E len 2) (\<lambda>n.
                    if length buf - q < unat n then Err Incomplete
                    else obind (slice_to (drop q buf) (unat len)) (\<lambda>data.
                           obind (skip buf q (unat n)) (\<lambda>r. Ok (Bulk data, r))))))
       else if t = 42 then
         obind (get_decimal E buf p) (\<lambda>(len, q).
           obind (with_capacity E (unat len)) (\<lambda>_.
             obind (repeat_parse (parse_depth d E buf) (unat len) q) (\<lambda>(out, r). Ok (Array out, r))))
       else Panic)"

definition frame_parse :: "redis_env \<Rightarrow> bytes \<Rightarrow> nat \<Rightarrow> (frame_error, frame \<times> nat) outcome" where
  "frame_parse E buf p = parse_depth (Suc (length buf)) E buf p"

end
