(* ===== verification/Redis_Decode.thy ===== *)
theory Redis_Decode
  imports Redis_Frame
begin

text \<open>
  The two decoders agree: what \<open>Frame::check\<close> accepts, \<open>Frame::parse\<close> reads from exactly the same
  bytes or rejects, neither runs out of its fuel, and more bytes behind the buffer change no
  verdict but \<open>Incomplete\<close>.
\<close>

section \<open>Lines\<close>

lemma find_upt_Some:
  "find P [s..<n] = Some i \<longleftrightarrow> s \<le> i \<and> i < n \<and> P i \<and> (\<forall>j. s \<le> j \<and> j < i \<longrightarrow> \<not> P j)"
proof
  assume "find P [s..<n] = Some i"
  then obtain k where k: "k < n - s" "P (s + k)" "i = s + k" "\<forall>j<k. \<not> P (s + j)"
    by (auto simp: find_Some_iff)
  moreover have "\<not> P j" if "s \<le> j" "j < i" for j
    using k(3,4) that by (metis le_add_diff_inverse nat_add_left_cancel_less)
  ultimately show "s \<le> i \<and> i < n \<and> P i \<and> (\<forall>j. s \<le> j \<and> j < i \<longrightarrow> \<not> P j)" by simp
next
  assume r: "s \<le> i \<and> i < n \<and> P i \<and> (\<forall>j. s \<le> j \<and> j < i \<longrightarrow> \<not> P j)"
  then show "find P [s..<n] = Some i"
    unfolding find_Some_iff by (intro exI [of _ "i - s"]) auto
qed

lemma crlf_at_append: "Suc i < length buf \<Longrightarrow> crlf_at (buf @ m) i = crlf_at buf i"
  by (simp add: crlf_at_def nth_append)

lemma get_line_Ok_iff:
  "get_line buf s = Ok (l, q) \<longleftrightarrow>
     (\<exists>i. q = i + 2 \<and> s \<le> i \<and> Suc i < length buf \<and> crlf_at buf i \<and>
          (\<forall>j. s \<le> j \<and> j < i \<longrightarrow> \<not> crlf_at buf j) \<and> l = take (i - s) (drop s buf))"
proof -
  have "get_line buf s = Ok (l, q) \<longleftrightarrow>
    (\<exists>i. find (crlf_at buf) [s..<length buf - 1] = Some i \<and> q = i + 2 \<and>
         l = take (i - s) (drop s buf))"
    by (auto simp: get_line_def split: option.splits)
  then show ?thesis by (auto simp: find_upt_Some)
qed

lemma get_line_Ok_bounds:
  assumes "get_line buf s = Ok (l, q)"
  shows "s < q \<and> q \<le> length buf \<and> length l + 2 = q - s"
  using assms by (auto simp: get_line_Ok_iff)

lemma get_line_append:
  assumes "get_line buf s = Ok (l, q)"
  shows "get_line (buf @ m) s = Ok (l, q)"
proof -
  obtain i where "q = i + 2" "s \<le> i" "Suc i < length buf" "crlf_at buf i"
      "\<forall>j. s \<le> j \<and> j < i \<longrightarrow> \<not> crlf_at buf j" "l = take (i - s) (drop s buf)"
    using assms by (auto simp: get_line_Ok_iff)
  then show ?thesis
    unfolding get_line_Ok_iff by (intro exI [of _ i]) (auto simp: crlf_at_append)
qed

lemma get_line_cases:
  assumes "buf \<noteq> []"
  obtains l q where "get_line buf s = Ok (l, q)" | "get_line buf s = Err Incomplete"
  using assms by (cases "find (crlf_at buf) [s..<length buf - 1]") (auto simp: get_line_def)

lemma get_decimal_Ok:
  "get_decimal E buf p = Ok (v, q) \<longleftrightarrow> (\<exists>l. get_line buf p = Ok (l, q) \<and> atoi_u64 E l = Some v)"
  by (auto simp: get_decimal_def obind_Ok_iff split: option.splits)

lemma get_decimal_not_Panic: "buf \<noteq> [] \<Longrightarrow> get_decimal E buf p \<noteq> Panic \<and> get_decimal E buf p \<noteq> Diverge"
  by (cases rule: get_line_cases [of buf p]) (auto simp: get_decimal_def split: option.splits)

lemma get_decimal_bounds:
  "get_decimal E buf p = Ok (v, q) \<Longrightarrow> p < q \<and> q \<le> length buf"
  by (auto simp: get_decimal_Ok dest: get_line_Ok_bounds)

section \<open>More bytes\<close>

definition extends :: "(frame_error, 'a) outcome \<Rightarrow> (frame_error, 'a) outcome \<Rightarrow> bool" where
  \<comment> \<open>the second result is the first unless that one asked for more bytes or fuel\<close>
  "extends r r' \<longleftrightarrow> r = Err Incomplete \<or> r = Diverge \<or> r = r'"

lemma extends_refl [simp]: "extends r r"
  by (simp add: extends_def)

lemma extends_obind:
  assumes "extends m m'" and "\<And>x. m = Ok x \<Longrightarrow> extends (f x) (f' x)"
  shows "extends (obind m f) (obind m' f')"
  using assms by (cases m) (auto simp: extends_def)

lemma get_u8_extends: "extends (get_u8 buf p) (get_u8 (buf @ m) p)"
  by (simp add: get_u8_def extends_def nth_append)

lemma peek_u8_extends: "extends (peek_u8 buf p) (peek_u8 (buf @ m) p)"
  by (simp add: peek_u8_def extends_def nth_append)

lemma skip_extends: "extends (skip buf p n) (skip (buf @ m) p n)"
  by (auto simp: skip_def extends_def)

lemma get_line_extends: "buf \<noteq> [] \<Longrightarrow> extends (get_line buf p) (get_line (buf @ m) p)"
  by (cases rule: get_line_cases [of buf p]) (auto simp: extends_def get_line_append)

lemma get_decimal_extends: "buf \<noteq> [] \<Longrightarrow> extends (get_decimal E buf p) (get_decimal E (buf @ m) p)"
  unfolding get_decimal_def by (intro extends_obind get_line_extends) auto

lemma get_u8_Ok: "get_u8 buf p = Ok (t, q) \<longleftrightarrow> p < length buf \<and> t = buf ! p \<and> q = Suc p"
  by (auto simp: get_u8_def)

lemma get_u8_ne: "get_u8 buf p = Ok x \<Longrightarrow> buf \<noteq> []"
  by (auto simp: get_u8_def split: if_splits)

lemma repeat_check_extends:
  assumes "\<And>p. extends (f p) (g p)"
  shows "extends (repeat_check f n p) (repeat_check g n p)"
  using assms by (induction n arbitrary: p) (auto intro!: extends_obind)

lemma check_depth_extends:
  "d \<le> d' \<Longrightarrow> extends (check_depth d E buf p) (check_depth d' E (buf @ m) p)"
proof (induction d arbitrary: d' p)
  case 0
  then show ?case by (simp add: extends_def)
next
  case (Suc d)
  then obtain e where d': "d' = Suc e" "d \<le> e" by (cases d') auto
  note IH = Suc.IH [OF d'(2)]
  show ?case
    unfolding d' check_depth.simps
  proof (rule extends_obind [OF get_u8_extends])
    fix x assume "get_u8 buf p = Ok x"
    then have ne: "buf \<noteq> []" by (rule get_u8_ne)
    have bulk: "extends
        (if c = 45 then skip buf q 4
         else obind (get_decimal E buf q) (\<lambda>(len, q).
                obind (usize_add E len 2) (\<lambda>n. skip buf q (unat n))))
        (if c = 45 then skip (buf @ m) q 4
         else obind (get_decimal E (buf @ m) q) (\<lambda>(len, q).
                obind (usize_add E len 2) (\<lambda>n. skip (buf @ m) q (unat n))))" for c q
      using ne by (auto intro!: extends_obind skip_extends get_decimal_extends)
    show "extends
      ((\<lambda>(t, p). if t = 43 then obind (get_line buf p) (\<lambda>(_, q). Ok q)
       else if t = 45 then obind (get_line buf p) (\<lambda>(_, q). Ok q)
       else if t = 58 then obind (get_decimal E buf p) (\<lambda>(_, q). Ok q)
       else if t = 36 then
         obind (peek_u8 buf p) (\<lambda>c.
           if c = 45 then skip buf p 4
           else obind (get_decimal E buf p) (\<lambda>(len, q).
                  obind (usize_add E len 2) (\<lambda>n. skip buf q (unat n))))
       else if t = 42 then
         obind (get_decimal E buf p) (\<lambda>(len, q). repeat_check (check_depth d E buf) (unat len) q)
       else Err (Other (InvalidFrameType t))) x)
      ((\<lambda>(t, p). if t = 43 then obind (get_line (buf @ m) p) (\<lambda>(_, q). Ok q)
       else if t = 45 then obind (get_line (buf @ m) p) (\<lambda>(_, q). Ok q)
       else if t = 58 then obind (get_decimal E (buf @ m) p) (\<lambda>(_, q). Ok q)
       else if t = 36 then
         obind (peek_u8 (buf @ m) p) (\<lambda>c.
           if c = 45 then skip (buf @ m) p 4
           else obind (get_decimal E (buf @ m) p) (\<lambda>(len, q).
                  obind (usize_add E len 2) (\<lambda>n. skip (buf @ m) q (unat n))))
       else if t = 42 then
         obind (get_decimal E (buf @ m) p)
           (\<lambda>(len, q). repeat_check (check_depth e E (buf @ m)) (unat len) q)
       else Err (Other (InvalidFrameType t))) x)"
      using ne bulk IH
      by (cases x) (auto intro!: extends_obind get_line_extends get_decimal_extends
          peek_u8_extends repeat_check_extends)
  qed
qed

section \<open>Progress\<close>

lemma skip_Ok: "skip buf p n = Ok q \<longleftrightarrow> n \<le> length buf - p \<and> q = p + n"
  by (auto simp: skip_def)

lemma peek_u8_Ok: "peek_u8 buf p = Ok c \<longleftrightarrow> p < length buf \<and> c = buf ! p"
  by (auto simp: peek_u8_def)

lemma repeat_check_bounds:
  assumes "\<And>p q. f p = Ok q \<Longrightarrow> p < q \<and> q \<le> N" and "repeat_check f n p = Ok q" and "p \<le> N"
  shows "p + n \<le> q \<and> q \<le> N"
  using assms(2,3)
proof (induction n arbitrary: p)
  case (Suc n)
  then obtain r where r: "f p = Ok r" "repeat_check f n r = Ok q" by (auto simp: obind_Ok_iff)
  with assms(1) [OF r(1)] Suc.IH [of r] show ?case by auto
qed simp

lemma check_depth_bounds:
  "check_depth d E buf p = Ok q \<Longrightarrow> p < q \<and> q \<le> length buf"
proof (induction d arbitrary: p q)
  case (Suc d)
  have rb: "r + n \<le> s \<and> s \<le> length buf"
    if "repeat_check (check_depth d E buf) n r = Ok s" "r \<le> length buf" for n r s
    by (rule repeat_check_bounds [OF _ that]) (rule Suc.IH)
  from Suc.prems show ?case
    by (auto simp: obind_Ok_iff get_u8_Ok skip_Ok peek_u8_Ok split: if_splits
        dest!: get_line_Ok_bounds get_decimal_bounds dest: rb)
qed simp

lemma repeat_check_total:
  assumes "\<And>q. p \<le> q \<Longrightarrow> f q \<noteq> Diverge" and "\<And>q r. f q = Ok r \<Longrightarrow> q < r"
  shows "repeat_check f n p \<noteq> Diverge"
  using assms(1)
proof (induction n arbitrary: p)
  case (Suc n)
  show ?case
  proof (cases "f p")
    case (Ok r)
    with assms(2) [of p r] Suc.prems have "repeat_check f n r \<noteq> Diverge" by (intro Suc.IH) auto
    with Ok show ?thesis by simp
  qed (use Suc.prems in auto)
qed simp

lemma check_depth_total:
  "length buf - p < d \<Longrightarrow> check_depth d E buf p \<noteq> Diverge"
proof (induction d arbitrary: p)
  case (Suc d)
  show ?case
  proof (cases "p < length buf")
    case True
    then have ne: "buf \<noteq> []" by auto
    have rc: "repeat_check (check_depth d E buf) n q \<noteq> Diverge" if "Suc p \<le> q" for n q
      using Suc.prems that True
      by (intro repeat_check_total Suc.IH) (auto dest: check_depth_bounds)
    have "get_line buf s \<noteq> Diverge" for s using get_line_cases [OF ne, of s] by fastforce
    moreover have "usize_add E a b \<noteq> Diverge" for a b by (simp add: usize_add_def)
    ultimately show ?thesis using ne rc get_decimal_not_Panic [OF ne, of E]
      by (auto simp: obind_Diverge_iff get_u8_def peek_u8_def skip_def split: if_splits
          dest!: get_decimal_bounds)
  qed (simp add: get_u8_def)
qed simp

section \<open>What is checked is parsed\<close>

definition agree ::
  "nat \<Rightarrow> (frame_error, 'a \<times> nat) outcome \<Rightarrow> (frame_error, 'a \<times> nat) outcome \<Rightarrow> bool" where
  "agree q r r' \<longleftrightarrow>
     (\<exists>x. r = Ok (x, q) \<and> r' = Ok (x, q)) \<or> (\<exists>e e'. r = Err e \<and> r' = Err e') \<or>
     (r = Panic \<and> r' = Panic)"

lemma agree_simps [simp]:
  "agree q (Ok (x, q)) (Ok (x, q))" "agree q (Err e) (Err e')" "agree q Panic Panic"
  by (simp_all add: agree_def)

lemma get_line_local:
  assumes "get_line (buf @ m) p = Ok (l, q)" "q \<le> length buf"
  shows "get_line buf p = Ok (l, q)"
proof -
  obtain i where "q = i + 2" "p \<le> i" "Suc i < length (buf @ m)" "crlf_at (buf @ m) i"
      "\<forall>j. p \<le> j \<and> j < i \<longrightarrow> \<not> crlf_at (buf @ m) j" "l = take (i - p) (drop p (buf @ m))"
    using assms(1) by (auto simp: get_line_Ok_iff)
  then show ?thesis
    using assms(2) unfolding get_line_Ok_iff
    by (intro exI [of _ i]) (auto simp: crlf_at_append)
qed

lemma repeat_agree:
  assumes "\<And>p q. f p = Ok q \<Longrightarrow> agree q (g p) (h p)"
  shows "repeat_check f n p = Ok q \<Longrightarrow> agree q (repeat_parse g n p) (repeat_parse h n p)"
proof (induction n arbitrary: p)
  case (Suc n)
  then obtain r where r: "f p = Ok r" "repeat_check f n r = Ok q" by (auto simp: obind_Ok_iff)
  from assms [OF r(1)] Suc.IH [OF r(2)] show ?case
    unfolding agree_def by fastforce
qed simp

lemma parse_null_agree:
  assumes "skip buf p 4 = Ok q" and "buf \<noteq> []"
  shows "agree q
    (obind (get_line buf p) (\<lambda>(line, q).
       if line \<noteq> [45, 49] then Err (Other InvalidFrameFormat) else Ok (Null, q)))
    (obind (get_line (buf @ m) p) (\<lambda>(line, q).
       if line \<noteq> [45, 49] then Err (Other InvalidFrameFormat) else Ok (Null, q)))"
proof (cases rule: get_line_cases [OF assms(2), of p])
  case (1 l r)
  then show ?thesis
    using get_line_append [OF 1, of m] get_line_Ok_bounds [OF 1] assms(1)
    by (auto simp: skip_Ok agree_def)
next
  case 2
  have ne: "buf @ m \<noteq> []" using assms(2) by simp
  show ?thesis
  proof (cases rule: get_line_cases [OF ne, of p])
    case (1 l r)
    have "l \<noteq> [45, 49]"
    proof
      assume "l = [45, 49]"
      with get_line_Ok_bounds [OF 1] assms(1) have "r \<le> length buf" by (auto simp: skip_Ok)
      with get_line_local [OF 1] 2 show False by simp
    qed
    with 1 2 show ?thesis by simp
  qed (use 2 in simp)
qed

lemma usize_add_Ok:
  "usize_add E a b = Ok n \<longleftrightarrow> \<not> (overflow_checks E \<and> usize_limit \<le> unat a + unat b) \<and> n = a + b"
  by (auto simp: usize_add_def)

lemma wrapped_len:
  assumes "unat (len + 2 :: u64) < unat len"
  shows "usize_limit \<le> unat len + 2"
proof (rule ccontr)
  assume "\<not> usize_limit \<le> unat len + 2"
  then have "unat (len + 2) = unat len + 2"
    by (subst unat_add_lem [THEN iffD1]) (simp_all add: usize_limit_def)
  with assms show False by simp
qed

lemma parse_bulk_agree:
  assumes "usize_add E len 2 = Ok n" and "skip buf q (unat n) = Ok r"
    and "length (buf @ m) + 2 < usize_limit"
  shows "agree r
    (if length buf - q < unat n then Err Incomplete
     else obind (slice_to (drop q buf) (unat len)) (\<lambda>data.
            obind (skip buf q (unat n)) (\<lambda>r. Ok (Bulk data, r))))
    (if length (buf @ m) - q < unat n then Err Incomplete
     else obind (slice_to (drop q (buf @ m)) (unat len)) (\<lambda>data.
            obind (skip (buf @ m) q (unat n)) (\<lambda>r. Ok (Bulk data, r))))"
proof -
  have sk: "unat n \<le> length buf - q" "r = q + unat n" and n: "n = len + 2"
    using assms(1,2) by (auto simp: skip_Ok usize_add_Ok)
  show ?thesis
  proof (cases "unat len \<le> length buf - q")
    case True
    with sk show ?thesis by (auto simp: slice_to_def skip_def)
  next
    case False
    with sk n have "usize_limit \<le> unat len + 2" by (intro wrapped_len) auto
    with assms(3) have "length (buf @ m) - q < unat len" by auto
    with sk False show ?thesis by (auto simp: slice_to_def)
  qed
qed

lemma with_capacity_Ok:
  assumes "n \<le> N" "N * frame_size E < usize_limit div 2"
  shows "with_capacity E n = Ok ()"
  using le_less_trans [OF mult_le_mono1 [OF assms(1)] assms(2)] by (simp add: with_capacity_def)

definition fits :: "redis_env \<Rightarrow> bytes \<Rightarrow> bool" where
  \<comment> \<open>the sizes that a buffer in memory can have\<close>
  "fits E buf \<longleftrightarrow> length buf + 2 < usize_limit \<and> length buf * frame_size E < usize_limit div 2"

lemma parse_agrees:
  assumes "fits E (buf @ m)"
  shows "check_depth d E buf p = Ok q \<Longrightarrow> d \<le> d' \<Longrightarrow>
    agree q (parse_depth d E buf p) (parse_depth d' E (buf @ m) p)"
proof (induction d arbitrary: d' p q)
  case (Suc d)
  then obtain e where d': "d' = Suc e" "d \<le> e" by (cases d') auto
  from Suc.prems(1) have p: "p < length buf" by (auto simp: obind_Ok_iff get_u8_Ok)
  then have ne: "buf \<noteq> []" and t: "get_u8 buf p = Ok (buf ! p, Suc p)"
    "get_u8 (buf @ m) p = Ok (buf ! p, Suc p)" by (auto simp: get_u8_def nth_append)
  let ?t = "buf ! p"
  note check = Suc.prems(1) [unfolded check_depth.simps t, simplified]
  note small = assms [unfolded fits_def]
  have "length buf \<le> length (buf @ m)" by simp
  from le_less_trans [OF mult_le_mono1 [OF this]] small
  have cap_ok: "length buf * frame_size E < usize_limit div 2" by blast
  show ?case
  proof (cases "?t = 43 \<or> ?t = 45 \<or> ?t = 58")
    case True
    with check obtain l where l: "get_line buf (Suc p) = Ok (l, q)"
      by (auto simp: obind_Ok_iff get_decimal_Ok split: if_splits)
    from True show ?thesis
      using check
      by (auto simp: d' t l get_line_append [OF l] string_from_utf8_def get_decimal_def
          split: option.splits)
  next
    case False
    then consider (bulk) "?t = 36" | (array) "?t = 42" using check by (auto split: if_splits)
    then show ?thesis
    proof cases
      case bulk
      from check bulk obtain c where c: "peek_u8 buf (Suc p) = Ok c" by (auto simp: obind_Ok_iff)
      then have c': "peek_u8 (buf @ m) (Suc p) = Ok c" by (auto simp: peek_u8_Ok nth_append)
      show ?thesis
      proof (cases "c = 45")
        case True
        with check bulk c have "skip buf (Suc p) 4 = Ok q" by simp
        from parse_null_agree [OF this ne] show ?thesis
          using bulk c c' True by (simp add: d' t)
      next
        case False
        with check bulk c obtain len r n where
          len: "get_decimal E buf (Suc p) = Ok (len, r)" "usize_add E len 2 = Ok n"
            "skip buf r (unat n) = Ok q" by (auto simp: obind_Ok_iff)
        then have "get_decimal E (buf @ m) (Suc p) = Ok (len, r)"
          by (auto simp: get_decimal_Ok dest: get_line_append)
        with parse_bulk_agree [OF len(2,3)] len bulk c c' False small show ?thesis
          by (simp add: d' t)
      qed
    next
      case array
      with check obtain len r where
        len: "get_decimal E buf (Suc p) = Ok (len, r)"
          "repeat_check (check_depth d E buf) (unat len) r = Ok q" by (auto simp: obind_Ok_iff)
      then have len': "get_decimal E (buf @ m) (Suc p) = Ok (len, r)"
        by (auto simp: get_decimal_Ok dest: get_line_append)
      have "r + unat len \<le> q \<and> q \<le> length buf"
        by (rule repeat_check_bounds [OF _ len(2)])
          (use get_decimal_bounds [OF len(1)] in \<open>auto dest: check_depth_bounds\<close>)
      then have cap: "with_capacity E (unat len) = Ok ()"
        by (intro with_capacity_Ok [OF _ cap_ok]) simp
      have "agree q (repeat_parse (parse_depth d E buf) (unat len) r)
          (repeat_parse (parse_depth e E (buf @ m)) (unat len) r)"
        by (rule repeat_agree [OF _ len(2)]) (rule Suc.IH [OF _ d'(2)])
      then show ?thesis
        using array len len' cap by (auto simp: d' t agree_def)
    qed
  qed
qed simp

end
