(* ===== verification/Redis_Connection.thy ===== *)
theory Redis_Connection
  imports Redis_Decode
begin

text \<open>
  \<open>Connection\<close> (\<open>connection.rs\<close>): frames are read from a stream that delivers bytes in chunks of any
  size, and written through a buffered writer. A write or flush of the socket may fail: the list
  \<open>write_faults\<close> says which of the coming calls do (none, once it is used up). Bytes handed to the
  \<open>BufWriter\<close> are \<open>pending\<close> until a flush makes them \<open>sent\<close>.
\<close>

section \<open>State\<close>

record connection =
  incoming :: reader
  rbuf :: bytes
  pending :: bytes
  sent :: bytes
  write_faults :: "bool list"

definition connection_new :: "reader \<Rightarrow> bool list \<Rightarrow> connection" where
  "connection_new es faults =
     \<lparr>incoming = es, rbuf = [], pending = [], sent = [], write_faults = faults\<rparr>"

type_synonym 'a conn_result = "connection \<times> (redis_error, 'a) outcome"

section \<open>Reading\<close>

definition buf_advance :: "bytes \<Rightarrow> nat \<Rightarrow> (redis_error, bytes) outcome" where
  \<comment> \<open>\<open>BytesMut::advance\<close> panics past the end\<close>
  "buf_advance buf n = (if length buf < n then Panic else Ok (drop n buf))"

definition parse_frame :: "redis_env \<Rightarrow> bytes \<Rightarrow> (redis_error, frame option \<times> bytes) outcome" where
  "parse_frame E buffer =
     (case frame_check E buffer 0 of
        Ok len \<Rightarrow>
          obind (omap_err from_frame_error (frame_parse E buffer 0)) (\<lambda>(frame, _).
            obind (buf_advance buffer len) (\<lambda>rest. Ok (Some frame, rest)))
      | Err Incomplete \<Rightarrow> Ok (None, buffer)
      | Err (Other e) \<Rightarrow> Err e
      | Panic \<Rightarrow> Panic
      | Diverge \<Rightarrow> Diverge)"

definition end_of_stream :: "bytes \<Rightarrow> (redis_error, frame option) outcome" where
  "end_of_stream buffer = (if buffer = [] then Ok None else Err ConnectionReset)"

fun read_events ::
  "redis_env \<Rightarrow> bytes \<Rightarrow> reader \<Rightarrow> (redis_error, frame option) outcome \<times> bytes \<times> reader" where
  \<comment> \<open>the loop of \<open>read_frame\<close>: try to parse, else read more\<close>
  "read_events E buffer es =
     (case parse_frame E buffer of
        Ok (Some frame, rest) \<Rightarrow> (Ok (Some frame), rest, es)
      | Ok (None, _) \<Rightarrow>
          (case es of
             [] \<Rightarrow> (end_of_stream buffer, buffer, [])
           | Chunk b # es' \<Rightarrow>
               if b = [] then (end_of_stream buffer, buffer, es') else read_events E (buffer @ b) es'
           | Interrupted # es' \<Rightarrow> (Err RedisIo, buffer, es')
           | ReadFailed # es' \<Rightarrow> (Err RedisIo, buffer, es'))
      | Err e \<Rightarrow> (Err e, buffer, es)
      | Panic \<Rightarrow> (Panic, buffer, es)
      | Diverge \<Rightarrow> (Diverge, buffer, es))"

declare read_events.simps [simp del]

definition read_frame :: "redis_env \<Rightarrow> connection \<Rightarrow> frame option conn_result" where
  "read_frame E c =
     (case read_events E (rbuf c) (incoming c) of
        (r, buffer, es) \<Rightarrow> (c\<lparr>rbuf := buffer, incoming := es\<rparr>, r))"

section \<open>Writing\<close>

definition stream_op :: "(connection \<Rightarrow> connection) \<Rightarrow> connection \<Rightarrow> unit conn_result" where
  \<comment> \<open>one call on the socket's writer, with the fault that the environment has for it\<close>
  "stream_op f c =
     (case write_faults c of
        [] \<Rightarrow> (f c, Ok ())
      | fault # fs \<Rightarrow>
          let c' = c\<lparr>write_faults := fs\<rparr> in if fault then (c', Err RedisIo) else (f c', Ok ()))"

definition write_all :: "bytes \<Rightarrow> connection \<Rightarrow> unit conn_result" where
  "write_all b = stream_op (\<lambda>c. c\<lparr>pending := pending c @ b\<rparr>)"

definition write_u8 :: "u8 \<Rightarrow> connection \<Rightarrow> unit conn_result" where
  "write_u8 b = write_all [b]"

definition conn_flush :: "connection \<Rightarrow> unit conn_result" where
  "conn_flush = stream_op (\<lambda>c. c\<lparr>pending := [], sent := sent c @ pending c\<rparr>)"

definition write_decimal :: "u64 \<Rightarrow> connection \<Rightarrow> unit conn_result" where
  \<comment> \<open>the number is formatted into an array of 20 bytes; a longer text would be a write error\<close>
  "write_decimal v c =
     (let text = bdec (unat v) in
      if 20 < length text then (c, Err RedisIo)
      else sbind (write_all text c) (\<lambda>c _. write_all [13, 10] c))"

fun write_value :: "frame \<Rightarrow> connection \<Rightarrow> unit conn_result" where
  "write_value (Simple s) c =
     sbind (write_u8 43 c) (\<lambda>c _. sbind (write_all s c) (\<lambda>c _. write_all [13, 10] c))"
| "write_value (Error s) c =
     sbind (write_u8 45 c) (\<lambda>c _. sbind (write_all s c) (\<lambda>c _. write_all [13, 10] c))"
| "write_value (Integer v) c = sbind (write_u8 58 c) (\<lambda>c _. write_decimal v c)"
| "write_value Null c = write_all [36, 45, 49, 13, 10] c"
| "write_value (Bulk b) c =
     sbind (write_u8 36 c) (\<lambda>c _. sbind (write_decimal (of_nat (length b)) c) (\<lambda>c _.
       sbind (write_all b c) (\<lambda>c _. write_all [13, 10] c)))"
| "write_value (Array fs) c = (c, Panic)"

fun write_entries :: "frame list \<Rightarrow> connection \<Rightarrow> unit conn_result" where
  "write_entries [] c = (c, Ok ())"
| "write_entries (f # fs) c = sbind (write_value f c) (\<lambda>c _. write_entries fs c)"

definition write_frame :: "frame \<Rightarrow> connection \<Rightarrow> unit conn_result" where
  "write_frame f c =
     sbind
       (case f of
          Array fs \<Rightarrow>
            sbind (write_u8 42 c) (\<lambda>c _.
              sbind (write_decimal (of_nat (length fs)) c) (\<lambda>c _. write_entries fs c))
        | _ \<Rightarrow> write_value f c)
       (\<lambda>c _. conn_flush c)"

section \<open>The encoding\<close>

text \<open>
  The abstract specification of both directions: \<open>frame_bytes\<close> is the text of a frame and
  \<open>wire_frame\<close> says which frames have one that decodes to them again.
\<close>

definition line_bytes :: "bytes \<Rightarrow> bytes" where
  "line_bytes s = s @ [13, 10]"

fun value_bytes :: "frame \<Rightarrow> bytes" where
  "value_bytes (Simple s) = 43 # line_bytes s"
| "value_bytes (Error s) = 45 # line_bytes s"
| "value_bytes (Integer v) = 58 # line_bytes (bdec (unat v))"
| "value_bytes Null = 36 # line_bytes [45, 49]"
| "value_bytes (Bulk b) = 36 # line_bytes (bdec (length b)) @ line_bytes b"
| "value_bytes (Array fs) = []"

fun frame_bytes :: "frame \<Rightarrow> bytes" where
  "frame_bytes (Array fs) = 42 # line_bytes (bdec (length fs)) @ concat (map value_bytes fs)"
| "frame_bytes f = value_bytes f"

fun no_crlf :: "bytes \<Rightarrow> bool" where
  "no_crlf (a # b # s) \<longleftrightarrow> \<not> (a = 13 \<and> b = 10) \<and> no_crlf (b # s)"
| "no_crlf s \<longleftrightarrow> True"

fun wire_value :: "frame \<Rightarrow> bool" where
  "wire_value (Simple s) \<longleftrightarrow> valid_utf8 s \<and> no_crlf s"
| "wire_value (Error s) \<longleftrightarrow> valid_utf8 s \<and> no_crlf s"
| "wire_value (Bulk b) \<longleftrightarrow> length b + 2 < usize_limit"
| "wire_value (Array fs) \<longleftrightarrow> False"
| "wire_value f \<longleftrightarrow> True"

fun wire_frame :: "frame \<Rightarrow> bool" where
  "wire_frame (Array fs) \<longleftrightarrow> length fs < usize_limit \<and> (\<forall>f \<in> set fs. wire_value f)"
| "wire_frame f \<longleftrightarrow> wire_value f"

end
