(* ===== verification/Redis_Wire.thy ===== *)
theory Redis_Wire
  imports Redis_Connection
begin

text \<open>
  What a connection promises: the frames that the reader decodes depend on the bytes of the stream
  only, not on the chunks they arrive in, and what one side writes the other side reads.
\<close>

section \<open>One attempt to parse\<close>

lemma frame_check_bounds: "frame_check E buf p = Ok q \<Longrightarrow> p < q \<and> q \<le> length buf"
  unfolding frame_check_def by (rule check_depth_bounds)

lemma parse_frame_Some:
  assumes "parse_frame E buf = Ok (Some f, rest)"
  shows "\<exists>n. 0 < n \<and> n \<le> length buf \<and> rest = drop n buf"
  using assms
  by (auto simp: parse_frame_def outcome_simps buf_advance_def
      split: outcome.splits frame_error.splits if_splits dest!: frame_check_bounds)

lemma parse_frame_None: "parse_frame E buf = Ok (None, rest) \<Longrightarrow> rest = buf"
  by (auto simp: parse_frame_def outcome_simps split: outcome.splits frame_error.splits)

lemma frame_check_append:
  "extends (frame_check E buf p) (frame_check E (buf @ m) p)"
  unfolding frame_check_def by (rule check_depth_extends) simp

lemma frame_check_total: "frame_check E buf p \<noteq> Diverge"
  unfolding frame_check_def by (rule check_depth_total) simp

lemma frame_parse_agrees:
  assumes "fits E (buf @ m)" and "frame_check E buf p = Ok q"
  shows "agree q (frame_parse E buf p) (frame_parse E (buf @ m) p)"
  using assms(2) unfolding frame_parse_def frame_check_def
  by (rule parse_agrees [OF assms(1)]) simp

lemma parse_frame_append:
  assumes "fits E (buf @ m)"
  shows "(\<exists>f rest. parse_frame E buf = Ok (Some f, rest) \<and> parse_frame E (buf @ m) = Ok (Some f, rest @ m)) \<or>
    parse_frame E buf = Ok (None, buf) \<or>
    (\<exists>e e'. parse_frame E buf = Err e \<and> parse_frame E (buf @ m) = Err e') \<or>
    (parse_frame E buf = Panic \<and> parse_frame E (buf @ m) = Panic)"
proof (cases "frame_check E buf 0")
  case (Ok q)
  moreover from this have "frame_check E (buf @ m) 0 = Ok q"
    using frame_check_append [of E buf 0 m] by (simp add: extends_def)
  moreover from Ok have "q \<le> length buf" using frame_check_bounds by blast
  ultimately show ?thesis
    using frame_parse_agrees [OF assms Ok] by (auto simp: agree_def parse_frame_def buf_advance_def)
next
  case (Err e)
  show ?thesis
  proof (cases e)
    case (Other e')
    with Err have "frame_check E (buf @ m) 0 = Err (Other e')"
      using frame_check_append [of E buf 0 m] by (simp add: extends_def)
    with Err Other show ?thesis by (simp add: parse_frame_def)
  qed (use Err in \<open>simp add: parse_frame_def\<close>)
next
  case Panic
  then have "frame_check E (buf @ m) 0 = Panic"
    using frame_check_append [of E buf 0 m] by (simp add: extends_def)
  with Panic show ?thesis by (simp add: parse_frame_def)
qed (use frame_check_total in blast)

section \<open>The frames of a stream\<close>

datatype stream_end = CleanEnd | ResetEnd | Rejected | Crashed

definition end_of :: "bytes \<Rightarrow> stream_end" where
  "end_of buf = (if buf = [] then CleanEnd else ResetEnd)"

function decode_stream :: "redis_env \<Rightarrow> bytes \<Rightarrow> frame list \<times> stream_end" where
  \<comment> \<open>the specification: the frames that a byte string holds and how it ends\<close>
  "decode_stream E buf =
     (case parse_frame E buf of
        Ok (Some f, rest) \<Rightarrow> (case decode_stream E rest of (fs, e) \<Rightarrow> (f # fs, e))
      | Ok (None, _) \<Rightarrow> ([], end_of buf)
      | Err _ \<Rightarrow> ([], Rejected)
      | Panic \<Rightarrow> ([], Crashed)
      | Diverge \<Rightarrow> ([], Crashed))"
  by pat_completeness auto

termination
  by (relation "measure (\<lambda>(E, buf). length buf)") (auto dest!: parse_frame_Some)

declare decode_stream.simps [simp del]

fun event_size :: "read_event \<Rightarrow> nat" where
  "event_size (Chunk b) = Suc (length b)"
| "event_size _ = 1"

lemma read_events_shrinks:
  "read_events E buf es = (Ok (Some f), buf', es') \<Longrightarrow>
     length buf' + sum_list (map event_size es') < length buf + sum_list (map event_size es)"
proof (induction E buf es rule: read_events.induct)
  case (1 E buf es)
  from 1(2) show ?case
    by (subst (asm) read_events.simps)
      (fastforce split: outcome.splits option.splits list.splits read_event.splits if_splits prod.splits
        simp: end_of_stream_def dest: parse_frame_Some 1(1))
qed

function receive_all :: "redis_env \<Rightarrow> bytes \<Rightarrow> reader \<Rightarrow> frame list \<times> stream_end" where
  \<comment> \<open>a peer that calls \<open>read_frame\<close> until it gives no frame\<close>
  "receive_all E buf es =
     (case read_events E buf es of
        (Ok (Some f), buf', es') \<Rightarrow> (case receive_all E buf' es' of (fs, e) \<Rightarrow> (f # fs, e))
      | (Ok None, _, _) \<Rightarrow> ([], CleanEnd)
      | (Err ConnectionReset, _, _) \<Rightarrow> ([], ResetEnd)
      | (Err _, _, _) \<Rightarrow> ([], Rejected)
      | (Panic, _, _) \<Rightarrow> ([], Crashed)
      | (Diverge, _, _) \<Rightarrow> ([], Crashed))"
  by pat_completeness auto

termination
  by (relation "measure (\<lambda>(E, buf, es). length buf + sum_list (map event_size es))")
    (auto dest!: read_events_shrinks [OF sym])

declare receive_all.simps [simp del]

lemma decode_stream_eq:
  "parse_frame E buf = Ok (Some f, rest) \<Longrightarrow>
     decode_stream E buf = (case decode_stream E rest of (fs, e) \<Rightarrow> (f # fs, e))"
  "parse_frame E buf = Ok (None, rest') \<Longrightarrow> decode_stream E buf = ([], end_of buf)"
  "parse_frame E buf = Err e \<Longrightarrow> decode_stream E buf = ([], Rejected)"
  "parse_frame E buf = Panic \<Longrightarrow> decode_stream E buf = ([], Crashed)"
  by (subst decode_stream.simps, simp)+

lemma fits_mono: "fits E xs \<Longrightarrow> length xs' \<le> length xs \<Longrightarrow> fits E xs'"
  unfolding fits_def
  using le_less_trans [OF mult_le_mono1 [of "length xs'" "length xs" "frame_size E"]] by auto

lemma get_decimal_Err:
  "get_decimal E buf p = Err e \<Longrightarrow> e = Incomplete \<or> e = Other InvalidFrameFormat"
  by (auto simp: get_decimal_def get_line_def obind_Err_iff split: if_splits option.splits)

lemma get_line_Err: "get_line buf p = Err e \<Longrightarrow> e = Incomplete"
  by (auto simp: get_line_def split: if_splits option.splits)

definition decode_error :: "frame_error \<Rightarrow> bool" where
  "decode_error e \<longleftrightarrow>
     e = Incomplete \<or> e = Other InvalidFrameFormat \<or> (\<exists>t. e = Other (InvalidFrameType t))"

lemma check_depth_Err: "check_depth d E buf p = Err e \<Longrightarrow> decode_error e"
proof (induction d arbitrary: p)
  case (Suc d)
  have "repeat_check (check_depth d E buf) n q = Err e \<Longrightarrow> decode_error e" for n q
    by (induction n arbitrary: q) (auto simp: obind_Err_iff dest: Suc.IH)
  with Suc.prems show ?case
    by (auto simp: obind_Err_iff get_u8_def peek_u8_def skip_def usize_add_def decode_error_def
        split: if_splits dest!: get_line_Err dest: get_decimal_Err)
qed simp

lemma parse_depth_Err: "parse_depth d E buf p = Err e \<Longrightarrow> decode_error e"
proof (induction d arbitrary: p)
  case (Suc d)
  have "repeat_parse (parse_depth d E buf) n q = Err e \<Longrightarrow> decode_error e" for n q
    by (induction n arbitrary: q) (auto simp: obind_Err_iff dest: Suc.IH)
  with Suc.prems show ?case
    by (auto simp: obind_Err_iff get_u8_def peek_u8_def skip_def usize_add_def decode_error_def
        string_from_utf8_def slice_to_def with_capacity_def
        split: if_splits dest!: get_line_Err dest: get_decimal_Err)
qed simp

lemma parse_frame_Err_kind: "parse_frame E buf = Err e \<Longrightarrow> e \<noteq> ConnectionReset"
proof (cases "frame_check E buf 0")
  case (Ok q)
  moreover assume "parse_frame E buf = Err e"
  moreover from Ok have "q \<le> length buf" using frame_check_bounds by blast
  ultimately obtain d where "frame_parse E buf 0 = Err d" "e = from_frame_error d"
    by (cases "frame_parse E buf 0") (auto simp: parse_frame_def buf_advance_def)
  then show ?thesis unfolding frame_parse_def
    by (auto simp: decode_error_def simp del: parse_depth.simps dest!: parse_depth_Err)
next
  case (Err d)
  moreover assume "parse_frame E buf = Err e"
  ultimately have "frame_check E buf 0 = Err (Other e)"
    by (cases d) (auto simp: parse_frame_def)
  then show ?thesis unfolding frame_check_def
    by (auto simp: decode_error_def simp del: check_depth.simps dest!: check_depth_Err)
qed (simp_all add: parse_frame_def)

text \<open>The reads of one \<open>read_frame\<close> against the whole stream.\<close>

definition all_chunks :: "reader \<Rightarrow> bool" where
  "all_chunks es \<longleftrightarrow> (\<forall>e \<in> set es. \<exists>b. e = Chunk b \<and> b \<noteq> [])"

lemma all_chunks_simps [simp]:
  "all_chunks []" "all_chunks (e # es) \<longleftrightarrow> (\<exists>b. e = Chunk b \<and> b \<noteq> []) \<and> all_chunks es"
  by (auto simp: all_chunks_def)

lemma read_events_stream:
  assumes "all_chunks es" and "fits E (buf @ stream_bytes es)"
  shows "case read_events E buf es of
      (Ok (Some f), buf', es') \<Rightarrow> all_chunks es' \<and>
         parse_frame E (buf @ stream_bytes es) = Ok (Some f, buf' @ stream_bytes es')
    | (Ok None, _, _) \<Rightarrow> decode_stream E (buf @ stream_bytes es) = ([], CleanEnd)
    | (Err e, _, _) \<Rightarrow> decode_stream E (buf @ stream_bytes es) =
         ([], if e = ConnectionReset then ResetEnd else Rejected)
    | (Panic, _, _) \<Rightarrow> decode_stream E (buf @ stream_bytes es) = ([], Crashed)
    | (Diverge, _, _) \<Rightarrow> False"
  using assms
proof (induction E buf es rule: read_events.induct)
  case (1 E buf es)
  consider (some) f rest where "parse_frame E buf = Ok (Some f, rest)"
      "parse_frame E (buf @ stream_bytes es) = Ok (Some f, rest @ stream_bytes es)"
    | (none) "parse_frame E buf = Ok (None, buf)"
    | (err) e e' where "parse_frame E buf = Err e" "parse_frame E (buf @ stream_bytes es) = Err e'"
    | (panic) "parse_frame E buf = Panic" "parse_frame E (buf @ stream_bytes es) = Panic"
    using parse_frame_append [OF 1(3)] by blast
  then show ?case
  proof cases
    case some
    then show ?thesis using 1(2) by (subst read_events.simps) simp
  next
    case none
    show ?thesis
    proof (cases es)
      case Nil
      then show ?thesis using none decode_stream_eq(2) [OF none]
        by (subst read_events.simps) (auto simp: end_of_stream_def end_of_def)
    next
      case (Cons e es')
      with 1(2) obtain b where b: "e = Chunk b" "b \<noteq> []" "all_chunks es'" by auto
      have eq: "buf @ stream_bytes es = (buf @ b) @ stream_bytes es'" using Cons b by simp
      have step: "read_events E buf es = read_events E (buf @ b) es'"
        by (subst read_events.simps) (simp add: none Cons b)
      show ?thesis
        unfolding eq step
        by (rule 1(1) [OF none refl refl Cons b(1,2,3)]) (use 1(3) eq in simp)
    qed
  next
    case err
    then show ?thesis using parse_frame_Err_kind [OF err(1)]
      by (subst read_events.simps) (simp add: decode_stream_eq)
  next
    case panic
    then show ?thesis by (subst read_events.simps) (simp add: decode_stream_eq)
  qed
qed

lemma receive_all_stream:
  assumes "all_chunks es" and "fits E (buf @ stream_bytes es)"
  shows "receive_all E buf es = decode_stream E (buf @ stream_bytes es)"
  using assms
proof (induction E buf es rule: receive_all.induct)
  case (1 E buf es)
  note spec = read_events_stream [OF 1(2,3)]
  obtain r buf' es' where re: "read_events E buf es = (r, buf', es')" by (metis prod_cases3)
  show ?case
  proof (cases r)
    case (Ok o')
    show ?thesis
    proof (cases o')
      case None
      with re Ok spec show ?thesis by (subst receive_all.simps) simp
    next
      case (Some f)
      with re Ok spec have p: "all_chunks es'"
        "parse_frame E (buf @ stream_bytes es) = Ok (Some f, buf' @ stream_bytes es')" by simp_all
      have "fits E (buf' @ stream_bytes es')"
      proof (rule fits_mono [OF 1(3)])
        show "length (buf' @ stream_bytes es') \<le> length (buf @ stream_bytes es)"
          using parse_frame_Some [OF p(2)] by (metis length_drop diff_le_self)
      qed
      from 1(1) [OF re [symmetric] Ok Some refl p(1) this] Ok Some re p(2) show ?thesis
        by (subst receive_all.simps) (simp add: decode_stream_eq)
    qed
  next
    case (Err e)
    with re spec show ?thesis by (subst receive_all.simps) (cases e; simp)
  qed (use re spec in \<open>subst receive_all.simps, simp\<close>)+
qed

section \<open>Writing\<close>

lemma length_bdec_u64: "length (bdec (unat (v :: u64))) \<le> 20"
proof -
  have "unat v < 2 ^ 64" using unsigned_less [of v, where ?'a = nat] by simp
  then have "unat v < 10 ^ Suc 19" by simp
  from length_dec_digits [OF this] show ?thesis by (simp add: bdec_def)
qed

lemma write_all_ok:
  "write_faults c = [] \<Longrightarrow> write_all b c = (c\<lparr>pending := pending c @ b\<rparr>, Ok ())"
  by (simp add: write_all_def stream_op_def)

lemma write_decimal_ok:
  "write_faults c = [] \<Longrightarrow>
     write_decimal v c = (c\<lparr>pending := pending c @ line_bytes (bdec (unat v))\<rparr>, Ok ())"
  using length_bdec_u64 [of v] by (simp add: write_decimal_def write_all_ok line_bytes_def)

lemma write_value_ok:
  "wire_value f \<Longrightarrow> write_faults c = [] \<Longrightarrow>
     write_value f c = (c\<lparr>pending := pending c @ value_bytes f\<rparr>, Ok ())"
  by (cases f) (simp_all add: write_u8_def write_all_ok write_decimal_ok line_bytes_def
      usize_limit_def unat_of_nat take_bit_nat_eq_self_iff)

lemma write_entries_ok:
  "(\<forall>f \<in> set fs. wire_value f) \<Longrightarrow> write_faults c = [] \<Longrightarrow>
     write_entries fs c = (c\<lparr>pending := pending c @ concat (map value_bytes fs)\<rparr>, Ok ())"
  by (induction fs arbitrary: c) (simp_all add: write_value_ok)

lemma write_frame_ok:
  assumes "wire_frame f" and "write_faults c = []"
  shows "write_frame f c =
    (c\<lparr>pending := [], sent := sent c @ pending c @ frame_bytes f\<rparr>, Ok ())"
proof (cases f)
  case (Array fs)
  with assms show ?thesis
    by (simp add: write_frame_def write_u8_def write_all_ok write_decimal_ok write_entries_ok
        conn_flush_def stream_op_def usize_limit_def unat_of_nat take_bit_nat_eq_self_iff)
qed (use assms in \<open>simp_all add: write_frame_def write_value_ok conn_flush_def stream_op_def
    del: write_value.simps wire_value.simps\<close>)

section \<open>Reading back\<close>

lemma no_crlf_iff:
  "no_crlf s \<longleftrightarrow> (\<forall>j. Suc j < length s \<longrightarrow> \<not> (s ! j = 13 \<and> s ! Suc j = 10))"
proof (induction s rule: no_crlf.induct)
  case (1 a b s)
  show ?case unfolding no_crlf.simps 1
    by (auto simp: nth_Cons' less_Suc_eq_0_disj split: nat.splits)
qed auto

lemma no_crlf_bdec: "no_crlf (bdec n)"
proof -
  have "b \<noteq> 13" if "b \<in> set (bdec n)" for b
  proof
    assume "b = 13"
    with that have "unat (13 :: u8) \<in> set (map unat (bdec n))" by force
    then show False unfolding unat_bdec using dec_digits_range by fastforce
  qed
  then show ?thesis unfolding no_crlf_iff by (metis Suc_lessD nth_mem)
qed

lemma get_line_at:
  assumes "buf = pre @ line_bytes l @ post" and "p = length pre" and "no_crlf l"
  shows "get_line buf p = Ok (l, p + length (line_bytes l))"
proof -
  have at: "buf ! (p + j) = (l @ 13 # 10 # post) ! j" for j
    using assms by (simp add: line_bytes_def nth_append)
  have "\<not> crlf_at buf (p + j)" if "j < length l" for j
    using assms(3) that at [of j] at [of "Suc j"]
    by (auto simp: crlf_at_def no_crlf_iff nth_append split: if_splits) 
  moreover have "\<exists>j. i = p + j \<and> j < length l" if "p \<le> i" "i < p + length l" for i
    using that by (intro exI [of _ "i - p"]) auto
  moreover have "crlf_at buf (p + length l)"
    using at [of "length l"] at [of "Suc (length l)"] by (simp add: crlf_at_def nth_append)
  ultimately show ?thesis
    unfolding get_line_Ok_iff using assms(1,2)
    by (intro exI [of _ "p + length l"]) (auto simp: line_bytes_def)
qed

lemma get_decimal_at:
  assumes "buf = pre @ line_bytes (bdec (unat v)) @ post" and "p = length pre" and "atoi_law E"
  shows "get_decimal E buf p = Ok (v, p + length (line_bytes (bdec (unat v))))"
  using get_line_at [OF assms(1,2) no_crlf_bdec] assms(3)
  by (simp add: get_decimal_def atoi_law_def)

lemma get_u8_at: "buf = pre @ b # post \<Longrightarrow> p = length pre \<Longrightarrow> get_u8 buf p = Ok (b, Suc p)"
  by (simp add: get_u8_def)

lemma peek_u8_at: "buf = pre @ b # post \<Longrightarrow> p = length pre \<Longrightarrow> peek_u8 buf p = Ok b"
  by (simp add: peek_u8_def)

lemma bdec_head: "\<exists>b s. bdec n = b # s \<and> b \<noteq> 45"
proof -
  obtain b s where bs: "bdec n = b # s" by (cases "bdec n") (auto simp: bdec_def)
  have "b \<noteq> 45"
  proof
    assume "b = 45"
    with bs have "unat (45 :: u8) \<in> set (map unat (bdec n))" by simp
    then show False unfolding unat_bdec using dec_digits_range by fastforce
  qed
  with bs show ?thesis by blast
qed

lemma decode_value_at:
  assumes "buf = pre @ value_bytes f @ post" and "p = length pre"
    and "wire_value f" and "atoi_law E"
  shows "check_depth (Suc d) E buf p = Ok (p + length (value_bytes f)) \<and>
         parse_depth (Suc d) E buf p = Ok (f, p + length (value_bytes f))"
proof (cases f)
  case (Simple s)
  have "get_u8 buf p = Ok (43, Suc p)" using assms Simple by (intro get_u8_at) simp_all
  moreover have "get_line buf (Suc p) = Ok (s, Suc p + length (line_bytes s))"
    using assms Simple by (intro get_line_at [of _ "pre @ [43]" _ post]) simp_all
  ultimately show ?thesis using assms(3) Simple by (simp add: string_from_utf8_def)
next
  case (Error s)
  have "get_u8 buf p = Ok (45, Suc p)" using assms Error by (intro get_u8_at) simp_all
  moreover have "get_line buf (Suc p) = Ok (s, Suc p + length (line_bytes s))"
    using assms Error by (intro get_line_at [of _ "pre @ [45]" _ post]) simp_all
  ultimately show ?thesis using assms(3) Error by (simp add: string_from_utf8_def)
next
  case (Integer v)
  have "get_u8 buf p = Ok (58, Suc p)" using assms Integer by (intro get_u8_at) simp_all
  moreover have "get_decimal E buf (Suc p) = Ok (v, Suc p + length (line_bytes (bdec (unat v))))"
    using assms Integer by (intro get_decimal_at [of _ "pre @ [58]" _ post]) simp_all
  ultimately show ?thesis using Integer by simp
next
  case Null
  have "get_u8 buf p = Ok (36, Suc p)" using assms Null by (intro get_u8_at) simp_all
  moreover have "peek_u8 buf (Suc p) = Ok 45"
    using assms Null by (intro peek_u8_at [of _ "pre @ [36]" _ "[49, 13, 10] @ post"])
      (simp_all add: line_bytes_def)
  moreover have "get_line buf (Suc p) = Ok ([45, 49], Suc p + length (line_bytes [45, 49]))"
    using assms Null by (intro get_line_at [of _ "pre @ [36]" _ post]) simp_all
  moreover have "skip buf (Suc p) 4 = Ok (Suc p + 4)"
    using assms Null by (simp add: skip_def line_bytes_def)
  ultimately show ?thesis using Null by (simp add: line_bytes_def)
next
  case (Bulk b)
  let ?len = "of_nat (length b) :: u64"
  have small: "length b + 2 < 2 ^ 64" using assms(3) Bulk by (simp add: usize_limit_def)
  have len: "unat ?len = length b" using small by (intro unat_of_nat_u64) simp
  have n: "unat (?len + 2) = length b + 2" "\<not> usize_limit \<le> length b + 2"
    using small unat_of_nat_u64 [OF small] by (simp_all add: usize_limit_def add.commute)
  have u: "get_u8 buf p = Ok (36, Suc p)" using assms Bulk by (intro get_u8_at) simp_all
  obtain c s where cs: "bdec (length b) = c # s" "c \<noteq> 45" using bdec_head by blast
  have pk: "peek_u8 buf (Suc p) = Ok c"
    using assms Bulk cs
    by (intro peek_u8_at [of _ "pre @ [36]" _ "s @ [13, 10] @ line_bytes b @ post"])
      (simp_all add: line_bytes_def)
  let ?q = "Suc p + length (line_bytes (bdec (length b)))"
  have dec: "get_decimal E buf (Suc p) = Ok (?len, ?q)"
    using assms Bulk len
      get_decimal_at [of buf "pre @ [36]" ?len "line_bytes b @ post" "Suc p" E] by simp
  have "drop ?q buf = line_bytes b @ post" and "?q \<le> length buf"
    using assms Bulk by simp_all
  moreover from this have "length buf - ?q = length b + 2 + length post"
    by (metis length_append length_drop line_bytes_def list.size(3,4) add.assoc numeral_2_eq_2
        One_nat_def add_Suc_right add_0_right)
  ultimately show ?thesis
    using Bulk u pk cs(2) dec len n
    by (simp add: usize_add_def skip_def slice_to_def line_bytes_def)
next
  case (Array fs)
  with assms(3) show ?thesis by simp
qed

lemma decode_entries_at:
  assumes "atoi_law E"
  shows "buf = pre @ concat (map value_bytes fs) @ post \<Longrightarrow> p = length pre \<Longrightarrow>
      (\<forall>f \<in> set fs. wire_value f) \<Longrightarrow>
    repeat_check (check_depth (Suc d) E buf) (length fs) p =
      Ok (p + length (concat (map value_bytes fs))) \<and>
    repeat_parse (parse_depth (Suc d) E buf) (length fs) p =
      Ok (fs, p + length (concat (map value_bytes fs)))"
proof (induction fs arbitrary: pre p)
  case (Cons f fs)
  have b: "buf = pre @ value_bytes f @ concat (map value_bytes fs) @ post"
    using Cons.prems(1) by simp
  have "wire_value f" using Cons.prems(3) by simp
  from decode_value_at [OF b Cons.prems(2) this assms, of d]
    Cons.IH [of "pre @ value_bytes f" "p + length (value_bytes f)"] Cons.prems
  show ?case by (simp del: check_depth.simps parse_depth.simps)
qed simp

lemma decode_frame_at:
  assumes "buf = frame_bytes f @ post" and "wire_frame f" and "atoi_law E" and "fits E buf"
  shows "frame_check E buf 0 = Ok (length (frame_bytes f)) \<and>
         frame_parse E buf 0 = Ok (f, length (frame_bytes f))"
proof (cases f)
  case (Array fs)
  let ?n = "of_nat (length fs) :: u64"
  from Array assms have b: "buf = 42 # line_bytes (bdec (length fs)) @ concat (map value_bytes fs) @ post"
    by simp
  then obtain d where d: "length buf = Suc d" by simp
  have n: "unat ?n = length fs"
    using assms(2) Array by (intro unat_of_nat_u64) (simp add: usize_limit_def)
  have u: "get_u8 buf 0 = Ok (42, 1)" using b by (simp add: get_u8_def)
  let ?q = "1 + length (line_bytes (bdec (length fs)))"
  have dec: "get_decimal E buf 1 = Ok (?n, ?q)"
    using b n get_decimal_at [of buf "[42]" ?n "concat (map value_bytes fs) @ post" 1 E] assms(3)
    by simp
  have ent: "repeat_check (check_depth (Suc d) E buf) (length fs) ?q =
      Ok (?q + length (concat (map value_bytes fs))) \<and>
    repeat_parse (parse_depth (Suc d) E buf) (length fs) ?q =
      Ok (fs, ?q + length (concat (map value_bytes fs)))"
    using assms(2) Array b
    by (intro decode_entries_at [OF assms(3), of buf "42 # line_bytes (bdec (length fs))" fs post])
      simp_all
  have "?q + length fs \<le> ?q + length (concat (map value_bytes fs)) \<and>
      ?q + length (concat (map value_bytes fs)) \<le> length buf"
    by (rule repeat_check_bounds [OF _ conjunct1 [OF ent]])
      (erule check_depth_bounds, simp add: b)
  then have "with_capacity E (length fs) = Ok ()"
    using assms(4) by (intro with_capacity_Ok [of _ "length buf"]) (simp_all add: fits_def)
  then show ?thesis
    using Array u dec ent n by (simp add: frame_check_def frame_parse_def d
        del: check_depth.simps(2) parse_depth.simps(2)
        add: check_depth.simps(2) [of "Suc d"] parse_depth.simps(2) [of "Suc d"])
qed (use assms decode_value_at [of buf "[]" f post 0 E "length buf"] in
      \<open>simp_all add: frame_check_def frame_parse_def del: check_depth.simps parse_depth.simps\<close>)

lemma parse_frame_at:
  assumes "wire_frame f" and "atoi_law E" and "fits E (frame_bytes f @ post)"
  shows "parse_frame E (frame_bytes f @ post) = Ok (Some f, post)"
  using decode_frame_at [OF refl assms] by (simp add: parse_frame_def buf_advance_def)

lemma decode_stream_encoded:
  assumes "atoi_law E"
  shows "(\<forall>f \<in> set fs. wire_frame f) \<Longrightarrow> fits E (concat (map frame_bytes fs)) \<Longrightarrow>
    decode_stream E (concat (map frame_bytes fs)) = (fs, CleanEnd)"
proof (induction fs)
  case Nil
  have "parse_frame E [] = Ok (None, [])"
    by (simp add: parse_frame_def frame_check_def get_u8_def)
  then show ?case by (simp add: decode_stream_eq end_of_def)
next
  case (Cons f fs)
  from Cons.prems have p:
    "parse_frame E (concat (map frame_bytes (f # fs))) = Ok (Some f, concat (map frame_bytes fs))"
    using parse_frame_at [OF _ assms] by simp
  from Cons.prems have "fits E (concat (map frame_bytes fs))"
    by (auto elim: fits_mono)
  with Cons p show ?case by (simp add: decode_stream_eq)
qed

end
