(* ===== verification/Redis_Protocol.thy ===== *)
theory Redis_Protocol
  imports Redis_Wire
begin

text \<open>
  The properties of the frame decoder and of the connection. A concrete environment for the
  witnesses: \<open>env_ref\<close> with a reference \<open>atoi\<close>.
\<close>

section \<open>A reference environment\<close>

definition atoi_ref :: "bytes \<Rightarrow> u64 option" where
  "atoi_ref s = map_option of_nat (parse_unsigned usize_limit 10 (map unat s))"

definition env_ref :: "bool \<Rightarrow> redis_env" where
  "env_ref oc =
     \<lparr>overflow_checks = oc, frame_size = 32, atoi_u64 = atoi_ref, bytes_debug = (\<lambda>b. bstr ''?''),
      to_lowercase = map ascii_lower, to_uppercase = map ascii_upper\<rparr>"

lemma atoi_law_ref [simp]: "atoi_law (env_ref oc)"
proof -
  have "unat v < usize_limit" for v :: u64
    using unsigned_less [of v, where ?'a = nat] by (simp add: usize_limit_def)
  then show ?thesis
    by (simp add: atoi_law_def env_ref_def atoi_ref_def unat_bdec parse_unsigned_bdec)
qed

lemma case_law_ref [simp]: "case_law (env_ref oc)"
  by (simp add: case_law_def env_ref_def)

lemma fits_ref: "length buf < 1000000 \<Longrightarrow> fits (env_ref oc) buf"
  by (simp add: fits_def env_ref_def usize_limit_def)

section \<open>Decoding\<close>

text \<open>
  C12. \<open>check\<close> and \<open>parse\<close> never get out of step: when \<open>check\<close> accepts, it has moved forward and
  stayed inside the buffer, and \<open>parse\<close> started at the same place either builds a frame and stops at
  exactly the position where \<open>check\<close> stopped, or rejects the frame, or panics; it never runs on for
  ever, and \<open>check\<close> itself always comes to a verdict on any input.
\<close>

theorem redis_check_parse:
  assumes "fits E buf"
  shows "frame_check E buf p \<noteq> Diverge \<and>
    (\<forall>q. frame_check E buf p = Ok q \<longrightarrow> p < q \<and> q \<le> length buf \<and>
       (case frame_parse E buf p of
          Ok (f, q') \<Rightarrow> q' = q | Err e \<Rightarrow> True | Panic \<Rightarrow> True | Diverge \<Rightarrow> False))"
  using frame_parse_agrees [of E buf "[]" p] assms
  by (auto simp: frame_check_total frame_check_bounds agree_def)

theorem redis_check_parse_witness:
  "frame_check (env_ref True) [36, 45, 49, 13, 10] 0 = Ok 5 \<and>
   (case frame_parse (env_ref True) [36, 45, 49, 13, 10] 0 of
      Ok (f, q') \<Rightarrow> q' = 5 | Err e \<Rightarrow> True | Panic \<Rightarrow> True | Diverge \<Rightarrow> False)"
proof -
  have ok: "frame_check (env_ref True) [36, 45, 49, 13, 10] 0 = Ok 5"
    by (simp add: frame_check_def get_u8_def peek_u8_def skip_def)
  have "fits (env_ref True) [36, 45, 49, 13, 10]" by (rule fits_ref) simp
  from redis_check_parse [OF this, of 0] ok show ?thesis by blast
qed

text \<open>
  C9. The frames that a connection reads depend on the bytes of the stream only: cutting the same
  bytes into chunks in any other way gives the same frames in the same order and the same kind of
  end (closed between frames, closed inside a frame, rejected, panic).
\<close>

theorem redis_chunk_independent:
  assumes "all_chunks es" and "fits E (stream_bytes es)"
  shows "receive_all E [] es = decode_stream E (stream_bytes es)"
  using receive_all_stream [of es E "[]"] assms by simp

theorem redis_chunk_independent_witness:
  "receive_all (env_ref False) [] [Chunk (bstr ''$-''), Chunk (bstr ''1''), Chunk [13, 10]] =
   decode_stream (env_ref False)
     (stream_bytes [Chunk (bstr ''$-''), Chunk (bstr ''1''), Chunk [13, 10]])"
  by (rule redis_chunk_independent, simp, rule fits_ref) simp

fun write_frames :: "frame list \<Rightarrow> connection \<Rightarrow> unit conn_result" where
  "write_frames [] c = (c, Ok ())"
| "write_frames (f # fs) c = sbind (write_frame f c) (\<lambda>c _. write_frames fs c)"

lemma write_frames_ok:
  "(\<forall>f \<in> set fs. wire_frame f) \<Longrightarrow> write_faults c = [] \<Longrightarrow> pending c = [] \<Longrightarrow>
     write_frames fs c = (c\<lparr>sent := sent c @ concat (map frame_bytes fs)\<rparr>, Ok ())"
  by (induction fs arbitrary: c) (simp_all add: write_frame_ok del: frame_bytes.simps)

text \<open>
  C10. Round trip of the wire protocol: frames without nested arrays, whose strings are UTF-8 without
  a line break, are written without error, and a peer that gets the sent bytes in chunks of any size
  receives exactly these frames, in order, followed by a clean end of the stream.
\<close>

theorem redis_wire_roundtrip:
  assumes "atoi_law E" and "\<forall>f \<in> set fs. wire_frame f"
    and "write_frames fs (connection_new es0 []) = (c, r)"
    and "all_chunks es" and "stream_bytes es = sent c" and "fits E (sent c)"
  shows "r = Ok () \<and> pending c = [] \<and> receive_all E [] es = (fs, CleanEnd)"
proof -
  from assms(2,3) have c: "sent c = concat (map frame_bytes fs)" "pending c = []" "r = Ok ()"
    using write_frames_ok [OF assms(2), of "connection_new es0 []"]
    by (auto simp: connection_new_def)
  then show ?thesis
    using receive_all_stream [of es E "[]"] decode_stream_encoded [OF assms(1,2)] assms(4-6) by simp
qed

theorem redis_wire_roundtrip_witness:
  "receive_all (env_ref True) []
     [Chunk (bstr ''*1''), Chunk [13, 10, 58], Chunk (bstr ''7''), Chunk [13, 10]] =
   ([Array [Integer 7]], CleanEnd)"
proof -
  let ?fs = "[Array [Integer 7]]"
  let ?c = "connection_new [] []\<lparr>sent := concat (map frame_bytes ?fs)\<rparr>"
  have d: "dec_digits 7 = [55]" "dec_digits (Suc 0) = [49]"
    by (subst dec_digits.simps, simp)+
  have "write_frames ?fs (connection_new [] []) = (?c, Ok ())"
    using write_frames_ok [of ?fs "connection_new [] []"]
    by (simp add: connection_new_def usize_limit_def)
  from redis_wire_roundtrip [OF _ _ this, of "env_ref True"
      "[Chunk (bstr ''*1''), Chunk [13, 10, 58], Chunk (bstr ''7''), Chunk [13, 10]]"]
  show ?thesis
    by (simp add: usize_limit_def connection_new_def line_bytes_def bdec_def d fits_ref)
qed

section \<open>Hostile input\<close>

definition huge_length_at :: "redis_env \<Rightarrow> bytes \<Rightarrow> nat \<Rightarrow> bool" where
  \<comment> \<open>a bulk header whose length plus two exceeds the 64 bits of \<open>usize\<close>\<close>
  "huge_length_at E buf p \<longleftrightarrow>
     p < length buf \<and> buf ! p = 36 \<and> (\<exists>v q. get_decimal E buf (Suc p) = Ok (v, q) \<and> usize_limit \<le> unat v + 2)"

lemma check_depth_Panic: "check_depth d E buf p = Panic \<Longrightarrow> \<exists>i. huge_length_at E buf i"
proof (induction d arbitrary: p)
  case (Suc d)
  have rep: "repeat_check (check_depth d E buf) n q = Panic \<Longrightarrow> \<exists>i. huge_length_at E buf i" for n q
    by (induction n arbitrary: q) (auto simp: obind_Panic_iff dest: Suc.IH)
  from Suc.prems have p: "p < length buf"
    by (auto simp: get_u8_def not_le [symmetric] split: if_splits)
  then have ne: "buf \<noteq> []" by auto
  have gl: "get_line buf q \<noteq> Panic" for q by (simp add: get_line_def ne split: option.split)
  have gd: "get_decimal E buf q \<noteq> Panic" for q using get_decimal_not_Panic [OF ne] by blast
  have bulk: "\<exists>i. huge_length_at E buf i"
    if "get_decimal E buf (Suc p) = Ok (a, b)" "buf ! p = 36" "usize_limit \<le> Suc (Suc (unat a))" for a b
    using that p unfolding huge_length_at_def by (intro exI [of _ p]) auto
  from Suc.prems show ?case
    by (auto simp: obind_Panic_iff get_u8_Ok get_u8_def peek_u8_def skip_def usize_add_def gl gd
        split: if_splits dest: rep intro: bulk)
qed simp

lemma repeat_Panic:
  assumes "\<And>p q. f p = Ok q \<Longrightarrow> agree q (g p) (g p)"
  shows "repeat_check f n p = Ok q \<Longrightarrow> repeat_parse g n p = Panic \<Longrightarrow>
    \<exists>p' q'. f p' = Ok q' \<and> g p' = Panic"
proof (induction n arbitrary: p)
  case (Suc n)
  then obtain r where r: "f p = Ok r" "repeat_check f n r = Ok q" by (auto simp: obind_Ok_iff)
  from assms [OF r(1)] consider x where "g p = Ok (x, r)" | e where "g p = Err e" | "g p = Panic"
    by (auto simp: agree_def)
  then show ?case
  proof cases
    case 1
    with Suc.prems(2) have "repeat_parse g n r = Panic" by (auto simp: obind_Panic_iff)
    with Suc.IH [OF r(2)] show ?thesis by simp
  qed (use Suc.prems r in auto)
qed simp

lemma parse_depth_Panic:
  assumes "fits E buf"
  shows "check_depth d E buf p = Ok q \<Longrightarrow> parse_depth d E buf p = Panic \<Longrightarrow>
    \<exists>i. huge_length_at E buf i"
proof (induction d arbitrary: p q)
  case (Suc d)
  note prems = Suc.prems
  from prems(1) have "p < length buf" by (auto simp: obind_Ok_iff get_u8_Ok)
  then have p: "get_u8 buf p = Ok (buf ! p, Suc p)" "buf \<noteq> []" "p < length buf"
    by (auto simp: get_u8_def)
  have gl: "get_line buf q \<noteq> Panic" for q by (simp add: get_line_def p split: option.split)
  have gd: "get_decimal E buf q \<noteq> Panic" for q using get_decimal_not_Panic [OF p(2)] by blast
  show ?case
  proof (cases "buf ! p = 42")
    case True
    then obtain len r where len: "get_decimal E buf (Suc p) = Ok (len, r)"
      "repeat_check (check_depth d E buf) (unat len) r = Ok q"
      using prems(1) p by (auto simp: obind_Ok_iff)
    have "r + unat len \<le> q \<and> q \<le> length buf"
      by (rule repeat_check_bounds [OF _ len(2)])
        (use get_decimal_bounds [OF len(1)] in \<open>auto dest: check_depth_bounds\<close>)
    then have "with_capacity E (unat len) = Ok ()"
      using assms by (intro with_capacity_Ok [of _ "length buf"]) (auto simp: fits_def)
    with prems(2) True p len have "repeat_parse (parse_depth d E buf) (unat len) r = Panic"
      by (auto simp: obind_Panic_iff)
    moreover have "agree q (parse_depth d E buf p) (parse_depth d E buf p)"
      if "check_depth d E buf p = Ok q" for p q
      using parse_agrees [of E buf "[]" d p q d] assms that by simp
    ultimately show ?thesis using repeat_Panic [OF _ len(2)] Suc.IH by metis
  next
    case False
    show ?thesis
    proof (cases "buf ! p = 36")
      case True
      then obtain len r n where len: "get_decimal E buf (Suc p) = Ok (len, r)"
        "usize_add E len 2 = Ok n" "skip buf r (unat n) = Ok q" "length (drop r buf) < unat len"
        using prems p
        by (auto simp: obind_Ok_iff obind_Panic_iff peek_u8_def gl gd slice_to_def skip_def
            split: if_splits)
      then have "usize_limit \<le> unat len + 2"
        by (intro wrapped_len) (auto simp: usize_add_Ok skip_Ok)
      with True len(1) p(3) show ?thesis by (auto simp: huge_length_at_def)
    next
      case no: False
      with prems False p show ?thesis
        by (auto simp: obind_Panic_iff gl gd string_from_utf8_def split: if_splits)
    qed
  qed
qed simp

text \<open>
  C13. The only bytes that make a read panic are a bulk header whose announced length is at least
  2^64 - 2: on every other buffer \<open>parse_frame\<close> returns, with a frame, a request for more bytes or
  an error; indexing, slicing, \<open>advance\<close>, the allocation of an array and \<open>unimplemented!\<close> are safe.
\<close>

theorem redis_parse_frame_returns:
  assumes "fits E buf" and "\<not> (\<exists>i. huge_length_at E buf i)"
  shows "returns (parse_frame E buf)"
proof (cases "frame_check E buf 0")
  case (Ok q)
  then have "q \<le> length buf" using frame_check_bounds by blast
  moreover have "frame_parse E buf 0 \<noteq> Panic"
    using Ok parse_depth_Panic [OF assms(1)] assms(2)
    unfolding frame_check_def frame_parse_def by blast
  moreover have "agree q (frame_parse E buf 0) (frame_parse E buf 0)"
    using frame_parse_agrees [of E buf "[]"] Ok assms(1) by simp
  ultimately show ?thesis using Ok by (auto simp: parse_frame_def agree_def buf_advance_def)
next
  case (Err e)
  then show ?thesis by (cases e) (simp_all add: parse_frame_def)
next
  case Panic
  then show ?thesis using check_depth_Panic assms(2) unfolding frame_check_def by blast
qed (use frame_check_total in blast)

theorem redis_parse_frame_returns_witness:
  "returns (parse_frame (env_ref True) (bstr ''*1'' @ [13, 10] @ bstr ''+x''))"
proof (rule redis_parse_frame_returns)
  have "36 \<notin> set (bstr ''*1'' @ [13, 10] @ bstr ''+x'')" by simp
  then show "\<not> (\<exists>i. huge_length_at (env_ref True) (bstr ''*1'' @ [13, 10] @ bstr ''+x'') i)"
    by (metis huge_length_at_def nth_mem)
qed (rule fits_ref, simp)

lemma huge_header:
  assumes "atoi_law E" and "buf = 36 # line_bytes (bdec (unat (- 1 :: u64))) @ b # rest"
  shows "get_decimal E buf 1 = Ok (- 1, 1 + length (line_bytes (bdec (unat (- 1 :: u64)))))"
    and "\<exists>c. peek_u8 buf 1 = Ok c \<and> c \<noteq> 45"
proof -
  show "get_decimal E buf 1 = Ok (- 1, 1 + length (line_bytes (bdec (unat (- 1 :: u64)))))"
    using assms by (intro get_decimal_at [of _ "[36]" _ "b # rest"]) simp_all
  obtain c s where "bdec (unat (- 1 :: u64)) = c # s" "c \<noteq> 45" using bdec_head by blast
  then show "\<exists>c. peek_u8 buf 1 = Ok c \<and> c \<noteq> 45"
    using assms(2) by (simp add: peek_u8_def line_bytes_def)
qed

text \<open>
  The length of a bulk string is added to 2 without a check: the 23 bytes
  \<open>$18446744073709551615\<close> with a line break, followed by any byte, panic in every build, by the
  overflow check where there is one and otherwise by a slice past the end, because the wrapped sum
  passes \<open>check\<close>.
\<close>

theorem redis_huge_bulk_panics:
  assumes "atoi_law E" and "fits E (36 # line_bytes (bdec (unat (- 1 :: u64))) @ b # rest)"
  shows "parse_frame E (36 # line_bytes (bdec (unat (- 1 :: u64))) @ b # rest) = Panic \<and>
    (\<not> overflow_checks E \<longrightarrow>
       returns (frame_check E (36 # line_bytes (bdec (unat (- 1 :: u64))) @ b # rest) 0))"
proof -
  let ?buf = "36 # line_bytes (bdec (unat (- 1 :: u64))) @ b # rest"
  let ?q = "1 + length (line_bytes (bdec (unat (- 1 :: u64))))"
  from huge_header [OF assms(1) refl, of b rest] obtain c where
    dec: "get_decimal E ?buf 1 = Ok (- 1, ?q)" and c: "peek_u8 ?buf 1 = Ok c" "c \<noteq> 45" by blast
  have u: "get_u8 ?buf 0 = Ok (36, 1)" by (simp add: get_u8_def)
  have big: "unat (- 1 :: u64) = usize_limit - 1"
    by (simp add: usize_limit_def unsigned_minus_1_eq_mask mask_eq_exp_minus_1)
  then have ov: "usize_limit \<le> unat (- 1 :: u64) + 2" by simp
  show ?thesis
  proof (cases "overflow_checks E")
    case True
    then show ?thesis using u c dec ov
      by (simp add: parse_frame_def frame_check_def usize_add_def)
  next
    case False
    have wrap: "unat (- 1 + 2 :: u64) = 1" by simp
    have "length ?buf + 2 < usize_limit" using assms(2) unfolding fits_def by blast
    then have short: "length (b # rest) < unat (- 1 :: u64)" unfolding big by simp
    have d: "drop ?q ?buf = b # rest" and l: "length ?buf - ?q = Suc (length rest)" by simp_all
    show ?thesis using False u c dec wrap d l short
      by (simp add: parse_frame_def frame_check_def frame_parse_def usize_add_def skip_def
          slice_to_def)
  qed
qed

theorem redis_huge_bulk_panics_witness:
  "parse_frame (env_ref False) (36 # line_bytes (bdec (unat (- 1 :: u64))) @ 120 # []) = Panic"
proof -
  have "length (bdec (unat (- 1 :: u64))) \<le> 20" by (rule length_bdec_u64)
  then have "fits (env_ref False) (36 # line_bytes (bdec (unat (- 1 :: u64))) @ 120 # [])"
    by (intro fits_ref) (simp add: line_bytes_def)
  from redis_huge_bulk_panics [OF atoi_law_ref this] show ?thesis by blast
qed

definition nested_headers :: "nat \<Rightarrow> bytes" where
  "nested_headers n = concat (replicate n (42 # line_bytes (bdec 1)))"

lemma bdec_1: "bdec 1 = [49]"
  unfolding bdec_def by (subst dec_digits.simps) simp

lemma length_nested_headers: "length (nested_headers n) = 4 * n"
  by (induction n) (simp_all add: nested_headers_def line_bytes_def bdec_1 [simplified])

lemma nested_headers_add: "nested_headers (m + n) = nested_headers m @ nested_headers n"
  by (simp add: nested_headers_def replicate_add)

lemma nested_headers_deep:
  assumes "atoi_law E"
  shows "check_depth d E (nested_headers (d + k)) (4 * k) = Diverge"
proof (induction d arbitrary: k)
  case (Suc d)
  let ?buf = "nested_headers (Suc d + k)"
  have "?buf = nested_headers k @ nested_headers (Suc d)"
    by (simp only: nested_headers_add [symmetric] add.commute)
  then have b: "?buf = nested_headers k @ 42 # line_bytes (bdec (unat (1 :: u64))) @ nested_headers d"
    by (simp add: nested_headers_def)
  have u: "get_u8 ?buf (4 * k) = Ok (42, Suc (4 * k))"
    by (rule get_u8_at [OF b]) (simp add: length_nested_headers)
  have "get_decimal E ?buf (Suc (4 * k)) =
      Ok (1, Suc (4 * k) + length (line_bytes (bdec (unat (1 :: u64)))))"
    by (rule get_decimal_at [of _ "nested_headers k @ [42]" _ "nested_headers d"])
      (use b in \<open>simp_all add: length_nested_headers assms\<close>)
  then have dec: "get_decimal E ?buf (Suc (4 * k)) = Ok (1, 4 * Suc k)"
    by (simp add: line_bytes_def bdec_1 [simplified])
  have "check_depth d E ?buf (4 * Suc k) = Diverge"
    using Suc.IH [of "Suc k"] by simp
  with u dec show ?case by simp
qed simp

text \<open>
  Nothing but the size of the input bounds the recursion of the decoders: for every depth there
  is an input of four bytes per level on which \<open>check\<close> has not returned after that many nested
  calls, so a peer chooses how much of the stack a read uses.
\<close>

theorem redis_recursion_unbounded:
  assumes "atoi_law E"
  shows "\<exists>buf. length buf = 4 * d \<and> check_depth d E buf 0 = Diverge \<and> frame_check E buf 0 \<noteq> Diverge"
proof (intro exI conjI)
  show "length (nested_headers d) = 4 * d" by (rule length_nested_headers)
  show "check_depth d E (nested_headers d) 0 = Diverge"
    using nested_headers_deep [OF assms, of d 0] by (simp del: check_depth.simps)
  show "frame_check E (nested_headers d) 0 \<noteq> Diverge" by (rule frame_check_total)
qed

theorem redis_recursion_unbounded_witness:
  "\<exists>buf. length buf = 4 * 10000 \<and> check_depth 10000 (env_ref False) buf 0 = Diverge \<and>
     frame_check (env_ref False) buf 0 \<noteq> Diverge"
  by (rule redis_recursion_unbounded) simp

end
