(* ===== verification/Redis_Command.thy ===== *)
theory Redis_Command
  imports Redis_Protocol
begin

text \<open>
  Commands and their frames (\<open>parse.rs\<close> and \<open>cmd/\<close>): the cursor \<open>Parse\<close> over the entries of an
  array frame, \<open>Command::from_frame\<close> with the parsers of the single commands, and the \<open>into_frame\<close>
  of every command that a client sends. A \<open>Duration\<close> is its number of nanoseconds.
\<close>

section \<open>The cursor over an array frame\<close>

type_synonym parse = "frame list"

datatype parse_error = EndOfStream | ParseOther redis_error

fun from_parse_error :: "parse_error \<Rightarrow> redis_error" where
  "from_parse_error EndOfStream = UnexpectedEndOfStream"
| "from_parse_error (ParseOther e) = e"

type_synonym 'a parse_result = "(parse_error, 'a \<times> parse) outcome"

fun parse_new :: "frame \<Rightarrow> (parse_error, parse) outcome" where
  "parse_new (Array a) = Ok a"
| "parse_new f = Err (ParseOther (ExpectedArray f))"

fun next_frame :: "parse \<Rightarrow> frame parse_result" where
  "next_frame [] = Err EndOfStream"
| "next_frame (f # p) = Ok (f, p)"

definition next_string :: "parse \<Rightarrow> bytes parse_result" where
  "next_string p =
     obind (next_frame p) (\<lambda>(f, p).
       case f of
         Simple s \<Rightarrow> Ok (s, p)
       | Bulk data \<Rightarrow> if valid_utf8 data then Ok (data, p) else Err (ParseOther InvalidString)
       | f \<Rightarrow> Err (ParseOther (ExpectedString f)))"

definition next_bytes :: "parse \<Rightarrow> bytes parse_result" where
  "next_bytes p =
     obind (next_frame p) (\<lambda>(f, p).
       case f of
         Simple s \<Rightarrow> Ok (s, p)
       | Bulk data \<Rightarrow> Ok (data, p)
       | f \<Rightarrow> Err (ParseOther (ExpectedString f)))"

definition int_of_text :: "redis_env \<Rightarrow> bytes \<Rightarrow> parse \<Rightarrow> u64 parse_result" where
  "int_of_text E data p =
     (case atoi_u64 E data of Some v \<Rightarrow> Ok (v, p) | None \<Rightarrow> Err (ParseOther InvalidNumber))"

definition next_int :: "redis_env \<Rightarrow> parse \<Rightarrow> u64 parse_result" where
  "next_int E p =
     obind (next_frame p) (\<lambda>(f, p).
       case f of
         Integer v \<Rightarrow> Ok (v, p)
       | Simple data \<Rightarrow> int_of_text E data p
       | Bulk data \<Rightarrow> int_of_text E data p
       | f \<Rightarrow> Err (ParseOther (ExpectedInt f)))"

definition parse_finish :: "parse \<Rightarrow> (parse_error, unit) outcome" where
  "parse_finish p = (if p = [] then Ok () else Err (ParseOther ExpectedEndOfFrame))"

section \<open>Commands\<close>

datatype command =
    Get bytes
  | Publish bytes bytes
  | Set bytes bytes "nat option"
  | Subscribe "bytes list"
  | Unsubscribe "bytes list"
  | Ping "bytes option"
  | Unknown bytes

definition get_parse_frames :: "parse \<Rightarrow> command parse_result" where
  "get_parse_frames p = obind (next_string p) (\<lambda>(key, p). Ok (Get key, p))"

definition publish_parse_frames :: "parse \<Rightarrow> command parse_result" where
  "publish_parse_frames p =
     obind (next_string p) (\<lambda>(channel, p).
       obind (next_bytes p) (\<lambda>(message, p). Ok (Publish channel message, p)))"

definition duration_from_secs :: "u64 \<Rightarrow> nat" where
  "duration_from_secs s = unat s * 1000000000"

definition duration_from_millis :: "u64 \<Rightarrow> nat" where
  "duration_from_millis ms = unat ms * 1000000"

definition duration_as_millis_u64 :: "nat \<Rightarrow> u64" where
  \<comment> \<open>\<open>as_millis() as u64\<close>, which keeps the low 64 bits\<close>
  "duration_as_millis_u64 d = of_nat (d div 1000000)"

definition set_parse_frames :: "redis_env \<Rightarrow> parse \<Rightarrow> command parse_result" where
  "set_parse_frames E p =
     obind (next_string p) (\<lambda>(key, p).
       obind (next_bytes p) (\<lambda>(val, p).
         case next_string p of
           Ok (s, p) \<Rightarrow>
             if to_uppercase E s = bstr ''EX'' then
               obind (next_int E p) (\<lambda>(secs, p). Ok (Set key val (Some (duration_from_secs secs)), p))
             else if to_uppercase E s = bstr ''PX'' then
               obind (next_int E p) (\<lambda>(ms, p). Ok (Set key val (Some (duration_from_millis ms)), p))
             else Err (ParseOther UnsupportedSetOption)
         | Err EndOfStream \<Rightarrow> Ok (Set key val None, p)
         | Err e \<Rightarrow> Err e
         | Panic \<Rightarrow> Panic
         | Diverge \<Rightarrow> Diverge))"

fun next_strings :: "parse \<Rightarrow> bytes list parse_result" where
  \<comment> \<open>the loop that consumes the remaining entries as channel names\<close>
  "next_strings [] = Ok ([], [])"
| "next_strings (f # p) =
     obind (next_string (f # p)) (\<lambda>(s, _).
       obind (next_strings p) (\<lambda>(ss, q). Ok (s # ss, q)))"

definition subscribe_parse_frames :: "parse \<Rightarrow> command parse_result" where
  "subscribe_parse_frames p =
     obind (next_string p) (\<lambda>(s, p).
       obind (next_strings p) (\<lambda>(ss, p). Ok (Subscribe (s # ss), p)))"

definition unsubscribe_parse_frames :: "parse \<Rightarrow> command parse_result" where
  "unsubscribe_parse_frames p = obind (next_strings p) (\<lambda>(ss, p). Ok (Unsubscribe ss, p))"

definition ping_parse_frames :: "parse \<Rightarrow> command parse_result" where
  "ping_parse_frames p =
     (case next_bytes p of
        Ok (msg, p) \<Rightarrow> Ok (Ping (Some msg), p)
      | Err EndOfStream \<Rightarrow> Ok (Ping None, p)
      | Err e \<Rightarrow> Err e
      | Panic \<Rightarrow> Panic
      | Diverge \<Rightarrow> Diverge)"

definition finished :: "command parse_result \<Rightarrow> (parse_error, command) outcome" where
  \<comment> \<open>the \<open>finish\<close> after the match of a known command\<close>
  "finished r = obind r (\<lambda>(cmd, p). obind (parse_finish p) (\<lambda>_. Ok cmd))"

definition command_of :: "redis_env \<Rightarrow> frame \<Rightarrow> (parse_error, command) outcome" where
  "command_of E f =
     obind (parse_new f) (\<lambda>p.
       obind (next_string p) (\<lambda>(s, p).
         let command_name = to_lowercase E s in
         if command_name = bstr ''get'' then finished (get_parse_frames p)
         else if command_name = bstr ''publish'' then finished (publish_parse_frames p)
         else if command_name = bstr ''set'' then finished (set_parse_frames E p)
         else if command_name = bstr ''subscribe'' then finished (subscribe_parse_frames p)
         else if command_name = bstr ''unsubscribe'' then finished (unsubscribe_parse_frames p)
         else if command_name = bstr ''ping'' then finished (ping_parse_frames p)
         else Ok (Unknown command_name)))"

definition from_frame :: "redis_env \<Rightarrow> frame \<Rightarrow> (redis_error, command) outcome" where
  "from_frame E f = omap_err from_parse_error (command_of E f)"

fun get_name :: "command \<Rightarrow> bytes" where
  "get_name (Get _) = bstr ''get''"
| "get_name (Publish _ _) = bstr ''pub''"
| "get_name (Set _ _ _) = bstr ''set''"
| "get_name (Subscribe _) = bstr ''subscribe''"
| "get_name (Unsubscribe _) = bstr ''unsubscribe''"
| "get_name (Ping _) = bstr ''ping''"
| "get_name (Unknown name) = name"

section \<open>Requests\<close>

definition get_into_frame :: "bytes \<Rightarrow> (redis_error, frame) outcome" where
  "get_into_frame key =
     obind (push_bulk frame_array (bstr ''get'')) (\<lambda>f. push_bulk f key)"

definition set_into_frame :: "bytes \<Rightarrow> bytes \<Rightarrow> nat option \<Rightarrow> (redis_error, frame) outcome" where
  "set_into_frame key val expire =
     obind (push_bulk frame_array (bstr ''set'')) (\<lambda>f.
       obind (push_bulk f key) (\<lambda>f.
         obind (push_bulk f val) (\<lambda>f.
           case expire of
             Some ms \<Rightarrow>
               obind (push_bulk f (bstr ''px'')) (\<lambda>f. push_int f (duration_as_millis_u64 ms))
           | None \<Rightarrow> Ok f)))"

definition publish_into_frame :: "bytes \<Rightarrow> bytes \<Rightarrow> (redis_error, frame) outcome" where
  "publish_into_frame channel message =
     obind (push_bulk frame_array (bstr ''publish'')) (\<lambda>f.
       obind (push_bulk f channel) (\<lambda>f. push_bulk f message))"

definition ping_into_frame :: "bytes option \<Rightarrow> (redis_error, frame) outcome" where
  "ping_into_frame msg =
     obind (push_bulk frame_array (bstr ''ping'')) (\<lambda>f.
       case msg of Some m \<Rightarrow> push_bulk f m | None \<Rightarrow> Ok f)"

fun push_all :: "frame \<Rightarrow> bytes list \<Rightarrow> (redis_error, frame) outcome" where
  "push_all f [] = Ok f"
| "push_all f (c # cs) = obind (push_bulk f c) (\<lambda>f. push_all f cs)"

definition subscribe_into_frame :: "bytes list \<Rightarrow> (redis_error, frame) outcome" where
  "subscribe_into_frame channels =
     obind (push_bulk frame_array (bstr ''subscribe'')) (\<lambda>f. push_all f channels)"

definition unsubscribe_into_frame :: "bytes list \<Rightarrow> (redis_error, frame) outcome" where
  "unsubscribe_into_frame channels =
     obind (push_bulk frame_array (bstr ''unsubscribe'')) (\<lambda>f. push_all f channels)"

fun request_frame :: "command \<Rightarrow> (redis_error, frame) outcome" where
  \<comment> \<open>the frame that the client sends for a command; there is none for \<open>Unknown\<close>\<close>
  "request_frame (Get key) = get_into_frame key"
| "request_frame (Publish channel message) = publish_into_frame channel message"
| "request_frame (Set key val expire) = set_into_frame key val expire"
| "request_frame (Subscribe channels) = subscribe_into_frame channels"
| "request_frame (Unsubscribe channels) = unsubscribe_into_frame channels"
| "request_frame (Ping msg) = ping_into_frame msg"
| "request_frame (Unknown name) = Panic"

section \<open>Lemmas\<close>

lemma next_frame_returns [simp]: "returns (next_frame p)"
  by (cases p) simp_all

lemma next_string_returns [simp]: "returns (next_string p)"
  by (auto simp: next_string_def returns_obind split: frame.splits)

lemma next_bytes_returns [simp]: "returns (next_bytes p)"
  by (auto simp: next_bytes_def returns_obind split: frame.splits)

lemma next_int_returns [simp]: "returns (next_int E p)"
  by (auto simp: next_int_def int_of_text_def returns_obind split: frame.splits option.splits)

lemma next_strings_returns [simp]: "returns (next_strings p)"
  by (induction p) (auto simp: returns_obind)

lemma finished_returns: "returns r \<Longrightarrow> returns (finished r)"
  by (auto simp: finished_def parse_finish_def returns_obind)

lemma set_parse_frames_returns: "returns (set_parse_frames E p)"
proof -
  have "next_string q \<noteq> Panic \<and> next_string q \<noteq> Diverge" for q
    using next_string_returns [unfolded returns_iff] .
  then show ?thesis
    by (auto simp: set_parse_frames_def returns_obind split: outcome.splits parse_error.splits)
qed

lemma ping_parse_frames_returns: "returns (ping_parse_frames p)"
  using next_bytes_returns [unfolded returns_iff, of p]
  by (auto simp: ping_parse_frames_def split: outcome.splits parse_error.splits)

lemma command_of_returns: "returns (command_of E f)"
proof -
  have "returns (parse_new f)" by (cases f) simp_all
  then show ?thesis
    by (auto simp: command_of_def returns_obind Let_def get_parse_frames_def
        publish_parse_frames_def subscribe_parse_frames_def unsubscribe_parse_frames_def
        intro!: finished_returns set_parse_frames_returns ping_parse_frames_returns)
qed

lemma push_all_Array: "push_all (Array v) cs = Ok (Array (v @ map Bulk cs))"
  by (induction cs arbitrary: v) simp_all

lemma next_strings_Bulk: "(\<forall>c \<in> set cs. valid_utf8 c) \<Longrightarrow> next_strings (map Bulk cs) = Ok (cs, [])"
  by (induction cs) (simp_all add: next_string_def)

lemma ascii_names: "ascii (bstr ''get'')" "ascii (bstr ''set'')" "ascii (bstr ''publish'')"
  "ascii (bstr ''subscribe'')" "ascii (bstr ''unsubscribe'')" "ascii (bstr ''ping'')"
  "ascii (bstr ''px'')"
  by simp_all

section \<open>Properties\<close>

fun wf_command :: "command \<Rightarrow> bool" where
  \<comment> \<open>what the Rust types of a client's command guarantee, and a channel to subscribe to\<close>
  "wf_command (Get key) \<longleftrightarrow> valid_utf8 key"
| "wf_command (Publish channel message) \<longleftrightarrow> valid_utf8 channel"
| "wf_command (Set key val expire) \<longleftrightarrow> valid_utf8 key"
| "wf_command (Subscribe channels) \<longleftrightarrow> channels \<noteq> [] \<and> (\<forall>c \<in> set channels. valid_utf8 c)"
| "wf_command (Unsubscribe channels) \<longleftrightarrow> (\<forall>c \<in> set channels. valid_utf8 c)"
| "wf_command (Ping msg) \<longleftrightarrow> True"
| "wf_command (Unknown name) \<longleftrightarrow> False"

fun on_wire :: "command \<Rightarrow> command" where
  \<comment> \<open>an expiration travels as a 64 bit number of milliseconds\<close>
  "on_wire (Set key val (Some d)) = Set key val (Some (d div 1000000 mod 2 ^ 64 * 1000000))"
| "on_wire c = c"

lemma command_of_request:
  assumes "case_law E" and "ascii name" and "map ascii_lower name = name"
  shows "command_of E (Array (Bulk name # args)) =
    (if name = bstr ''get'' then finished (get_parse_frames args)
     else if name = bstr ''publish'' then finished (publish_parse_frames args)
     else if name = bstr ''set'' then finished (set_parse_frames E args)
     else if name = bstr ''subscribe'' then finished (subscribe_parse_frames args)
     else if name = bstr ''unsubscribe'' then finished (unsubscribe_parse_frames args)
     else if name = bstr ''ping'' then finished (ping_parse_frames args)
     else Ok (Unknown name))"
  using assms by (simp add: command_of_def next_string_def ascii_utf8 case_law_def Let_def
      del: bstr_simps)

lemma lower_names:
  "map ascii_lower (bstr ''get'') = bstr ''get''" "map ascii_lower (bstr ''set'') = bstr ''set''"
  "map ascii_lower (bstr ''publish'') = bstr ''publish''"
  "map ascii_lower (bstr ''subscribe'') = bstr ''subscribe''"
  "map ascii_lower (bstr ''unsubscribe'') = bstr ''unsubscribe''"
  "map ascii_lower (bstr ''ping'') = bstr ''ping''"
  by (simp_all add: ascii_lower_def)

lemma upper_px:
  assumes "case_law E"
  shows "to_uppercase E (bstr ''px'') = bstr ''PX''" "bstr ''PX'' \<noteq> bstr ''EX''"
  using assms ascii_names(7) by (simp_all add: case_law_def ascii_upper_def)

lemma request_roundtrip:
  assumes "case_law E" and "wf_command c"
  shows "\<exists>f. request_frame c = Ok f \<and> from_frame E f = Ok (on_wire c)"
proof -
  note cmd = command_of_request [OF assms(1)] ascii_names lower_names
  have px: "next_string (Bulk (bstr ''px'') # p) = Ok (bstr ''px'', p)" for p
    by (simp add: next_string_def)
  have ne: "bstr ''publish'' \<noteq> bstr ''get''" "bstr ''set'' \<noteq> bstr ''get''"
    "bstr ''set'' \<noteq> bstr ''publish''" "bstr ''subscribe'' \<noteq> bstr ''get''"
    "bstr ''subscribe'' \<noteq> bstr ''publish''" "bstr ''subscribe'' \<noteq> bstr ''set''"
    "bstr ''unsubscribe'' \<noteq> bstr ''get''" "bstr ''unsubscribe'' \<noteq> bstr ''publish''"
    "bstr ''unsubscribe'' \<noteq> bstr ''set''" "bstr ''unsubscribe'' \<noteq> bstr ''subscribe''"
    "bstr ''ping'' \<noteq> bstr ''get''" "bstr ''ping'' \<noteq> bstr ''publish''"
    "bstr ''ping'' \<noteq> bstr ''set''" "bstr ''ping'' \<noteq> bstr ''subscribe''"
    "bstr ''ping'' \<noteq> bstr ''unsubscribe''"
    by simp_all
  show ?thesis
  proof (cases c)
    case (Get key)
    with assms(2) show ?thesis
      by (simp add: from_frame_def get_into_frame_def frame_array_def cmd get_parse_frames_def
          next_string_def finished_def parse_finish_def del: bstr_simps)
  next
    case (Publish channel message)
    with assms(2) show ?thesis
      by (simp add: from_frame_def publish_into_frame_def frame_array_def cmd ne
          publish_parse_frames_def next_string_def next_bytes_def finished_def parse_finish_def
          del: bstr_simps)
  next
    case (Set key val expire)
    have k: "next_string (Bulk key # p) = Ok (key, p)" for p
      using Set assms(2) by (simp add: next_string_def)
    have i: "next_int E [Integer v] = Ok (v, [])" for v by (simp add: next_int_def)
    show ?thesis
      using Set by (cases expire) (simp_all add: from_frame_def set_into_frame_def frame_array_def
          cmd ne set_parse_frames_def k px i next_bytes_def upper_px [OF assms(1)] finished_def
          parse_finish_def duration_from_millis_def duration_as_millis_u64_def unat_of_nat
          next_string_def [of "[]"] del: bstr_simps)
  next
    case (Subscribe channels)
    then obtain c cs where "channels = c # cs" using assms(2) by (cases channels) auto
    with Subscribe assms(2) show ?thesis
      by (simp add: from_frame_def subscribe_into_frame_def frame_array_def cmd ne push_all_Array
          subscribe_parse_frames_def next_strings_Bulk next_string_def finished_def
          parse_finish_def del: bstr_simps)
  next
    case (Unsubscribe channels)
    with assms(2) show ?thesis
      by (simp add: from_frame_def unsubscribe_into_frame_def frame_array_def cmd ne push_all_Array
          unsubscribe_parse_frames_def next_strings_Bulk finished_def parse_finish_def
          del: bstr_simps)
  next
    case (Ping msg)
    then show ?thesis
      by (cases msg) (simp_all add: from_frame_def ping_into_frame_def frame_array_def cmd ne
          ping_parse_frames_def next_bytes_def finished_def parse_finish_def del: bstr_simps)
  qed (use assms(2) in simp)
qed

text \<open>
  C11. Round trip of the commands: the frame that a client builds for a command is parsed by the
  server as the same command, with the expiration of a \<open>SET\<close> cut to whole milliseconds modulo 2^64
  (so a time to live below one millisecond arrives as zero).
\<close>

theorem redis_command_roundtrip:
  assumes "case_law E" and "wf_command c"
  shows "\<exists>f. request_frame c = Ok f \<and> from_frame E f = Ok (on_wire c)"
  by (rule request_roundtrip [OF assms])

theorem redis_command_roundtrip_witness:
  "\<exists>f. request_frame (Set (bstr ''k'') [255, 0] (Some 999999)) = Ok f \<and>
     from_frame (env_ref True) f = Ok (Set (bstr ''k'') [255, 0] (Some 0))"
  using redis_command_roundtrip [of "env_ref True" "Set (bstr ''k'') [255, 0] (Some 999999)"] by simp

fun arity :: "command \<Rightarrow> nat option" where
  \<comment> \<open>the number of entries after the name; \<open>Unknown\<close> takes any number\<close>
  "arity (Get key) = Some 1"
| "arity (Publish channel message) = Some 2"
| "arity (Set key val expire) = Some (if expire = None then 2 else 4)"
| "arity (Subscribe channels) = Some (length channels)"
| "arity (Unsubscribe channels) = Some (length channels)"
| "arity (Ping msg) = Some (if msg = None then 0 else 1)"
| "arity (Unknown name) = None"

lemma next_string_length: "next_string p = Ok (s, q) \<Longrightarrow> length p = Suc (length q)"
  by (cases p) (auto simp: next_string_def split: frame.splits if_splits)

lemma next_bytes_length: "next_bytes p = Ok (s, q) \<Longrightarrow> length p = Suc (length q)"
  by (cases p) (auto simp: next_bytes_def split: frame.splits if_splits)

lemma next_int_length: "next_int E p = Ok (s, q) \<Longrightarrow> length p = Suc (length q)"
  by (cases p) (auto simp: next_int_def int_of_text_def split: frame.splits option.splits)

lemma next_strings_length: "next_strings p = Ok (ss, q) \<Longrightarrow> length p = length ss \<and> q = []"
  by (induction p arbitrary: ss) (auto simp: obind_Ok_iff)

lemma finished_Ok: "finished r = Ok c \<longleftrightarrow> r = Ok (c, [])"
  by (auto simp: finished_def obind_Ok_iff parse_finish_def split: if_splits)

lemma set_parse_frames_arity:
  "set_parse_frames E p = Ok (c, []) \<Longrightarrow> arity c = Some (length p)"
proof -
  have eos: "next_string q = Err EndOfStream \<Longrightarrow> q = []" for q
    by (cases q) (auto simp: next_string_def split: frame.splits if_splits)
  assume "set_parse_frames E p = Ok (c, [])"
  then obtain key p1 val p2 where p: "next_string p = Ok (key, p1)" "next_bytes p1 = Ok (val, p2)"
    and r: "(case next_string p2 of
           Ok (s, p) \<Rightarrow>
             if to_uppercase E s = bstr ''EX'' then
               obind (next_int E p) (\<lambda>(secs, p). Ok (Set key val (Some (duration_from_secs secs)), p))
             else if to_uppercase E s = bstr ''PX'' then
               obind (next_int E p) (\<lambda>(ms, p). Ok (Set key val (Some (duration_from_millis ms)), p))
             else Err (ParseOther UnsupportedSetOption)
         | Err EndOfStream \<Rightarrow> Ok (Set key val None, p2)
         | Err e \<Rightarrow> Err e
         | Panic \<Rightarrow> Panic
         | Diverge \<Rightarrow> Diverge) = Ok (c, [])"
    by (auto simp: set_parse_frames_def obind_Ok_iff)
  have len: "length p = 2 + length p2"
    using next_string_length [OF p(1)] next_bytes_length [OF p(2)] by simp
  show ?thesis
  proof (cases "next_string p2")
    case (Ok sq)
    with r len show ?thesis
      by (cases sq) (auto simp: obind_Ok_iff split: if_splits
          dest!: next_string_length next_int_length)
  next
    case (Err e)
    with r len eos show ?thesis by (cases e) auto
  qed (use r in simp_all)
qed

lemma ping_parse_frames_arity:
  "ping_parse_frames p = Ok (c, []) \<Longrightarrow> arity c = Some (length p)"
  by (auto simp: ping_parse_frames_def split: outcome.splits parse_error.splits
      dest!: next_bytes_length)

lemma command_of_arity:
  "command_of E (Array (f # args)) = Ok c \<Longrightarrow> arity c = None \<or> arity c = Some (length args)"
  by (auto simp: command_of_def obind_Ok_iff Let_def finished_Ok get_parse_frames_def
      publish_parse_frames_def subscribe_parse_frames_def unsubscribe_parse_frames_def
      split: if_splits
      dest!: next_string_length next_bytes_length next_strings_length
        set_parse_frames_arity ping_parse_frames_arity)

text \<open>
  Parsing a command always returns, whatever frame a peer sends, and a command that is accepted
  has used up every entry of the array: only an array with a name is a command, and the number of
  entries behind the name is exactly what the command takes.
\<close>

theorem redis_from_frame_exact:
  "returns (from_frame E f) \<and>
   (\<forall>c. from_frame E f = Ok c \<longrightarrow>
     (\<exists>name args. f = Array (name # args) \<and> (arity c = None \<or> arity c = Some (length args))))"
proof -
  have "\<exists>name args. f = Array (name # args) \<and> (arity c = None \<or> arity c = Some (length args))"
    if ok: "command_of E f = Ok c" for c
  proof -
    from ok obtain p where p: "f = Array p" by (cases f) (auto simp: command_of_def)
    with ok obtain name args where "p = name # args"
      by (cases p) (auto simp: command_of_def next_string_def)
    with p ok command_of_arity show ?thesis by blast
  qed
  then show ?thesis by (simp add: from_frame_def command_of_returns omap_err_Ok_iff)
qed

theorem redis_from_frame_exact_witness:
  "\<exists>name args. Array [Bulk (bstr ''get''), Simple (bstr ''k'')] = Array (name # args) \<and>
     (arity (Get (bstr ''k'')) = None \<or> arity (Get (bstr ''k'')) = Some (length args))"
proof -
  have "from_frame (env_ref True) (Array [Bulk (bstr ''get''), Simple (bstr ''k'')]) =
      Ok (Get (bstr ''k''))"
    by (simp add: from_frame_def command_of_request [OF case_law_ref ascii_names(1) lower_names(1)]
        get_parse_frames_def next_string_def finished_def parse_finish_def del: bstr_simps)
  with redis_from_frame_exact [of "env_ref True" "Array [Bulk (bstr ''get''), Simple (bstr ''k'')]"]
  show ?thesis by blast
qed

end
