(* ===== verification/Redis_Db.thy ===== *)
theory Redis_Db
  imports Redis_Command "HOL-Library.List_Lexorder" "HOL-Library.Product_Lexorder"
begin

text \<open>
  The shared database (\<open>db.rs\<close>): the key-value map with its index of expirations, the pub/sub
  senders, the mutex around them and the \<open>Notify\<close> that wakes the purge task. Instants and durations
  are nanoseconds. The \<open>BTreeSet\<close> of expirations is the list of its elements in iteration order,
  instants first and keys by their bytes. A panic while the mutex is held poisons it, and every
  later \<open>lock().unwrap()\<close> panics. The broadcast channels of \<open>tokio\<close> are a parameter.
\<close>

section \<open>State\<close>

type_synonym instant = nat

definition instant_limit :: nat where
  \<comment> \<open>an \<open>Instant\<close> holds its seconds in 63 bits\<close>
  "instant_limit = 2 ^ 63 * 1000000000"

record db_entry =
  entry_data :: bytes
  entry_expires_at :: "instant option"

record 'tx db_state =
  entries :: "bytes \<rightharpoonup> db_entry"
  pub_sub :: "bytes \<rightharpoonup> 'tx"
  expirations :: "(instant \<times> bytes) list"
  db_shutdown :: bool

record ('tx, 'h) shared =
  db :: "'tx db_state"
  poisoned :: bool
  permit :: bool
  hub :: 'h

record ('tx, 'rx, 'h) broadcast =
  bc_channel :: "nat \<Rightarrow> 'h \<Rightarrow> 'h \<times> 'tx \<times> 'rx"
  bc_subscribe :: "'tx \<Rightarrow> 'h \<Rightarrow> 'h \<times> 'rx"
  bc_send :: "'tx \<Rightarrow> bytes \<Rightarrow> 'h \<Rightarrow> 'h \<times> nat option"

definition db_new :: "'h \<Rightarrow> ('tx, 'h) shared" where
  "db_new h =
     \<lparr>db = \<lparr>entries = Map.empty, pub_sub = Map.empty, expirations = [], db_shutdown = False\<rparr>,
      poisoned = False, permit = False, hub = h\<rparr>"

definition btree_insert :: "'a::linorder \<Rightarrow> 'a list \<Rightarrow> 'a list" where
  "btree_insert x xs = insort_insert x xs"

definition btree_remove :: "'a::linorder \<Rightarrow> 'a list \<Rightarrow> 'a list" where
  "btree_remove x xs = remove1 x xs"

type_synonym ('tx, 'h, 'a) db_result = "('tx, 'h) shared \<times> (redis_error, 'a) outcome"

definition locked ::
  "('tx, 'h) shared \<Rightarrow> (('tx, 'h) shared \<Rightarrow> ('tx, 'h, 'a) db_result) \<Rightarrow> ('tx, 'h, 'a) db_result" where
  \<comment> \<open>\<open>state.lock().unwrap()\<close> and the critical section behind it\<close>
  "locked s k =
     (if poisoned s then (s, Panic)
      else case k s of
             (s', Panic) \<Rightarrow> (s'\<lparr>poisoned := True\<rparr>, Panic)
           | r \<Rightarrow> r)"

definition notify_one :: "('tx, 'h) shared \<Rightarrow> ('tx, 'h) shared" where
  \<comment> \<open>\<open>Notify\<close> keeps at most one permit\<close>
  "notify_one s = s\<lparr>permit := True\<rparr>"

section \<open>Operations\<close>

definition next_expiration :: "'tx db_state \<Rightarrow> instant option" where
  "next_expiration st =
     (case expirations st of [] \<Rightarrow> None | (when, key) # xs \<Rightarrow> Some when)"

definition instant_add :: "instant \<Rightarrow> nat \<Rightarrow> (redis_error, instant) outcome" where
  \<comment> \<open>\<open>Instant + Duration\<close> panics when the sum is not representable\<close>
  "instant_add now d = (if now + d < instant_limit then Ok (now + d) else Panic)"

definition db_get :: "bytes \<Rightarrow> ('tx, 'h) shared \<Rightarrow> ('tx, 'h, bytes option) db_result" where
  "db_get key s = locked s (\<lambda>s. (s, Ok (map_option entry_data (entries (db s) key))))"

definition set_entry :: "bytes \<Rightarrow> bytes \<Rightarrow> instant option \<Rightarrow> 'tx db_state \<Rightarrow> 'tx db_state" where
  \<comment> \<open>insert the entry, drop the expiration of the previous one, track the new one\<close>
  "set_entry key val expires_at st =
     (let prev = entries st key;
          st1 = st\<lparr>entries := (entries st)
                  (key \<mapsto> \<lparr>entry_data = val, entry_expires_at = expires_at\<rparr>)\<rparr>;
          st2 = (case prev of
                   Some e \<Rightarrow>
                     (case entry_expires_at e of
                        Some when \<Rightarrow> st1\<lparr>expirations := btree_remove (when, key) (expirations st1)\<rparr>
                      | None \<Rightarrow> st1)
                 | None \<Rightarrow> st1)
      in case expires_at of
           Some when \<Rightarrow> st2\<lparr>expirations := btree_insert (when, key) (expirations st2)\<rparr>
         | None \<Rightarrow> st2)"

definition expires_first :: "instant \<Rightarrow> 'tx db_state \<Rightarrow> bool" where
  \<comment> \<open>the new expiration is the next one, so the purge task must be woken\<close>
  "expires_first when st =
     (case next_expiration st of Some expiration \<Rightarrow> when < expiration | None \<Rightarrow> True)"

definition db_set_locked ::
  "instant \<Rightarrow> bytes \<Rightarrow> bytes \<Rightarrow> nat option \<Rightarrow> ('tx, 'h) shared \<Rightarrow> ('tx, 'h, bool) db_result" where
  \<comment> \<open>\<open>set\<close> up to \<open>drop(state)\<close>; the result says whether to notify\<close>
  "db_set_locked now key val expire s =
     locked s (\<lambda>s.
       case expire of
         None \<Rightarrow> (s\<lparr>db := set_entry key val None (db s)\<rparr>, Ok False)
       | Some duration \<Rightarrow>
           (case instant_add now duration of
              Ok when \<Rightarrow>
                (s\<lparr>db := set_entry key val (Some when) (db s)\<rparr>, Ok (expires_first when (db s)))
            | _ \<Rightarrow> (s, Panic)))"

definition db_set ::
  "instant \<Rightarrow> bytes \<Rightarrow> bytes \<Rightarrow> nat option \<Rightarrow> ('tx, 'h) shared \<Rightarrow> ('tx, 'h, unit) db_result" where
  "db_set now key val expire s =
     sbind (db_set_locked now key val expire s)
       (\<lambda>s notify. (if notify then notify_one s else s, Ok ()))"

definition db_subscribe ::
  "('tx, 'rx, 'h) broadcast \<Rightarrow> bytes \<Rightarrow> ('tx, 'h) shared \<Rightarrow> ('tx, 'h, 'rx) db_result" where
  "db_subscribe B key s =
     locked s (\<lambda>s.
       case pub_sub (db s) key of
         Some tx \<Rightarrow> (case bc_subscribe B tx (hub s) of (h, rx) \<Rightarrow> (s\<lparr>hub := h\<rparr>, Ok rx))
       | None \<Rightarrow>
           (case bc_channel B 1024 (hub s) of
              (h, tx, rx) \<Rightarrow>
                (s\<lparr>db := (db s)\<lparr>pub_sub := (pub_sub (db s))(key \<mapsto> tx)\<rparr>, hub := h\<rparr>, Ok rx)))"

definition db_publish ::
  "('tx, 'rx, 'h) broadcast \<Rightarrow> bytes \<Rightarrow> bytes \<Rightarrow> ('tx, 'h) shared \<Rightarrow> ('tx, 'h, nat) db_result" where
  "db_publish B key val s =
     locked s (\<lambda>s.
       case pub_sub (db s) key of
         Some tx \<Rightarrow>
           (case bc_send B tx val (hub s) of
              (h, n) \<Rightarrow> (s\<lparr>hub := h\<rparr>, Ok (case n of Some k \<Rightarrow> k | None \<Rightarrow> 0)))
       | None \<Rightarrow> (s, Ok 0))"

definition shutdown_locked :: "('tx, 'h) shared \<Rightarrow> ('tx, 'h, unit) db_result" where
  "shutdown_locked s = locked s (\<lambda>s. (s\<lparr>db := (db s)\<lparr>db_shutdown := True\<rparr>\<rparr>, Ok ()))"

definition shutdown_purge_task :: "('tx, 'h) shared \<Rightarrow> ('tx, 'h, unit) db_result" where
  "shutdown_purge_task s = sbind (shutdown_locked s) (\<lambda>s _. (notify_one s, Ok ()))"

fun purge_loop ::
  "instant \<Rightarrow> (instant \<times> bytes) list \<Rightarrow> (bytes \<rightharpoonup> db_entry)
     \<Rightarrow> instant option \<times> (instant \<times> bytes) list \<times> (bytes \<rightharpoonup> db_entry)" where
  \<comment> \<open>the \<open>while let\<close> over the first expiration; removing the first element leaves the tail\<close>
  "purge_loop now [] es = (None, [], es)"
| "purge_loop now ((when, key) # xs) es =
     (if now < when then (Some when, (when, key) # xs, es)
      else purge_loop now xs (es(key := None)))"

definition purge_expired_keys ::
  "instant \<Rightarrow> ('tx, 'h) shared \<Rightarrow> ('tx, 'h, instant option) db_result" where
  "purge_expired_keys now s =
     locked s (\<lambda>s.
       if db_shutdown (db s) then (s, Ok None)
       else case purge_loop now (expirations (db s)) (entries (db s)) of
              (r, xs, es) \<Rightarrow> (s\<lparr>db := (db s)\<lparr>expirations := xs, entries := es\<rparr>\<rparr>, Ok r))"

definition is_shutdown :: "('tx, 'h) shared \<Rightarrow> ('tx, 'h, bool) db_result" where
  "is_shutdown s = locked s (\<lambda>s. (s, Ok (db_shutdown (db s))))"

section \<open>The invariant of the expiration index\<close>

definition db_inv :: "'tx db_state \<Rightarrow> bool" where
  \<comment> \<open>the index holds, in order and once, exactly the expirations that the entries carry\<close>
  "db_inv st \<longleftrightarrow> sorted (expirations st) \<and> distinct (expirations st) \<and>
     (\<forall>t k. (t, k) \<in> set (expirations st) \<longleftrightarrow>
        (\<exists>e. entries st k = Some e \<and> entry_expires_at e = Some t))"

lemma btree_remove_inv:
  "sorted xs \<Longrightarrow> distinct xs \<Longrightarrow>
     sorted (btree_remove x xs) \<and> distinct (btree_remove x xs) \<and>
     set (btree_remove x xs) = set xs - {x}"
  by (simp add: btree_remove_def sorted_remove1 set_remove1_eq)

lemma btree_insert_inv:
  "sorted xs \<Longrightarrow> distinct xs \<Longrightarrow>
     sorted (btree_insert x xs) \<and> distinct (btree_insert x xs) \<and>
     set (btree_insert x xs) = insert x (set xs)"
  by (auto simp: btree_insert_def sorted_insort_insert set_insort_insert insort_insert_key_def
      distinct_insort sorted_insort set_insort_key)

lemma db_inv_new: "db_inv (db (db_new h))"
  by (simp add: db_inv_def db_new_def)

lemma set_entry_entries:
  "entries (set_entry key val x st) =
     (entries st)(key \<mapsto> \<lparr>entry_data = val, entry_expires_at = x\<rparr>)"
  by (simp add: set_entry_def Let_def split: option.split)

lemma set_entry_expirations:
  assumes "db_inv st"
  shows "sorted (expirations (set_entry key val x st)) \<and>
    distinct (expirations (set_entry key val x st)) \<and>
    set (expirations (set_entry key val x st)) =
      {(t, k) \<in> set (expirations st). k \<noteq> key} \<union> (case x of Some t \<Rightarrow> {(t, key)} | None \<Rightarrow> {})"
proof -
  let ?mid = "case entries st key of
      Some e \<Rightarrow> (case entry_expires_at e of
          Some when \<Rightarrow> btree_remove (when, key) (expirations st) | None \<Rightarrow> expirations st)
    | None \<Rightarrow> expirations st"
  have sd: "sorted (expirations st)" "distinct (expirations st)"
    using assms by (simp_all add: db_inv_def)
  have mem: "(t, key) \<in> set (expirations st) \<longleftrightarrow>
      (\<exists>e. entries st key = Some e \<and> entry_expires_at e = Some t)" for t
    using assms unfolding db_inv_def by blast
  have mid: "sorted ?mid \<and> distinct ?mid \<and> set ?mid = {(t, k) \<in> set (expirations st). k \<noteq> key}"
    using btree_remove_inv [OF sd] sd mem
    by (auto split: option.split)
  have "expirations (set_entry key val x st) =
      (case x of Some t \<Rightarrow> btree_insert (t, key) ?mid | None \<Rightarrow> ?mid)"
    by (simp add: set_entry_def Let_def split: option.split)
  then show ?thesis
    using mid btree_insert_inv [of ?mid] by (auto split: option.split)
qed

lemma db_inv_set_entry: "db_inv st \<Longrightarrow> db_inv (set_entry key val x st)"
  using set_entry_expirations [of st key val x]
  by (auto simp: db_inv_def set_entry_entries split: option.splits)

lemma purge_loop_spec:
  assumes "sorted xs" "distinct xs"
  shows "purge_loop now xs es =
    ((case filter (\<lambda>(t, k). now < t) xs of [] \<Rightarrow> None | (t, k) # _ \<Rightarrow> Some t),
     filter (\<lambda>(t, k). now < t) xs,
     (\<lambda>k. if \<exists>t. (t, k) \<in> set xs \<and> t \<le> now then None else es k))"
  using assms
proof (induction now xs es rule: purge_loop.induct)
  case (1 now es)
  then show ?case by simp
next
  case (2 now w key xs es)
  show ?case
  proof (cases "now < w")
    case True
    have "now < t" if "(t, k) \<in> set xs" for t k
      using 2(2) that True by (fastforce simp: less_eq_prod_def)
    then have "filter (\<lambda>(t, k). now < t) ((w, key) # xs) = (w, key) # xs"
      using True by (auto intro!: filter_True)
    moreover have "(\<lambda>k. if \<exists>t. (t, k) \<in> set ((w, key) # xs) \<and> t \<le> now then None else es k) = es"
      using \<open>\<And>t k. (t, k) \<in> set xs \<Longrightarrow> now < t\<close> True by (fastforce simp: fun_eq_iff)
    ultimately show ?thesis using True by (simp only: purge_loop.simps if_True list.case prod.case)
  next
    case False
    have "(\<lambda>k. if \<exists>t. (t, k) \<in> set xs \<and> t \<le> now then None else (es(key := None)) k) =
        (\<lambda>k. if \<exists>t. (t, k) \<in> set ((w, key) # xs) \<and> t \<le> now then None else es k)"
      using False by (auto simp: fun_eq_iff)
    moreover have "sorted xs" "distinct xs" using 2(2,3) by simp_all
    ultimately show ?thesis
      using 2(1) [OF False] False by (simp del: fun_upd_apply)
  qed
qed

lemma db_inv_purge:
  assumes "db_inv st" and "purge_loop now (expirations st) (entries st) = (r, xs, es)"
  shows "db_inv (st\<lparr>expirations := xs, entries := es\<rparr>)"
proof -
  have sd: "sorted (expirations st)" "distinct (expirations st)"
    and mem: "(t, k) \<in> set (expirations st) \<longleftrightarrow>
      (\<exists>e. entries st k = Some e \<and> entry_expires_at e = Some t)" for t k
    using assms(1) unfolding db_inv_def by blast+
  from assms(2) purge_loop_spec [OF sd, of now "entries st"] have
    xs: "xs = filter (\<lambda>(t, k). now < t) (expirations st)" and
    es: "es = (\<lambda>k. if \<exists>t. (t, k) \<in> set (expirations st) \<and> t \<le> now then None else entries st k)"
    by simp_all
  have "sorted xs" "distinct xs" using sd xs by (simp_all add: sorted_wrt_filter)
  moreover have "(t, k) \<in> set xs \<longleftrightarrow> (\<exists>e. es k = Some e \<and> entry_expires_at e = Some t)" for t k
    unfolding xs es using mem by (auto simp: not_le)
  ultimately show ?thesis unfolding db_inv_def by simp
qed

section \<open>The abstract database\<close>

text \<open>
  What the database promises to its callers: a map from keys to values with an optional deadline.
\<close>

type_synonym expiring_map = "bytes \<rightharpoonup> bytes \<times> instant option"

definition db_view :: "'tx db_state \<Rightarrow> expiring_map" where
  "db_view st k = map_option (\<lambda>e. (entry_data e, entry_expires_at e)) (entries st k)"

definition spec_purge :: "instant \<Rightarrow> expiring_map \<Rightarrow> expiring_map" where
  "spec_purge now m k =
     (case m k of
        Some (v, Some t) \<Rightarrow> if t \<le> now then None else Some (v, Some t)
      | r \<Rightarrow> r)"

lemma db_view_set_entry:
  "db_view (set_entry key val x st) = (db_view st)(key \<mapsto> (val, x))"
  by (auto simp: db_view_def set_entry_entries fun_eq_iff)

lemma db_view_purge:
  assumes "db_inv st" and "purge_loop now (expirations st) (entries st) = (r, xs, es)"
  shows "db_view (st\<lparr>expirations := xs, entries := es\<rparr>) = spec_purge now (db_view st)"
proof
  fix k
  have sd: "sorted (expirations st)" "distinct (expirations st)"
    and mem: "(t, k) \<in> set (expirations st) \<longleftrightarrow>
      (\<exists>e. entries st k = Some e \<and> entry_expires_at e = Some t)" for t
    using assms(1) unfolding db_inv_def by blast+
  from assms(2) purge_loop_spec [OF sd, of now "entries st"] have
    "es = (\<lambda>k. if \<exists>t. (t, k) \<in> set (expirations st) \<and> t \<le> now then None else entries st k)"
    by simp
  then show "db_view (st\<lparr>expirations := xs, entries := es\<rparr>) k = spec_purge now (db_view st) k"
    by (auto simp: db_view_def spec_purge_def mem split: option.splits)
qed

lemma next_expiration_least:
  assumes "db_inv st"
  shows "next_expiration st =
    (if expirations st = [] then None else Some (Min (fst ` set (expirations st))))"
proof (cases "expirations st")
  case (Cons x xs)
  obtain t k where x: "x = (t, k)" by (cases x)
  have "\<forall>y \<in> set xs. x \<le> y" using assms Cons by (simp add: db_inv_def)
  then have "\<forall>y \<in> set xs. t \<le> fst y" using x by (auto simp: less_eq_prod_def)
  then have "Min (fst ` set (x # xs)) = t" using x by (intro Min_eqI) auto
  with Cons x show ?thesis by (simp add: next_expiration_def)
qed (simp add: next_expiration_def)

lemma purge_result:
  assumes "db_inv st" and "purge_loop now (expirations st) (entries st) = (r, xs, es)"
  shows "r = next_expiration (st\<lparr>expirations := xs, entries := es\<rparr>)"
  using assms purge_loop_spec [of "expirations st" now "entries st"]
  by (auto simp: db_inv_def next_expiration_def split: list.splits)

end
