(* ===== verification/Redis_Store.thy ===== *)
theory Redis_Store
  imports Redis_Db
begin

text \<open>
  The interface of the database (\<open>db.rs\<close>) to the commands and to the purge task: a store with
  \<open>get\<close>, \<open>set\<close> and \<open>purge_expired_keys\<close> whose laws are those of a map with deadlines, what follows from the
  laws for any sequence of calls, and the proof that the code of the database has them.
\<close>

section \<open>The interface\<close>

definition deadline_fits :: "instant \<Rightarrow> nat option \<Rightarrow> bool" where
  \<comment> \<open>the clock can represent the deadline\<close>
  "deadline_fits now expire \<longleftrightarrow> (case expire of None \<Rightarrow> True | Some d \<Rightarrow> now + d < instant_limit)"

lemma deadline_fits_simps [simp]:
  "deadline_fits now None" "deadline_fits now (Some d) \<longleftrightarrow> now + d < instant_limit"
  by (simp_all add: deadline_fits_def)

datatype store_call = CallGet bytes | CallSet bytes bytes "nat option" | CallPurge

fun store_calls ::
  "(bytes \<Rightarrow> 's \<Rightarrow> 's \<times> ('e, bytes option) outcome)
     \<Rightarrow> (instant \<Rightarrow> bytes \<Rightarrow> bytes \<Rightarrow> nat option \<Rightarrow> 's \<Rightarrow> 's \<times> ('e, unit) outcome)
     \<Rightarrow> (instant \<Rightarrow> 's \<Rightarrow> 's \<times> ('e, instant option) outcome) \<Rightarrow> (instant \<times> store_call) list \<Rightarrow> 's \<Rightarrow> 's" where
  \<comment> \<open>calls one after the other, each at its instant\<close>
  "store_calls lookup store purge [] s = s"
| "store_calls lookup store purge ((now, c) # calls) s =
     store_calls lookup store purge calls
       (case c of
          CallGet key \<Rightarrow> fst (lookup key s)
        | CallSet key val expire \<Rightarrow> fst (store now key val expire s)
        | CallPurge \<Rightarrow> fst (purge now s))"

fun leaves_alone :: "bytes \<Rightarrow> instant \<times> store_call \<Rightarrow> bool" where
  \<comment> \<open>a call that does not set the key, and whose deadline fits\<close>
  "leaves_alone key (now, CallSet k val expire) \<longleftrightarrow> k \<noteq> key \<and> deadline_fits now expire"
| "leaves_alone key (now, c) \<longleftrightarrow> True"

locale key_value_store =
  fixes good :: "'s \<Rightarrow> bool" and view :: "'s \<Rightarrow> expiring_map"
    and lookup :: "bytes \<Rightarrow> 's \<Rightarrow> 's \<times> ('e, bytes option) outcome"
    and store :: "instant \<Rightarrow> bytes \<Rightarrow> bytes \<Rightarrow> nat option \<Rightarrow> 's \<Rightarrow> 's \<times> ('e, unit) outcome"
  assumes lookup_view: "good s \<Longrightarrow> lookup key s = (s, Ok (map_option fst (view s key)))"
    and store_view: "good s \<Longrightarrow> deadline_fits now expire \<Longrightarrow>
      \<exists>s'. store now key val expire s = (s', Ok ()) \<and> good s' \<and>
        view s' = (view s)(key \<mapsto> (val, map_option ((+) now) expire))"
begin

lemma store_stored:
  assumes "good s" and "deadline_fits now expire"
  shows "good (fst (store now key val expire s))"
    "view (fst (store now key val expire s)) = (view s)(key \<mapsto> (val, map_option ((+) now) expire))"
    "snd (store now key val expire s) = Ok ()"
  using store_view [OF assms, of key val] by auto

lemma lookup_stored:
  assumes "good s" and "deadline_fits now expire"
  shows "snd (lookup k (fst (store now key val expire s))) =
    (if k = key then Ok (Some val) else snd (lookup k s))"
  using lookup_view [OF store_stored(1) [OF assms]] lookup_view [OF assms(1)] store_stored(2) [OF assms] by simp

end

locale expiring_store = key_value_store good view lookup store
  for good :: "'s \<Rightarrow> bool" and view :: "'s \<Rightarrow> expiring_map"
    and lookup :: "bytes \<Rightarrow> 's \<Rightarrow> 's \<times> ('e, bytes option) outcome"
    and store :: "instant \<Rightarrow> bytes \<Rightarrow> bytes \<Rightarrow> nat option \<Rightarrow> 's \<Rightarrow> 's \<times> ('e, unit) outcome" +
  fixes serving :: "'s \<Rightarrow> bool"
    and purge :: "instant \<Rightarrow> 's \<Rightarrow> 's \<times> ('e, instant option) outcome"
  assumes store_serving: "good s \<Longrightarrow> deadline_fits now expire \<Longrightarrow>
      serving (fst (store now key val expire s)) \<longleftrightarrow> serving s"
    and purge_view: "good s \<Longrightarrow> serving s \<Longrightarrow>
      good (fst (purge now s)) \<and> serving (fst (purge now s)) \<and> view (fst (purge now s)) = spec_purge now (view s)"
begin

lemma calls_view:
  assumes "good s" and "serving s" and "list_all (leaves_alone key) calls"
  shows "good (store_calls lookup store purge calls s) \<and>
    view (store_calls lookup store purge calls s) key =
      (case view s key of
         Some (v, Some t) \<Rightarrow> if \<exists>now. (now, CallPurge) \<in> set calls \<and> t \<le> now then None else Some (v, Some t)
       | r \<Rightarrow> r)"
  using assms
proof (induction calls arbitrary: s)
  case Nil
  then show ?case by (simp split: option.split)
next
  case (Cons x calls)
  obtain now c where x: "x = (now, c)" by (cases x)
  show ?case
  proof (cases c)
    case (CallGet k)
    then show ?thesis using Cons.IH [of s] Cons.prems by (simp add: x lookup_view split: option.split)
  next
    case (CallSet k v expire)
    then have k: "k \<noteq> key" "deadline_fits now expire" using Cons.prems(3) by (simp_all add: x)
    note stored = store_stored [OF Cons.prems(1) k(2), of k v] store_serving [OF Cons.prems(1) k(2), of k v]
    show ?thesis using Cons.IH [of "fst (store now k v expire s)"] Cons.prems stored k(1) CallSet
      by (simp add: x split: option.split)
  next
    case CallPurge
    note purged = purge_view [OF Cons.prems(1,2), of now]
    show ?thesis using Cons.IH [of "fst (purge now s)"] Cons.prems purged CallPurge
      by (auto simp: x spec_purge_def split: option.splits if_splits)
  qed
qed

lemma lookup_after_calls:
  assumes "good s" and "serving s" and "now + d < instant_limit" and "list_all (leaves_alone key) calls"
  shows "snd (lookup key (store_calls lookup store purge calls (fst (store now key val (Some d) s)))) =
    Ok (if \<exists>t. (t, CallPurge) \<in> set calls \<and> now + d \<le> t then None else Some val)"
proof -
  have fits: "deadline_fits now (Some d)" using assms(3) by simp
  note stored = store_stored [OF assms(1) fits, of key val] store_serving [OF assms(1) fits, of key val]
  from calls_view [OF stored(1) _ assms(4)] stored assms(2) show ?thesis by (auto simp: lookup_view)
qed

end

section \<open>The database as a store\<close>

lemma set_entry_shutdown [simp]: "db_shutdown (set_entry key val x st) = db_shutdown st"
  by (simp add: set_entry_def Let_def split: option.split)

definition db_good :: "('tx, 'h) shared \<Rightarrow> bool" where
  "db_good s \<longleftrightarrow> db_inv (db s) \<and> \<not> poisoned s"

lemma db_get_view: "db_good s \<Longrightarrow> db_get key s = (s, Ok (map_option fst (db_view (db s) key)))"
  by (simp add: db_good_def db_get_def locked_def db_view_def option.map_comp comp_def)

lemma db_set_view:
  assumes "db_good s" and "deadline_fits now expire"
  shows "\<exists>s'. db_set now key val expire s = (s', Ok ()) \<and> db_good s' \<and> db_shutdown (db s') = db_shutdown (db s) \<and>
    db_view (db s') = (db_view (db s))(key \<mapsto> (val, map_option ((+) now) expire))"
  using assms by (cases expire)
    (simp_all add: db_good_def db_set_def db_set_locked_def locked_def instant_add_def notify_one_def
      db_inv_set_entry db_view_set_entry)

lemma db_purge_view:
  assumes "db_good s" and "\<not> db_shutdown (db s)"
  shows "\<exists>s' r. purge_expired_keys now s = (s', Ok r) \<and> db_good s' \<and> \<not> db_shutdown (db s') \<and>
    db_view (db s') = spec_purge now (db_view (db s)) \<and> r = next_expiration (db s')"
proof -
  have inv: "db_inv (db s)" using assms(1) by (simp add: db_good_def)
  obtain r xs es where pl: "purge_loop now (expirations (db s)) (entries (db s)) = (r, xs, es)"
    by (metis prod_cases3)
  have "purge_expired_keys now s = (s\<lparr>db := (db s)\<lparr>expirations := xs, entries := es\<rparr>\<rparr>, Ok r)"
    using assms pl by (simp add: db_good_def purge_expired_keys_def locked_def)
  then show ?thesis
    using db_inv_purge [OF inv pl] db_view_purge [OF inv pl] purge_result [OF inv pl] assms
    by (simp add: db_good_def)
qed

interpretation database: expiring_store db_good "\<lambda>s. db_view (db s)" db_get db_set "\<lambda>s. \<not> db_shutdown (db s)"
  purge_expired_keys
proof
  fix s :: "('tx, 'h) shared" and key val :: bytes and now :: instant and expire :: "nat option"
  assume s: "db_good s"
  then show "db_get key s = (s, Ok (map_option fst (db_view (db s) key)))" by (rule db_get_view)
  show "deadline_fits now expire \<Longrightarrow> \<exists>s'. db_set now key val expire s = (s', Ok ()) \<and> db_good s' \<and>
      db_view (db s') = (db_view (db s))(key \<mapsto> (val, map_option ((+) now) expire))"
    using db_set_view [OF s] by blast
  show "deadline_fits now expire \<Longrightarrow>
      (\<not> db_shutdown (db (fst (db_set now key val expire s)))) = (\<not> db_shutdown (db s))"
    using db_set_view [OF s, of now expire key val] by auto
  show "\<not> db_shutdown (db s) \<Longrightarrow> db_good (fst (purge_expired_keys now s)) \<and>
      \<not> db_shutdown (db (fst (purge_expired_keys now s))) \<and>
      db_view (db (fst (purge_expired_keys now s))) = spec_purge now (db_view (db s))"
    using db_purge_view [OF s, of now] by auto
qed

section \<open>The time to live of a key\<close>

definition db_calls :: "(instant \<times> store_call) list \<Rightarrow> ('tx, 'h) shared \<Rightarrow> ('tx, 'h) shared" where
  "db_calls = store_calls db_get db_set purge_expired_keys"

text \<open>
  C8. The time to live.  After \<open>SET key val\<close> with a time to live, whatever calls of other clients and
  purges follow that do not set the key, \<open>GET key\<close> gives the value until a purge at or after the
  deadline and nothing from then on.  A deadline that has passed without a purge does not
  hide the value.
\<close>

theorem redis_time_to_live:
  assumes "db_inv (db s)" "\<not> poisoned s" "\<not> db_shutdown (db s)" and "now + d < instant_limit"
    and "list_all (leaves_alone key) calls"
  shows "snd (db_get key (db_calls calls (fst (db_set now key val (Some d) s)))) =
    Ok (if \<exists>t. (t, CallPurge) \<in> set calls \<and> now + d \<le> t then None else Some val)"
proof -
  have "db_good s" using assms(1,2) by (simp add: db_good_def)
  from database.lookup_after_calls [OF this assms(3-5)] show ?thesis unfolding db_calls_def .
qed

theorem redis_time_to_live_witness:
  "snd (db_get [97] (db_calls [(11, CallPurge), (12, CallSet [98] [2] None), (14, CallGet [97])]
      (fst (db_set 10 [97] [1] (Some 5) (db_new 0 :: (nat, nat) shared))))) = Ok (Some [1]) \<and>
   snd (db_get [97] (db_calls [(11, CallPurge), (15, CallPurge)]
      (fst (db_set 10 [97] [1] (Some 5) (db_new 0 :: (nat, nat) shared))))) = Ok None"
proof -
  have new: "db_inv (db (db_new 0 :: (nat, nat) shared))" "\<not> poisoned (db_new 0 :: (nat, nat) shared)"
    "\<not> db_shutdown (db (db_new 0 :: (nat, nat) shared))"
    by (simp add: db_inv_new) (simp_all add: db_new_def)
  from redis_time_to_live [OF new, of 10 5 "[97]"] show ?thesis
    by (simp add: instant_limit_def) (rule exI [of _ 15], simp)
qed

end
