(* ===== verification/Redis_Purge.thy ===== *)
theory Redis_Purge
  imports Redis_Store
begin

text \<open>
  The background purge task (\<open>purge_expired_tasks\<close> in \<open>db.rs\<close>) running beside the clients: a step
  relation whose steps are the critical sections of the mutex, the notifications between them, the
  timer and the passing of time, in any interleaving; and the properties of the database.
\<close>

section \<open>The system\<close>

datatype purge_task =
    AtLoop \<comment> \<open>before \<open>is_shutdown\<close>\<close>
  | Purging \<comment> \<open>before \<open>purge_expired_keys\<close>\<close>
  | Sleeping "instant option" \<comment> \<open>in the \<open>select!\<close>, or waiting for a notification only\<close>
  | TaskDone
  | TaskPanicked

record ('tx, 'h) db_system =
  clock :: instant
  shared_db :: "('tx, 'h) shared"
  task :: purge_task
  to_notify :: nat \<comment> \<open>callers between \<open>drop(state)\<close> and \<open>notify_one\<close>\<close>

definition system_init :: "instant \<Rightarrow> 'h \<Rightarrow> ('tx, 'h) db_system" where
  "system_init now h = \<lparr>clock = now, shared_db = db_new h, task = AtLoop, to_notify = 0\<rparr>"

inductive db_step ::
  "('tx, 'rx, 'h) broadcast \<Rightarrow> ('tx, 'h) db_system \<Rightarrow> ('tx, 'h) db_system \<Rightarrow> bool"
  for B :: "('tx, 'rx, 'h) broadcast" where
  tick: "clock s \<le> t \<Longrightarrow> db_step B s (s\<lparr>clock := t\<rparr>)"
| get_call: "db_get key (shared_db s) = (d, r) \<Longrightarrow> db_step B s (s\<lparr>shared_db := d\<rparr>)"
| set_call: "db_set_locked (clock s) key val expire (shared_db s) = (d, Ok n) \<Longrightarrow>
    db_step B s (s\<lparr>shared_db := d, to_notify := to_notify s + (if n then 1 else 0)\<rparr>)"
| set_panic: "db_set_locked (clock s) key val expire (shared_db s) = (d, Panic) \<Longrightarrow>
    db_step B s (s\<lparr>shared_db := d\<rparr>)"
| subscribe_call: "db_subscribe B key (shared_db s) = (d, r) \<Longrightarrow> db_step B s (s\<lparr>shared_db := d\<rparr>)"
| publish_call: "db_publish B key val (shared_db s) = (d, r') \<Longrightarrow> db_step B s (s\<lparr>shared_db := d\<rparr>)"
| shutdown_call: "shutdown_locked (shared_db s) = (d, Ok ()) \<Longrightarrow>
    db_step B s (s\<lparr>shared_db := d, to_notify := to_notify s + 1\<rparr>)"
| notify: "0 < to_notify s \<Longrightarrow>
    db_step B s (s\<lparr>shared_db := notify_one (shared_db s), to_notify := to_notify s - 1\<rparr>)"
| task_stop: "task s = AtLoop \<Longrightarrow> is_shutdown (shared_db s) = (d, Ok True) \<Longrightarrow>
    db_step B s (s\<lparr>shared_db := d, task := TaskDone\<rparr>)"
| task_go: "task s = AtLoop \<Longrightarrow> is_shutdown (shared_db s) = (d, Ok False) \<Longrightarrow>
    db_step B s (s\<lparr>shared_db := d, task := Purging\<rparr>)"
| task_check_panic: "task s = AtLoop \<Longrightarrow> is_shutdown (shared_db s) = (d, Panic) \<Longrightarrow>
    db_step B s (s\<lparr>shared_db := d, task := TaskPanicked\<rparr>)"
| task_purge: "task s = Purging \<Longrightarrow> purge_expired_keys (clock s) (shared_db s) = (d, Ok w) \<Longrightarrow>
    db_step B s (s\<lparr>shared_db := d, task := Sleeping w\<rparr>)"
| task_purge_panic: "task s = Purging \<Longrightarrow> purge_expired_keys (clock s) (shared_db s) = (d, Panic) \<Longrightarrow>
    db_step B s (s\<lparr>shared_db := d, task := TaskPanicked\<rparr>)"
| task_timer: "task s = Sleeping (Some w) \<Longrightarrow> w \<le> clock s \<Longrightarrow> db_step B s (s\<lparr>task := AtLoop\<rparr>)"
| task_notified: "task s = Sleeping w \<Longrightarrow> permit (shared_db s) \<Longrightarrow>
    db_step B s (s\<lparr>shared_db := (shared_db s)\<lparr>permit := False\<rparr>, task := AtLoop\<rparr>)"

inductive db_reachable ::
  "('tx, 'rx, 'h) broadcast \<Rightarrow> ('tx, 'h) db_system \<Rightarrow> bool" for B where
  start: "db_reachable B (system_init now h)"
| step: "db_reachable B s \<Longrightarrow> db_step B s s' \<Longrightarrow> db_reachable B s'"

section \<open>The invariant\<close>

definition no_later_than :: "instant option \<Rightarrow> 'tx db_state \<Rightarrow> bool" where
  \<comment> \<open>a task that sleeps until \<open>w\<close> (for ever, when there is none) misses no expiration\<close>
  "no_later_than w st =
     (case w of
        None \<Rightarrow> expirations st = []
      | Some t \<Rightarrow> (\<forall>(u, k) \<in> set (expirations st). t \<le> u))"

definition wake_inv :: "('tx, 'h) db_system \<Rightarrow> bool" where
  "wake_inv s \<longleftrightarrow>
     db_inv (db (shared_db s)) \<and>
     (poisoned (shared_db s) \<or>
      (case task s of
         Sleeping w \<Rightarrow>
           permit (shared_db s) \<or> 0 < to_notify s \<or>
           (\<not> db_shutdown (db (shared_db s)) \<and> no_later_than w (db (shared_db s)))
       | Purging \<Rightarrow> db_shutdown (db (shared_db s)) \<longrightarrow> permit (shared_db s) \<or> 0 < to_notify s
       | TaskDone \<Rightarrow> db_shutdown (db (shared_db s))
       | TaskPanicked \<Rightarrow> False
       | AtLoop \<Rightarrow> True))"

lemma db_inv_other [simp]:
  "db_inv (st\<lparr>pub_sub := p\<rparr>) = db_inv st" "db_inv (st\<lparr>db_shutdown := b\<rparr>) = db_inv st"
  "no_later_than w (st\<lparr>pub_sub := p\<rparr>) = no_later_than w st"
  "no_later_than w (st\<lparr>db_shutdown := b\<rparr>) = no_later_than w st"
  by (simp_all add: db_inv_def no_later_than_def split: option.split)

lemmas db_op_defs = db_get_def db_subscribe_def db_publish_def shutdown_locked_def is_shutdown_def
  db_set_locked_def purge_expired_keys_def locked_def

lemma no_later_than_set:
  assumes "db_inv st" "no_later_than w st"
  shows "no_later_than w (set_entry key val None st)"
    and "expires_first t st \<or> no_later_than w (set_entry key val (Some t) st)"
proof -
  note ex = set_entry_expirations [OF assms(1), of key val]
  have empty: "expirations (set_entry key val None st) = []" if "expirations st = []"
    using ex [of None] that by simp
  then show "no_later_than w (set_entry key val None st)"
    using assms(2) ex [of None] by (auto simp: no_later_than_def split: option.splits)
  show "expires_first t st \<or> no_later_than w (set_entry key val (Some t) st)"
  proof (cases "expirations st")
    case Nil
    then show ?thesis by (simp add: expires_first_def next_expiration_def)
  next
    case (Cons x xs)
    with assms(2) ex [of "Some t"] show ?thesis
      by (auto simp: expires_first_def next_expiration_def no_later_than_def
          split: option.splits prod.splits)
  qed
qed

lemma wake_inv_set:
  assumes "wake_inv s" and "db_set_locked (clock s) key val expire (shared_db s) = (d, Ok n)"
  shows "wake_inv (s\<lparr>shared_db := d, to_notify := to_notify s + (if n then 1 else 0)\<rparr>)"
proof (cases expire)
  case None
  with assms show ?thesis
    by (auto simp: wake_inv_def db_op_defs db_inv_set_entry no_later_than_set
        split: purge_task.splits if_splits)
next
  case (Some dur)
  with assms obtain w where w: "instant_add (clock s) dur = Ok w"
    by (auto simp: db_op_defs split: if_splits outcome.splits)
  from Some w assms show ?thesis
    using no_later_than_set(2) [of "db (shared_db s)" _ w key val]
    by (auto simp: wake_inv_def db_op_defs db_inv_set_entry
        split: purge_task.splits if_splits)
qed

lemma wake_inv_purge:
  assumes "wake_inv s" "task s = Purging"
    and "purge_expired_keys (clock s) (shared_db s) = (d, Ok w)"
  shows "wake_inv (s\<lparr>shared_db := d, task := Sleeping w\<rparr>)"
proof (cases "poisoned (shared_db s) \<or> db_shutdown (db (shared_db s))")
  case True
  with assms show ?thesis by (auto simp: wake_inv_def db_op_defs split: if_splits)
next
  case False
  obtain r xs es where pl:
    "purge_loop (clock s) (expirations (db (shared_db s))) (entries (db (shared_db s))) = (r, xs, es)"
    by (metis prod_cases3)
  let ?st = "(db (shared_db s))\<lparr>expirations := xs, entries := es\<rparr>"
  from assms(3) False pl have d: "d = (shared_db s)\<lparr>db := ?st\<rparr>" "w = r"
    by (auto simp: db_op_defs)
  have inv: "db_inv (db (shared_db s))" using assms(1) by (simp add: wake_inv_def)
  note inv' = db_inv_purge [OF inv pl]
  have "no_later_than w ?st"
    using purge_result [OF inv pl] inv' d(2)
    by (auto simp: no_later_than_def next_expiration_def db_inv_def less_eq_prod_def
        split: list.splits option.splits)
  with inv' d False show ?thesis by (simp add: wake_inv_def)
qed

lemma wake_inv_step: "db_step B s s' \<Longrightarrow> wake_inv s \<Longrightarrow> wake_inv s'"
proof (induction rule: db_step.induct)
  case (set_call s key val expire d n)
  then show ?case by (intro wake_inv_set) 
next
  case (task_purge s d w)
  then show ?case by (intro wake_inv_purge)
qed (auto simp: wake_inv_def db_op_defs notify_one_def
      split: if_splits option.splits prod.splits purge_task.splits outcome.splits)

lemma wake_inv_reachable: "db_reachable B s \<Longrightarrow> wake_inv s"
  by (induction rule: db_reachable.induct)
    (auto simp: wake_inv_def system_init_def db_inv_new dest: wake_inv_step [unfolded wake_inv_def]
      intro: wake_inv_step [unfolded wake_inv_def])

section \<open>Properties\<close>

text \<open>
  C6. No expiration is missed: in every state that clients, the purge task, the timer and
  notifications can reach in any interleaving, unless a panic has poisoned the mutex, a purge task
  that sleeps with no notification outstanding sleeps no longer than the earliest expiration of any
  entry, and the database is not shutting down; and the index agrees with the entries.
\<close>

theorem redis_no_missed_expiry:
  assumes "db_reachable B s" and "\<not> poisoned (shared_db s)"
  shows "db_inv (db (shared_db s)) \<and>
    (\<forall>w. task s = Sleeping w \<and> \<not> permit (shared_db s) \<and> to_notify s = 0 \<longrightarrow>
       \<not> db_shutdown (db (shared_db s)) \<and>
       (\<forall>k e t. entries (db (shared_db s)) k = Some e \<and> entry_expires_at e = Some t \<longrightarrow>
          (case w of None \<Rightarrow> False | Some u \<Rightarrow> u \<le> t)))"
proof -
  have inv: "wake_inv s" by (rule wake_inv_reachable [OF assms(1)])
  then have db: "db_inv (db (shared_db s))" by (simp add: wake_inv_def)
  have "case w of None \<Rightarrow> False | Some u \<Rightarrow> u \<le> t"
    if "no_later_than w (db (shared_db s))" "entries (db (shared_db s)) k = Some e"
      "entry_expires_at e = Some t" for w k e t
  proof -
    have "(t, k) \<in> set (expirations (db (shared_db s)))"
      using db that(2,3) unfolding db_inv_def by blast
    with that(1) show ?thesis by (auto simp: no_later_than_def split: option.splits)
  qed
  with inv assms(2) db show ?thesis by (auto simp: wake_inv_def)
qed

text \<open>A broadcast channel without receivers, enough to run the witnesses.\<close>

definition hub_ref :: "(nat, nat, nat) broadcast" where
  "hub_ref = \<lparr>bc_channel = (\<lambda>n h. (Suc h, h, h)), bc_subscribe = (\<lambda>tx h. (h, tx)),
     bc_send = (\<lambda>tx m h. (h, None))\<rparr>"

theorem redis_no_missed_expiry_witness:
  "\<exists>s :: (nat, nat) db_system. task s = Sleeping None \<and> \<not> permit (shared_db s) \<and>
     entries (db (shared_db s)) = Map.empty \<and> \<not> db_shutdown (db (shared_db s)) \<and>
     (\<forall>k e t. entries (db (shared_db s)) k = Some e \<and> entry_expires_at e = Some t \<longrightarrow> False)"
proof -
  let ?s0 = "system_init 5 0 :: (nat, nat) db_system"
  have 0: "db_reachable hub_ref ?s0" by (rule start)
  have "db_step hub_ref ?s0 (?s0\<lparr>shared_db := shared_db ?s0, task := Purging\<rparr>)"
    by (rule task_go) (simp_all add: system_init_def is_shutdown_def locked_def db_new_def)
  with 0 have 1: "db_reachable hub_ref (?s0\<lparr>shared_db := shared_db ?s0, task := Purging\<rparr>)"
    by (rule step)
  have "db_step hub_ref (?s0\<lparr>shared_db := shared_db ?s0, task := Purging\<rparr>)
      (?s0\<lparr>shared_db := shared_db ?s0, task := Purging\<rparr>
        \<lparr>shared_db := shared_db ?s0, task := Sleeping None\<rparr>)"
    by (rule task_purge)
      (simp_all add: system_init_def purge_expired_keys_def locked_def db_new_def)
  with 1 have "db_reachable hub_ref (?s0\<lparr>shared_db := shared_db ?s0, task := Purging\<rparr>
        \<lparr>shared_db := shared_db ?s0, task := Sleeping None\<rparr>)" (is "db_reachable _ ?s2")
    by (rule step)
  from redis_no_missed_expiry [OF this] have
    "\<not> db_shutdown (db (shared_db ?s2)) \<and>
     (\<forall>k e t. entries (db (shared_db ?s2)) k = Some e \<and> entry_expires_at e = Some t \<longrightarrow> False)"
    by (simp add: system_init_def db_new_def)
  then show ?thesis
    by (intro exI [of _ ?s2]) (simp add: system_init_def db_new_def)
qed

section \<open>Expired entries go\<close>

inductive task_step :: "('tx, 'h) db_system \<Rightarrow> ('tx, 'h) db_system \<Rightarrow> bool" where
  \<comment> \<open>the steps of the purge task itself and of a caller that still has to notify it\<close>
  pending_notify: "0 < to_notify s \<Longrightarrow>
    task_step s (s\<lparr>shared_db := notify_one (shared_db s), to_notify := to_notify s - 1\<rparr>)"
| loop_stop: "task s = AtLoop \<Longrightarrow> is_shutdown (shared_db s) = (d, Ok True) \<Longrightarrow>
    task_step s (s\<lparr>shared_db := d, task := TaskDone\<rparr>)"
| loop_go: "task s = AtLoop \<Longrightarrow> is_shutdown (shared_db s) = (d, Ok False) \<Longrightarrow>
    task_step s (s\<lparr>shared_db := d, task := Purging\<rparr>)"
| loop_panic: "task s = AtLoop \<Longrightarrow> is_shutdown (shared_db s) = (d, Panic) \<Longrightarrow>
    task_step s (s\<lparr>shared_db := d, task := TaskPanicked\<rparr>)"
| purge: "task s = Purging \<Longrightarrow> purge_expired_keys (clock s) (shared_db s) = (d, Ok w) \<Longrightarrow>
    task_step s (s\<lparr>shared_db := d, task := Sleeping w\<rparr>)"
| purge_panic: "task s = Purging \<Longrightarrow> purge_expired_keys (clock s) (shared_db s) = (d, Panic) \<Longrightarrow>
    task_step s (s\<lparr>shared_db := d, task := TaskPanicked\<rparr>)"
| timer: "task s = Sleeping (Some w) \<Longrightarrow> w \<le> clock s \<Longrightarrow> task_step s (s\<lparr>task := AtLoop\<rparr>)"
| notified: "task s = Sleeping w \<Longrightarrow> permit (shared_db s) \<Longrightarrow>
    task_step s (s\<lparr>shared_db := (shared_db s)\<lparr>permit := False\<rparr>, task := AtLoop\<rparr>)"

lemma task_step_db_step: "task_step s s' \<Longrightarrow> db_step B s s'"
  by (induction rule: task_step.induct) (rule db_step.intros; assumption)+

definition purge_distance :: "('tx, 'h) db_system \<Rightarrow> nat" where
  \<comment> \<open>the steps of the task, and of a pending notification, until it has purged; a task that has
    ended never does\<close>
  "purge_distance s =
     (case task s of
        Purging \<Rightarrow> 1
      | AtLoop \<Rightarrow> 2
      | Sleeping w \<Rightarrow> if permit (shared_db s) \<or> (case w of None \<Rightarrow> False | Some u \<Rightarrow> u \<le> clock s) then 3 else 4
      | _ \<Rightarrow> 5)"

definition has_expired :: "('tx, 'h) db_system \<Rightarrow> bytes \<Rightarrow> bool" where
  "has_expired s key \<longleftrightarrow>
     (case db_view (db (shared_db s)) key of Some (v, Some t) \<Rightarrow> t \<le> clock s | _ \<Rightarrow> False)"

lemma locked_permit:
  "db_get key d = (d', r1) \<Longrightarrow> permit d' = permit d"
  "db_set_locked now key val expire d = (d', r2) \<Longrightarrow> permit d' = permit d"
  "db_subscribe B key d = (d', r3) \<Longrightarrow> permit d' = permit d"
  "db_publish B key val d = (d', r4) \<Longrightarrow> permit d' = permit d"
  by (auto simp: db_op_defs split: if_splits option.splits outcome.splits prod.splits)

lemma purge_distance_same:
  "permit d = permit (shared_db s) \<Longrightarrow> purge_distance (s\<lparr>shared_db := d\<rparr>) = purge_distance s"
  "permit d = permit (shared_db s) \<Longrightarrow> purge_distance (s\<lparr>shared_db := d, to_notify := n\<rparr>) = purge_distance s"
  by (simp_all add: purge_distance_def cong: purge_task.case_cong option.case_cong)

lemma purged_not_expired:
  assumes "db_good (shared_db s)" and "\<not> db_shutdown (db (shared_db s))"
    and "purge_expired_keys (clock s) (shared_db s) = (d, Ok w)"
  shows "\<not> has_expired (s\<lparr>shared_db := d, task := p\<rparr>) key"
  using db_purge_view [OF assms(1,2), of "clock s"] assms(3)
  by (auto simp: has_expired_def spec_purge_def split: option.splits if_splits)

lemma purge_not_farther:
  assumes "db_step B s s'" and "db_good (shared_db s)" "\<not> db_shutdown (db (shared_db s))"
    and "\<not> poisoned (shared_db s')" "\<not> db_shutdown (db (shared_db s'))" "has_expired s' key"
  shows "purge_distance s' \<le> purge_distance s"
  using assms(1)
proof (cases rule: db_step.cases)
  case (tick t)
  then show ?thesis by (auto simp: purge_distance_def split: purge_task.split option.split)
next
  case (task_purge d w)
  from purged_not_expired [OF assms(2,3) task_purge(3)] assms(6) task_purge(1) show ?thesis by blast
next
  case (notify)
  then show ?thesis by (auto simp: purge_distance_def notify_one_def split: purge_task.split)
next
  case (shutdown_call d)
  then have "db_shutdown (db (shared_db s'))" using assms(2) by (auto simp: db_op_defs db_good_def)
  with assms(5) show ?thesis by simp
next
  case (task_purge_panic d)
  with db_purge_view [OF assms(2,3), of "clock s"] show ?thesis by auto
qed (simp_all add: purge_distance_same locked_permit,
    use assms(2,3) in \<open>auto simp: purge_distance_def db_op_defs db_good_def\<close>)

lemma task_step_nearer:
  assumes "task_step s s'" and "db_good (shared_db s)" "\<not> db_shutdown (db (shared_db s))"
  shows "\<not> has_expired s' key \<or> to_notify s' + purge_distance s' < to_notify s + purge_distance s"
  using assms(1)
proof (cases rule: task_step.cases)
  case pending_notify
  then have "purge_distance s' \<le> purge_distance s" "to_notify s' < to_notify s"
    by (auto simp: purge_distance_def notify_one_def split: purge_task.split)
  then show ?thesis by linarith
next
  case (purge d w)
  from purged_not_expired [OF assms(2,3) purge(3)] purge(1) show ?thesis by blast
next
  case (purge_panic d)
  with db_purge_view [OF assms(2,3), of "clock s"] show ?thesis by auto
qed (use assms(2,3) in \<open>auto simp: db_op_defs db_good_def purge_distance_def\<close>)

lemma notification_pending:
  \<comment> \<open>the invariant: a sleeping task with an expired entry has been or will be woken\<close>
  assumes "wake_inv s" and "\<not> poisoned (shared_db s)" and "has_expired s key"
    and "task s = Sleeping w" "\<not> permit (shared_db s)" "\<not> (\<exists>u. w = Some u \<and> u \<le> clock s)"
  shows "0 < to_notify s"
proof (rule ccontr)
  assume "\<not> 0 < to_notify s"
  with assms have "no_later_than w (db (shared_db s))" "db_inv (db (shared_db s))"
    by (simp_all add: wake_inv_def)
  moreover from assms(3) obtain e t where "entries (db (shared_db s)) key = Some e" "entry_expires_at e = Some t"
    "t \<le> clock s" by (auto simp: has_expired_def db_view_def split: option.splits)
  moreover from this calculation(2) have "(t, key) \<in> set (expirations (db (shared_db s)))"
    unfolding db_inv_def by blast
  ultimately show False using assms(6) by (fastforce simp: no_later_than_def split: option.splits)
qed

definition purges_within :: "nat \<Rightarrow> ('tx, 'h) db_system \<Rightarrow> bool" where
  "purges_within n s \<longleftrightarrow> (\<exists>m s'. m \<le> n \<and> (task_step ^^ m) s s' \<and> clock s' = clock s \<and>
     db_view (db (shared_db s')) = spec_purge (clock s) (db_view (db (shared_db s))))"

lemma purges_within_step:
  assumes "task_step s t" "clock t = clock s" "db (shared_db t) = db (shared_db s)" "purges_within n t"
  shows "purges_within (Suc n) s"
proof -
  from assms(4) obtain m s' where "m \<le> n" "(task_step ^^ m) t s'" "clock s' = clock t"
    "db_view (db (shared_db s')) = spec_purge (clock t) (db_view (db (shared_db t)))"
    unfolding purges_within_def by blast
  with assms(1-3) relpowp_Suc_I2 [of task_step s t m s'] show ?thesis
    unfolding purges_within_def by (intro exI [of _ "Suc m"] exI [of _ s']) simp
qed

lemma purges_within_weaken: "purges_within m s \<Longrightarrow> m \<le> n \<Longrightarrow> purges_within n s"
  unfolding purges_within_def by (meson order_trans)

lemma purges_Purging:
  assumes "db_good (shared_db s)" "\<not> db_shutdown (db (shared_db s))" "task s = Purging"
  shows "purges_within 1 s"
proof -
  obtain d w where d: "purge_expired_keys (clock s) (shared_db s) = (d, Ok w)"
    "db_view (db d) = spec_purge (clock s) (db_view (db (shared_db s)))"
    using db_purge_view [OF assms(1,2), of "clock s"] by blast
  with purge [OF assms(3) d(1)] show ?thesis
    unfolding purges_within_def
    by (intro exI [of _ "1 :: nat"] exI [of _ "s\<lparr>shared_db := d, task := Sleeping w\<rparr>"])
      (simp add: eq_OO)
qed

lemma purges_AtLoop:
  assumes "db_good (shared_db s)" "\<not> db_shutdown (db (shared_db s))" "task s = AtLoop"
  shows "purges_within 2 s"
proof -
  have "is_shutdown (shared_db s) = (shared_db s, Ok False)"
    using assms(1,2) by (simp add: db_op_defs db_good_def)
  from purges_within_step [OF loop_go [OF assms(3) this] _ _ purges_Purging] assms(1,2) show ?thesis
    by (simp add: numeral_2_eq_2)
qed

lemma purges_woken:
  assumes "db_good (shared_db s)" "\<not> db_shutdown (db (shared_db s))" "task s = Sleeping w"
    and "permit (shared_db s) \<or> (\<exists>u. w = Some u \<and> u \<le> clock s)"
  shows "purges_within 3 s"
proof (cases "permit (shared_db s)")
  case True
  from purges_within_step [OF notified [OF assms(3) True] _ _ purges_AtLoop] assms(1,2) show ?thesis
    by (simp add: db_good_def eval_nat_numeral)
next
  case False
  with assms(4) obtain u where u: "w = Some u" "u \<le> clock s" by blast
  from purges_within_step [OF timer [OF assms(3) [unfolded u(1)] u(2)] _ _ purges_AtLoop] assms(1,2)
  show ?thesis by (simp add: eval_nat_numeral)
qed

lemma purges_expired:
  assumes "wake_inv s" and "\<not> poisoned (shared_db s)" "\<not> db_shutdown (db (shared_db s))" and "has_expired s key"
  shows "purges_within 4 s"
proof -
  have good: "db_good (shared_db s)" using assms(1,2) by (simp add: db_good_def wake_inv_def)
  show ?thesis
  proof (cases "task s")
    case AtLoop
    from purges_within_weaken [OF purges_AtLoop [OF good assms(3) this]] show ?thesis by simp
  next
    case Purging
    from purges_within_weaken [OF purges_Purging [OF good assms(3) this]] show ?thesis by simp
  next
    case (Sleeping w)
    show ?thesis
    proof (cases "permit (shared_db s) \<or> (\<exists>u. w = Some u \<and> u \<le> clock s)")
      case True
      from purges_within_weaken [OF purges_woken [OF good assms(3) Sleeping True]] show ?thesis by simp
    next
      case False
      with notification_pending [OF assms(1,2,4) Sleeping] have "0 < to_notify s" by blast
      from purges_within_step [OF pending_notify [OF this] _ _ purges_woken [where w = w]] good assms(3) Sleeping
      show ?thesis by (simp add: db_good_def notify_one_def eval_nat_numeral)
    qed
  qed (use assms in \<open>simp_all add: wake_inv_def\<close>)
qed

lemma not_expired_purged:
  "db_view (db (shared_db s)) = spec_purge (clock s) v \<Longrightarrow> \<not> has_expired s key"
  by (auto simp: has_expired_def spec_purge_def split: option.splits if_splits)

lemma task_step_enabled:
  assumes "purges_within n s" "has_expired s key"
  shows "\<exists>s'. task_step s s'"
proof -
  from assms(1) obtain m s' where m: "(task_step ^^ m) s s'" "clock s' = clock s"
    "db_view (db (shared_db s')) = spec_purge (clock s) (db_view (db (shared_db s)))"
    unfolding purges_within_def by blast
  show ?thesis
  proof (cases m)
    case 0
    with m not_expired_purged [of s "db_view (db (shared_db s))" key] assms(2) show ?thesis by simp
  next
    case (Suc k)
    with m(1) show ?thesis by (metis relpowp_Suc_E2)
  qed
qed

text \<open>
  C7. Expired entries are removed by the purge task.  While an entry whose deadline has passed is in
  the database, and no panic has poisoned the mutex and the database is not shutting down: the task,
  with at most one pending notification, needs no more than four steps of its own to purge, and then
  exactly the expired entries are gone; a step of the task or of a pending notification is always
  possible, and whichever of them comes, either the entry is gone or fewer of them are left; and no
  step of anyone else, clients included, takes the purge farther away.
\<close>

theorem redis_expired_removed:
  assumes "db_reachable B s" and "\<not> poisoned (shared_db s)" "\<not> db_shutdown (db (shared_db s))"
    and "has_expired s key"
  shows "(\<exists>n s'. n \<le> 4 \<and> (task_step ^^ n) s s' \<and> clock s' = clock s \<and>
       db_view (db (shared_db s')) = spec_purge (clock s) (db_view (db (shared_db s)))) \<and>
    (\<exists>s'. task_step s s') \<and>
    (\<forall>s'. task_step s s' \<longrightarrow> db_step B s s' \<and>
       (\<not> has_expired s' key \<or> to_notify s' + purge_distance s' < to_notify s + purge_distance s)) \<and>
    (\<forall>s'. db_step B s s' \<and> has_expired s' key \<and> \<not> poisoned (shared_db s') \<and> \<not> db_shutdown (db (shared_db s')) \<longrightarrow>
       purge_distance s' \<le> purge_distance s)"
proof (intro conjI allI impI)
  have inv: "wake_inv s" by (rule wake_inv_reachable [OF assms(1)])
  then have good: "db_good (shared_db s)" using assms(2) by (simp add: wake_inv_def db_good_def)
  have within: "purges_within 4 s" by (rule purges_expired [OF inv assms(2-4)])
  then show "\<exists>n s'. n \<le> 4 \<and> (task_step ^^ n) s s' \<and> clock s' = clock s \<and>
       db_view (db (shared_db s')) = spec_purge (clock s) (db_view (db (shared_db s)))"
    unfolding purges_within_def .
  show "\<exists>s'. task_step s s'" by (rule task_step_enabled [OF within assms(4)])
  fix s'
  show "db_step B s s'" if "task_step s s'" using that by (rule task_step_db_step)
  show "\<not> has_expired s' key \<or> to_notify s' + purge_distance s' < to_notify s + purge_distance s"
    if "task_step s s'" using that good assms(3) by (rule task_step_nearer)
  show "purge_distance s' \<le> purge_distance s"
    if "db_step B s s' \<and> has_expired s' key \<and> \<not> poisoned (shared_db s') \<and> \<not> db_shutdown (db (shared_db s'))"
    using that good assms(3) by (blast intro: purge_not_farther)
qed

theorem redis_expired_removed_witness:
  "\<exists>n (s :: (nat, nat) db_system) s'. db_view (db (shared_db s)) = [[97] \<mapsto> ([1], Some 6)] \<and> clock s = 7 \<and>
     n \<le> 4 \<and> (task_step ^^ n) s s' \<and> db_view (db (shared_db s')) = Map.empty"
proof -
  let ?s0 = "system_init 5 0 :: (nat, nat) db_system"
  obtain d where d: "db_set_locked (clock ?s0) [97] [1] (Some 1) (shared_db ?s0) = (d, Ok True)"
    "\<not> poisoned d" "\<not> db_shutdown (db d)" "db_view (db d) = [[97] \<mapsto> ([1], Some 6)]"
    by (auto simp: system_init_def db_new_def db_set_locked_def locked_def instant_add_def instant_limit_def
        expires_first_def next_expiration_def set_entry_def db_view_def fun_eq_iff)
  let ?s1 = "?s0\<lparr>shared_db := d, to_notify := to_notify ?s0 + (if True then 1 else 0)\<rparr>"
  let ?s = "?s1\<lparr>clock := 7\<rparr>"
  have "db_reachable hub_ref ?s1" by (rule step [OF start set_call [OF d(1)]])
  moreover have "db_step hub_ref ?s1 ?s" by (rule tick) (simp add: system_init_def)
  ultimately have reach: "db_reachable hub_ref ?s" by (rule step)
  have s: "\<not> poisoned (shared_db ?s)" "\<not> db_shutdown (db (shared_db ?s))" "has_expired ?s [97]"
    using d by (simp_all add: has_expired_def system_init_def)
  from redis_expired_removed [OF reach s] obtain n s' where
    "n \<le> 4" "(task_step ^^ n) ?s s'" "db_view (db (shared_db s')) = spec_purge 7 [[97] \<mapsto> ([1], Some 6)]"
    using d(4) by auto
  moreover have "spec_purge 7 [[97] \<mapsto> ([1], Some 6)] = Map.empty"
    by (simp add: spec_purge_def fun_eq_iff)
  ultimately show ?thesis using d(4) by (intro exI [of _ n] exI [of _ ?s] exI [of _ s']) simp
qed

text \<open>
  The database refines a map of keys to values with deadlines: \<open>get\<close> reads the map, \<open>set\<close>
  replaces the value and the deadline of its key and nothing else, \<open>purge_expired_keys\<close> removes
  exactly the keys whose deadline has come and returns the earliest deadline left, and all of them
  keep the index of expirations in step with the entries.
\<close>

theorem redis_db_refines:
  assumes "db_inv (db s)" and "\<not> poisoned s"
    and "\<And>d. expire = Some d \<Longrightarrow> now + d < instant_limit" and "\<not> db_shutdown (db s)"
  shows "db_get key s = (s, Ok (map_option fst (db_view (db s) key))) \<and>
    (\<exists>s'. db_set now key val expire s = (s', Ok ()) \<and> db_inv (db s') \<and> \<not> poisoned s' \<and>
       db_view (db s') = (db_view (db s))(key \<mapsto> (val, map_option ((+) now) expire))) \<and>
    (\<exists>s' r. purge_expired_keys now s = (s', Ok r) \<and> db_inv (db s') \<and> \<not> poisoned s' \<and>
       db_view (db s') = spec_purge now (db_view (db s)) \<and>
       r = (if expirations (db s') = [] then None
            else Some (Min (fst ` set (expirations (db s'))))))"
proof -
  have good: "db_good s" using assms(1,2) by (simp add: db_good_def)
  have "deadline_fits now expire" using assms(3) by (simp add: deadline_fits_def split: option.split)
  from db_set_view [OF good this, of key val] db_purge_view [OF good assms(4), of now] show ?thesis
    using db_get_view [OF good, of key] by (auto simp: db_good_def next_expiration_least)
qed

theorem redis_db_refines_witness:
  "\<exists>s'. db_set 10 [97] [1] (Some 5) (db_new 0 :: (nat, nat) shared) = (s', Ok ()) \<and>
     db_inv (db s') \<and> \<not> poisoned s' \<and>
     db_view (db s') = (db_view (db (db_new 0 :: (nat, nat) shared)))([97] \<mapsto> ([1], Some 15))"
  using redis_db_refines [of "db_new 0 :: (nat, nat) shared" "Some 5" 10 "[97]" "[1]"]
  by (simp add: db_inv_new instant_limit_def) (simp add: db_new_def)

text \<open>
  C16. A time to live that overflows the clock stops the whole server: \<open>Instant::now() + duration\<close>
  panics inside the critical section, so the mutex is poisoned and from then on every operation of
  every client, and the purge task, panics too. \<open>SET key value EX 18446744073709551615\<close> from a
  client is enough.
\<close>

theorem redis_ttl_overflow_poisons:
  assumes "\<not> poisoned s" and "instant_limit \<le> now + d"
  shows "\<exists>s'. db_set now key val (Some d) s = (s', Panic) \<and> db s' = db s \<and>
    (\<forall>k. db_get k s' = (s', Panic)) \<and>
    (\<forall>now' k v x. db_set now' k v x s' = (s', Panic)) \<and>
    (\<forall>B k. db_subscribe (B :: ('tx, 'rx, 'h) broadcast) k s' = (s', Panic)) \<and>
    (\<forall>B k v. db_publish (B :: ('tx, 'rx, 'h) broadcast) k v s' = (s', Panic)) \<and>
    (\<forall>now'. purge_expired_keys now' s' = (s', Panic))"
  using assms
  by (intro exI [of _ "s\<lparr>poisoned := True\<rparr>"])
    (simp add: db_set_def db_op_defs instant_add_def)

theorem redis_ttl_overflow_poisons_witness:
  "\<exists>s' :: (nat, nat) shared.
     db_set 0 [97] [1] (Some (duration_from_secs (2 ^ 63))) (db_new 0) = (s', Panic) \<and>
     db_get [98] s' = (s', Panic)"
proof -
  have "instant_limit \<le> 0 + duration_from_secs (2 ^ 63)"
    by (simp add: instant_limit_def duration_from_secs_def)
  moreover have "\<not> poisoned (db_new 0 :: (nat, nat) shared)" by (simp add: db_new_def)
  ultimately show ?thesis
    using redis_ttl_overflow_poisons [of "db_new 0 :: (nat, nat) shared" 0
        "duration_from_secs (2 ^ 63)" "[97]" "[1]"]
    by blast
qed

end
