(* ===== verification/Redis_Server.thy ===== *)
theory Redis_Server
  imports Redis_Purge
begin

text \<open>
  The handling of one connection (\<open>Handler::run\<close> in \<open>server.rs\<close>, the \<open>apply\<close> of every command under
  \<open>cmd/\<close>, and the subscriber loop of \<open>subscribe.rs\<close>) as a state machine: one step per completed
  branch of the \<open>select!\<close> the handler waits in. The \<open>StreamMap\<close> of \<open>tokio-stream\<close>, a keyed collection
  of receivers, is a parameter.
\<close>

section \<open>State\<close>

record ('m, 'rx) stream_map =
  sm_new :: 'm
  sm_insert :: "bytes \<Rightarrow> 'rx \<Rightarrow> 'm \<Rightarrow> 'm"
  sm_remove :: "bytes \<Rightarrow> 'm \<Rightarrow> 'm"
  sm_keys :: "'m \<Rightarrow> bytes list"
  sm_len :: "'m \<Rightarrow> nat"

definition stream_map_laws :: "('m, 'rx) stream_map \<Rightarrow> bool" where
  \<comment> \<open>the documented behaviour: a map with one stream per key\<close>
  "stream_map_laws M \<longleftrightarrow>
     sm_keys M (sm_new M) = [] \<and>
     (\<forall>m. distinct (sm_keys M m) \<and> sm_len M m = length (sm_keys M m)) \<and>
     (\<forall>k r m. set (sm_keys M (sm_insert M k r m)) = insert k (set (sm_keys M m))) \<and>
     (\<forall>k m. set (sm_keys M (sm_remove M k m)) = set (sm_keys M m) - {k})"

datatype 'm mode =
    Serving
  | Subscribed 'm \<comment> \<open>inside \<open>Subscribe::apply\<close>, with the active subscriptions\<close>
  | Closed "(redis_error, unit) outcome"

record ('tx, 'h, 'm) handler =
  h_db :: "('tx, 'h) shared"
  h_conn :: connection
  h_is_shutdown :: bool
  h_mode :: "'m mode"

datatype select_event =
    FrameReady \<comment> \<open>\<open>read_frame\<close> completes\<close>
  | MessageReady bytes bytes \<comment> \<open>a subscription yields a message\<close>
  | ShutdownReady \<comment> \<open>\<open>shutdown.recv\<close> completes\<close>

type_synonym ('tx, 'h, 'a) apply_result =
  "('tx, 'h) shared \<times> connection \<times> (redis_error, 'a) outcome"

section \<open>Applying the commands\<close>

definition on_conn ::
  "('tx, 'h) shared \<Rightarrow> connection \<times> (redis_error, 'a) outcome \<Rightarrow> ('tx, 'h, 'a) apply_result" where
  "on_conn d cr = (d, fst cr, snd cr)"

definition reply_with ::
  "('tx, 'h) shared \<times> (redis_error, frame) outcome \<Rightarrow> connection \<Rightarrow> ('tx, 'h, unit) apply_result" where
  \<comment> \<open>write the response that a database call led to\<close>
  "reply_with dr c =
     (case dr of
        (d, Ok response) \<Rightarrow> on_conn d (write_frame response c)
      | (d, Err e) \<Rightarrow> (d, c, Err e)
      | (d, Panic) \<Rightarrow> (d, c, Panic)
      | (d, Diverge) \<Rightarrow> (d, c, Diverge))"

definition get_apply ::
  "bytes \<Rightarrow> ('tx, 'h) shared \<Rightarrow> connection \<Rightarrow> ('tx, 'h, unit) apply_result" where
  "get_apply key d =
     reply_with (sbind (db_get key d)
       (\<lambda>d val. (d, Ok (case val of Some v \<Rightarrow> Bulk v | None \<Rightarrow> Null))))"

definition set_apply ::
  "instant \<Rightarrow> bytes \<Rightarrow> bytes \<Rightarrow> nat option \<Rightarrow> ('tx, 'h) shared \<Rightarrow> connection
     \<Rightarrow> ('tx, 'h, unit) apply_result" where
  "set_apply now key val expire d =
     reply_with (sbind (db_set now key val expire d) (\<lambda>d _. (d, Ok (Simple (bstr ''OK'')))))"

definition publish_apply ::
  "('tx, 'rx, 'h) broadcast \<Rightarrow> bytes \<Rightarrow> bytes \<Rightarrow> ('tx, 'h) shared \<Rightarrow> connection
     \<Rightarrow> ('tx, 'h, unit) apply_result" where
  "publish_apply B channel message d =
     reply_with (sbind (db_publish B channel message d) (\<lambda>d n. (d, Ok (Integer (of_nat n)))))"

definition ping_apply ::
  "bytes option \<Rightarrow> ('tx, 'h) shared \<Rightarrow> connection \<Rightarrow> ('tx, 'h, unit) apply_result" where
  "ping_apply msg d =
     reply_with (d, Ok (case msg of None \<Rightarrow> Simple (bstr ''PONG'') | Some m \<Rightarrow> Bulk m))"

definition unknown_reply :: "bytes \<Rightarrow> frame" where
  "unknown_reply name = Error (bstr ''ERR unknown command '' @ [39] @ name @ [39])"

definition unknown_apply ::
  "bytes \<Rightarrow> ('tx, 'h) shared \<Rightarrow> connection \<Rightarrow> ('tx, 'h, unit) apply_result" where
  "unknown_apply name d = reply_with (d, Ok (unknown_reply name))"

section \<open>Subscriptions\<close>

definition channel_frame :: "bytes \<Rightarrow> bytes \<Rightarrow> nat \<Rightarrow> (redis_error, frame) outcome" where
  \<comment> \<open>\<open>make_subscribe_frame\<close> and \<open>make_unsubscribe_frame\<close>, by their first entry\<close>
  "channel_frame name channel num_subs =
     obind (push_bulk frame_array name) (\<lambda>f.
       obind (push_bulk f channel) (\<lambda>f. push_int f (of_nat num_subs)))"

definition make_message_frame :: "bytes \<Rightarrow> bytes \<Rightarrow> (redis_error, frame) outcome" where
  "make_message_frame channel msg =
     obind (push_bulk frame_array (bstr ''message'')) (\<lambda>f.
       obind (push_bulk f channel) (\<lambda>f. push_bulk f msg))"

definition subscribe_to_channel ::
  "('tx, 'rx, 'h) broadcast \<Rightarrow> ('m, 'rx) stream_map \<Rightarrow> bytes \<Rightarrow> 'm
     \<Rightarrow> ('tx, 'h) shared \<Rightarrow> connection \<Rightarrow> ('tx, 'h, 'm) apply_result" where
  "subscribe_to_channel B M channel subs d c =
     (case db_subscribe B channel d of
        (d, Ok rx) \<Rightarrow>
          (let subs = sm_insert M channel rx subs in
           case reply_with (d, channel_frame (bstr ''subscribe'') channel (sm_len M subs)) c of
             (d, c, Ok _) \<Rightarrow> (d, c, Ok subs)
           | (d, c, Err e) \<Rightarrow> (d, c, Err e)
           | (d, c, Panic) \<Rightarrow> (d, c, Panic)
           | (d, c, Diverge) \<Rightarrow> (d, c, Diverge))
      | (d, Err e) \<Rightarrow> (d, c, Err e)
      | (d, Panic) \<Rightarrow> (d, c, Panic)
      | (d, Diverge) \<Rightarrow> (d, c, Diverge))"

fun subscribe_all ::
  "('tx, 'rx, 'h) broadcast \<Rightarrow> ('m, 'rx) stream_map \<Rightarrow> bytes list \<Rightarrow> 'm
     \<Rightarrow> ('tx, 'h) shared \<Rightarrow> connection \<Rightarrow> ('tx, 'h, 'm) apply_result" where
  \<comment> \<open>the loop that drains \<open>self.channels\<close>\<close>
  "subscribe_all B M [] subs d c = (d, c, Ok subs)"
| "subscribe_all B M (channel # cs) subs d c =
     (case subscribe_to_channel B M channel subs d c of
        (d, c, Ok subs) \<Rightarrow> subscribe_all B M cs subs d c
      | r \<Rightarrow> r)"

fun unsubscribe_all ::
  "('m, 'rx) stream_map \<Rightarrow> bytes list \<Rightarrow> 'm \<Rightarrow> connection \<Rightarrow> connection \<times> (redis_error, 'm) outcome" where
  "unsubscribe_all M [] subs c = (c, Ok subs)"
| "unsubscribe_all M (channel # cs) subs c =
     (let subs = sm_remove M channel subs in
      case channel_frame (bstr ''unsubscribe'') channel (sm_len M subs) of
        Ok response \<Rightarrow> sbind (write_frame response c) (\<lambda>c _. unsubscribe_all M cs subs c)
      | Err e \<Rightarrow> (c, Err e)
      | Panic \<Rightarrow> (c, Panic)
      | Diverge \<Rightarrow> (c, Diverge))"

definition handle_command ::
  "redis_env \<Rightarrow> ('m, 'rx) stream_map \<Rightarrow> frame \<Rightarrow> 'm \<Rightarrow> connection
     \<Rightarrow> connection \<times> (redis_error, 'm \<times> bytes list) outcome" where
  \<comment> \<open>a frame received while subscribed; the result also holds the channels to add\<close>
  "handle_command E M frame subs c =
     (case from_frame E frame of
        Ok (Subscribe channels) \<Rightarrow> (c, Ok (subs, channels))
      | Ok (Unsubscribe channels) \<Rightarrow>
          (let channels = (if channels = [] then sm_keys M subs else channels) in
           sbind (unsubscribe_all M channels subs c) (\<lambda>c subs. (c, Ok (subs, []))))
      | Ok command \<Rightarrow>
          sbind (write_frame (unknown_reply (get_name command)) c) (\<lambda>c _. (c, Ok (subs, [])))
      | Err e \<Rightarrow> (c, Err e)
      | Panic \<Rightarrow> (c, Panic)
      | Diverge \<Rightarrow> (c, Diverge))"

section \<open>The handler\<close>

fun command_apply ::
  "('tx, 'rx, 'h) broadcast \<Rightarrow> ('m, 'rx) stream_map \<Rightarrow> instant \<Rightarrow> command
     \<Rightarrow> ('tx, 'h) shared \<Rightarrow> connection \<Rightarrow> ('tx, 'h, 'm option) apply_result" where
  \<comment> \<open>\<open>Command::apply\<close>; the result says whether the handler stays in the subscriber loop\<close>
  "command_apply B M now (Get key) d c =
     (case get_apply key d c of (d, c, r) \<Rightarrow> (d, c, obind r (\<lambda>_. Ok None)))"
| "command_apply B M now (Publish channel message) d c =
     (case publish_apply B channel message d c of (d, c, r) \<Rightarrow> (d, c, obind r (\<lambda>_. Ok None)))"
| "command_apply B M now (Set key val expire) d c =
     (case set_apply now key val expire d c of (d, c, r) \<Rightarrow> (d, c, obind r (\<lambda>_. Ok None)))"
| "command_apply B M now (Subscribe channels) d c =
     (case subscribe_all B M channels (sm_new M) d c of
        (d, c, r) \<Rightarrow> (d, c, obind r (\<lambda>subs. Ok (Some subs))))"
| "command_apply B M now (Ping msg) d c =
     (case ping_apply msg d c of (d, c, r) \<Rightarrow> (d, c, obind r (\<lambda>_. Ok None)))"
| "command_apply B M now (Unknown name) d c =
     (case unknown_apply name d c of (d, c, r) \<Rightarrow> (d, c, obind r (\<lambda>_. Ok None)))"
| "command_apply B M now (Unsubscribe channels) d c = (d, c, Err UnsubscribeUnsupported)"

fun close_with :: "(redis_error, 'a) outcome \<Rightarrow> 'm mode" where
  "close_with (Ok x) = Closed (Ok ())"
| "close_with (Err e) = Closed (Err e)"
| "close_with Panic = Closed Panic"
| "close_with Diverge = Closed Diverge"

fun run_apply ::
  "('tx, 'h, 'm option) apply_result \<Rightarrow> ('tx, 'h, 'm) handler \<Rightarrow> ('tx, 'h, 'm) handler" where
  "run_apply (d, c, Ok None) h = h\<lparr>h_db := d, h_conn := c, h_mode := Serving\<rparr>"
| "run_apply (d, c, Ok (Some subs)) h = h\<lparr>h_db := d, h_conn := c, h_mode := Subscribed subs\<rparr>"
| "run_apply (d, c, r) h = h\<lparr>h_db := d, h_conn := c, h_mode := close_with r\<rparr>"

definition serve_frame ::
  "('tx, 'rx, 'h) broadcast \<Rightarrow> ('m, 'rx) stream_map \<Rightarrow> redis_env \<Rightarrow> instant
     \<Rightarrow> ('tx, 'h, 'm) handler \<Rightarrow> ('tx, 'h, 'm) handler" where
  \<comment> \<open>the body of the loop of \<open>Handler::run\<close> after \<open>read_frame\<close> completed\<close>
  "serve_frame B M E now h =
     (case read_frame E (h_conn h) of
        (c, Ok None) \<Rightarrow> h\<lparr>h_conn := c, h_mode := Closed (Ok ())\<rparr>
      | (c, Ok (Some frame)) \<Rightarrow>
          (case from_frame E frame of
             Ok cmd \<Rightarrow> run_apply (command_apply B M now cmd (h_db h) c) h
           | r \<Rightarrow> h\<lparr>h_conn := c, h_mode := close_with r\<rparr>)
      | (c, r) \<Rightarrow> h\<lparr>h_conn := c, h_mode := close_with r\<rparr>)"

definition subscriber_frame ::
  "('tx, 'rx, 'h) broadcast \<Rightarrow> ('m, 'rx) stream_map \<Rightarrow> redis_env \<Rightarrow> 'm
     \<Rightarrow> ('tx, 'h, 'm) handler \<Rightarrow> ('tx, 'h, 'm) handler" where
  \<comment> \<open>the same branch of the subscriber loop, up to the next wait\<close>
  "subscriber_frame B M E subs h =
     (case read_frame E (h_conn h) of
        (c, Ok None) \<Rightarrow> h\<lparr>h_conn := c, h_mode := Serving\<rparr>
      | (c, Ok (Some frame)) \<Rightarrow>
          (case handle_command E M frame subs c of
             (c, Ok (subs, channels)) \<Rightarrow>
               (case subscribe_all B M channels subs (h_db h) c of
                  (d, c, r) \<Rightarrow> run_apply (d, c, obind r (\<lambda>subs. Ok (Some subs))) h)
           | (c, r) \<Rightarrow> h\<lparr>h_conn := c, h_mode := close_with r\<rparr>)
      | (c, r) \<Rightarrow> h\<lparr>h_conn := c, h_mode := close_with r\<rparr>)"

definition subscriber_message ::
  "bytes \<Rightarrow> bytes \<Rightarrow> ('tx, 'h, 'm) handler \<Rightarrow> ('tx, 'h, 'm) handler" where
  "subscriber_message channel msg h =
     (case make_message_frame channel msg of
        Ok f \<Rightarrow>
          (case write_frame f (h_conn h) of
             (c, Ok _) \<Rightarrow> h\<lparr>h_conn := c\<rparr>
           | (c, r) \<Rightarrow> h\<lparr>h_conn := c, h_mode := close_with r\<rparr>)
      | r \<Rightarrow> h\<lparr>h_mode := close_with r\<rparr>)"

definition handler_step ::
  "('tx, 'rx, 'h) broadcast \<Rightarrow> ('m, 'rx) stream_map \<Rightarrow> redis_env \<Rightarrow> instant \<Rightarrow> select_event
     \<Rightarrow> ('tx, 'h, 'm) handler \<Rightarrow> ('tx, 'h, 'm) handler" where
  "handler_step B M E now ev h =
     (case h_mode h of
        Closed r \<Rightarrow> h
      | Serving \<Rightarrow>
          if h_is_shutdown h then h\<lparr>h_mode := Closed (Ok ())\<rparr>
          else (case ev of
                  FrameReady \<Rightarrow> serve_frame B M E now h
                | ShutdownReady \<Rightarrow> h\<lparr>h_is_shutdown := True, h_mode := Closed (Ok ())\<rparr>
                | MessageReady channel msg \<Rightarrow> h)
      | Subscribed subs \<Rightarrow>
          (case ev of
             FrameReady \<Rightarrow> subscriber_frame B M E subs h
           | ShutdownReady \<Rightarrow> h\<lparr>h_is_shutdown := True, h_mode := Closed (Ok ())\<rparr>
           | MessageReady channel msg \<Rightarrow> subscriber_message channel msg h))"

definition handler_new :: "('tx, 'h) shared \<Rightarrow> connection \<Rightarrow> ('tx, 'h, 'm) handler" where
  "handler_new d c = \<lparr>h_db = d, h_conn = c, h_is_shutdown = False, h_mode = Serving\<rparr>"

fun handler_run ::
  "('tx, 'rx, 'h) broadcast \<Rightarrow> ('m, 'rx) stream_map \<Rightarrow> redis_env \<Rightarrow> (instant \<times> select_event) list
     \<Rightarrow> ('tx, 'h, 'm) handler \<Rightarrow> ('tx, 'h, 'm) handler" where
  "handler_run B M E [] h = h"
| "handler_run B M E ((now, ev) # evs) h = handler_run B M E evs (handler_step B M E now ev h)"

end
