(* ===== verification/Redis_Service.thy ===== *)
theory Redis_Service
  imports Redis_Server
begin

text \<open>
  The properties of the server as its clients see it: the key-value service refines an abstract map
  over any chunking of both directions of the socket, every request has one reply, and the
  subscriber loop acknowledges what it is asked for.
\<close>

section \<open>The abstract service\<close>

fun spec_apply :: "instant \<Rightarrow> command \<Rightarrow> expiring_map \<Rightarrow> expiring_map \<times> frame" where
  "spec_apply now (Get key) m = (m, case m key of Some (v, t) \<Rightarrow> Bulk v | None \<Rightarrow> Null)"
| "spec_apply now (Set key val expire) m =
     (m(key \<mapsto> (val, map_option ((+) now) expire)), Simple (bstr ''OK''))"
| "spec_apply now (Ping msg) m =
     (m, case msg of None \<Rightarrow> Simple (bstr ''PONG'') | Some b \<Rightarrow> Bulk b)"
| "spec_apply now c m = (m, Null)"

fun spec_run :: "(instant \<times> command) list \<Rightarrow> expiring_map \<Rightarrow> expiring_map \<times> frame list" where
  "spec_run [] m = (m, [])"
| "spec_run ((now, c) # cs) m =
     (case spec_apply now c m of
        (m, f) \<Rightarrow> (case spec_run cs m of (m, fs) \<Rightarrow> (m, f # fs)))"

definition small :: "bytes \<Rightarrow> bool" where
  "small b \<longleftrightarrow> length b + 2 < usize_limit"

fun kv_request :: "instant \<Rightarrow> command \<Rightarrow> bool" where
  \<comment> \<open>a \<open>GET\<close>, \<open>SET\<close> or \<open>PING\<close> that fits in memory and whose deadline the clock can represent\<close>
  "kv_request now (Get key) \<longleftrightarrow> valid_utf8 key"
| "kv_request now (Set key val expire) \<longleftrightarrow> valid_utf8 key \<and> small val \<and>
     (case expire of None \<Rightarrow> True | Some d \<Rightarrow> now + d < instant_limit)"
| "kv_request now (Ping msg) \<longleftrightarrow> (case msg of None \<Rightarrow> True | Some b \<Rightarrow> small b)"
| "kv_request now c \<longleftrightarrow> False"

definition storable :: "expiring_map \<Rightarrow> bool" where
  "storable m \<longleftrightarrow> (\<forall>k v t. m k = Some (v, t) \<longrightarrow> small v)"

lemma storable_small: "storable m \<Longrightarrow> m k = Some (v, t) \<Longrightarrow> small v"
  unfolding storable_def by blast

section \<open>One request\<close>

lemma read_events_next:
  assumes "all_chunks es" and "fits E (buf @ stream_bytes es)"
    and "parse_frame E (buf @ stream_bytes es) = Ok (Some f, rest)"
  shows "\<exists>buf' es'. read_events E buf es = (Ok (Some f), buf', es') \<and> all_chunks es' \<and>
           buf' @ stream_bytes es' = rest"
proof -
  have ne: "decode_stream E (buf @ stream_bytes es) \<noteq> ([], e)" for e
    using decode_stream_eq(1) [OF assms(3)] by (simp split: prod.split)
  obtain r buf' es' where re: "read_events E buf es = (r, buf', es')" by (metis prod_cases3)
  show ?thesis
    using read_events_stream [OF assms(1,2)] re assms(3) ne
    by (cases r) (auto split: option.splits if_splits)
qed

definition quiet :: "connection \<Rightarrow> bool" where
  \<comment> \<open>a connection that accepts all writes and has nothing buffered, on an undisturbed stream\<close>
  "quiet c \<longleftrightarrow> write_faults c = [] \<and> pending c = [] \<and> all_chunks (incoming c)"

definition unread :: "connection \<Rightarrow> bytes" where
  "unread c = rbuf c @ stream_bytes (incoming c)"

lemma read_frame_next:
  assumes "quiet c" and "fits E (unread c)" and "parse_frame E (unread c) = Ok (Some f, rest)"
  shows "\<exists>c'. read_frame E c = (c', Ok (Some f)) \<and> quiet c' \<and> unread c' = rest \<and> sent c' = sent c"
proof -
  obtain buf' es' where "read_events E (rbuf c) (incoming c) = (Ok (Some f), buf', es')"
    "all_chunks es'" "buf' @ stream_bytes es' = rest"
    using read_events_next [of "incoming c" E "rbuf c"] assms by (auto simp: quiet_def unread_def)
  with assms(1) show ?thesis by (simp add: read_frame_def quiet_def unread_def)
qed

lemma write_frame_quiet:
  assumes "quiet c" and "wire_frame f"
  shows "write_frame f c = (c\<lparr>sent := sent c @ frame_bytes f\<rparr>, Ok ()) \<and>
    quiet (c\<lparr>sent := sent c @ frame_bytes f\<rparr>) \<and> unread (c\<lparr>sent := sent c @ frame_bytes f\<rparr>) = unread c"
proof -
  have "c\<lparr>pending := [], sent := x\<rparr> = c\<lparr>sent := x\<rparr>" for x
    using assms(1) by (cases c) (simp add: quiet_def)
  then show ?thesis
    using assms write_frame_ok [OF assms(2), of c] by (simp add: quiet_def unread_def)
qed

lemma ok_pong_wire: "wire_frame (Simple (bstr ''OK''))" "wire_frame (Simple (bstr ''PONG''))"
  by simp_all

lemma command_apply_kv:
  assumes "db_inv (db d)" "\<not> poisoned d" "storable (db_view (db d))"
    and "kv_request now c" and "quiet cn" and "spec_apply now c (db_view (db d)) = (m, f)"
  shows "\<exists>d'. command_apply B M now c d cn =
      (d', cn\<lparr>sent := sent cn @ frame_bytes f\<rparr>, Ok None) \<and>
    db_inv (db d') \<and> \<not> poisoned d' \<and> storable m \<and> db_view (db d') = m \<and> wire_frame f"
proof (cases c)
  case (Get key)
  have wf: "wire_frame f"
    using Get assms(6) storable_small [OF assms(3)]
    by (cases "db_view (db d) key") (fastforce simp: small_def)+
  have g: "db_get key d = (d, Ok (map_option fst (db_view (db d) key)))"
    using assms(1,2) by (simp add: db_get_view db_good_def)
  have "(case map_option fst (db_view (db d) key) of Some v \<Rightarrow> Bulk v | None \<Rightarrow> Null) = f"
    using Get assms(6) by (auto split: option.splits)
  with Get assms wf g write_frame_quiet [OF assms(5) wf] show ?thesis
    by (simp add: get_apply_def reply_with_def on_conn_def del: wire_frame.simps frame_bytes.simps)
next
  case (Set key val expire)
  then have f: "f = Simple (bstr ''OK'')" and m: "m = (db_view (db d))(key \<mapsto> (val, map_option ((+) now) expire))"
    using assms(6) by auto
  have "\<exists>d'. db_set now key val expire d = (d', Ok ()) \<and> db_inv (db d') \<and> \<not> poisoned d' \<and>
      db_view (db d') = m"
    using database.store_view [of d now expire key val] assms(1,2,4) Set m
    by (auto simp: db_good_def deadline_fits_def)
  moreover have "storable m" using m assms(3,4) Set by (auto simp: storable_def)
  ultimately show ?thesis
    using Set f write_frame_quiet [OF assms(5) ok_pong_wire(1)] ok_pong_wire(1)
    by (auto simp: set_apply_def reply_with_def on_conn_def
        simp del: bstr_simps wire_frame.simps frame_bytes.simps)
next
  case (Ping msg)
  then have f: "f = (case msg of None \<Rightarrow> Simple (bstr ''PONG'') | Some b \<Rightarrow> Bulk b)"
    and m: "m = db_view (db d)" using assms(6) by auto
  have wf: "wire_frame f"
    using f assms(4) Ping ok_pong_wire(2)
    by (auto simp: small_def simp del: bstr_simps split: option.splits)
  show ?thesis
    using Ping f m assms(1-3) wf write_frame_quiet [OF assms(5) wf]
    by (simp add: ping_apply_def reply_with_def on_conn_def
        del: bstr_simps wire_frame.simps frame_bytes.simps)
qed (use assms(4) in simp_all)

lemma on_wire_kv_frame:
  assumes "case_law E" "wf_command c" "request_frame c = Ok f"
  shows "from_frame E f = Ok (on_wire c)"
  using request_roundtrip [OF assms(1,2)] assms(3) by simp

definition served ::
  "('tx, 'h, 'm) handler \<Rightarrow> expiring_map \<Rightarrow> bool" where
  \<comment> \<open>a handler at the top of its loop, over a database that holds the map\<close>
  "served h m \<longleftrightarrow> h_mode h = Serving \<and> \<not> h_is_shutdown h \<and> quiet (h_conn h) \<and>
     db_inv (db (h_db h)) \<and> \<not> poisoned (h_db h) \<and> db_view (db (h_db h)) = m \<and> storable m"

definition sendable :: "instant \<Rightarrow> command \<Rightarrow> frame \<Rightarrow> bool" where
  "sendable now c f \<longleftrightarrow>
     request_frame c = Ok f \<and> wire_frame f \<and> wf_command c \<and> kv_request now (on_wire c)"

lemma serve_one:
  assumes "atoi_law E" "case_law E" and "served h m" and "sendable now c f"
    and "unread (h_conn h) = frame_bytes f @ rest" and "fits E (unread (h_conn h))"
    and "spec_apply now (on_wire c) m = (m', g)"
  shows "\<exists>h'. handler_step B M E now FrameReady h = h' \<and> served h' m' \<and> wire_frame g \<and>
    unread (h_conn h') = rest \<and> sent (h_conn h') = sent (h_conn h) @ frame_bytes g"
proof -
  have sv: "h_mode h = Serving" "\<not> h_is_shutdown h" "quiet (h_conn h)" "db_inv (db (h_db h))"
    "\<not> poisoned (h_db h)" "db_view (db (h_db h)) = m" "storable m"
    using assms(3) by (simp_all add: served_def)
  have sf: "request_frame c = Ok f" "wire_frame f" "wf_command c" "kv_request now (on_wire c)"
    using assms(4) by (simp_all add: sendable_def)
  have "parse_frame E (unread (h_conn h)) = Ok (Some f, rest)"
    using parse_frame_at [OF sf(2) assms(1)] assms(5,6) by simp
  from read_frame_next [OF sv(3) assms(6) this] obtain cn where
    cn: "read_frame E (h_conn h) = (cn, Ok (Some f))" "quiet cn" "unread cn = rest"
      "sent cn = sent (h_conn h)" by blast
  have cmd: "from_frame E f = Ok (on_wire c)" by (rule on_wire_kv_frame [OF assms(2) sf(3,1)])
  from command_apply_kv [OF sv(4,5) _ sf(4) cn(2), of m' g B M] sv(6,7) assms(7) obtain d' where
    ap: "command_apply B M now (on_wire c) (h_db h) cn =
        (d', cn\<lparr>sent := sent cn @ frame_bytes g\<rparr>, Ok None)"
      "db_inv (db d')" "\<not> poisoned d'" "storable m'" "db_view (db d') = m'" "wire_frame g"
    by auto
  have "handler_step B M E now FrameReady h =
      h\<lparr>h_db := d', h_conn := cn\<lparr>sent := sent cn @ frame_bytes g\<rparr>, h_mode := Serving\<rparr>"
    using sv(1,2) cn(1) cmd ap(1) by (simp add: handler_step_def serve_frame_def)
  with sv ap cn write_frame_quiet [OF cn(2) ap(6)] show ?thesis
    by (simp add: served_def)
qed

lemma serve_all:
  assumes "atoi_law E" "case_law E"
  shows "served h m \<Longrightarrow> list_all2 (\<lambda>(now, c) f. sendable now c f) reqs fs \<Longrightarrow>
    unread (h_conn h) = concat (map frame_bytes fs) \<Longrightarrow> fits E (unread (h_conn h)) \<Longrightarrow>
    spec_run (map (\<lambda>(now, c). (now, on_wire c)) reqs) m = (m', gs) \<Longrightarrow>
    \<exists>h'. handler_run B M E (map (\<lambda>(now, c). (now, FrameReady)) reqs) h = h' \<and> served h' m' \<and>
      (\<forall>g \<in> set gs. wire_frame g) \<and> unread (h_conn h') = [] \<and>
      sent (h_conn h') = sent (h_conn h) @ concat (map frame_bytes gs)"
proof (induction reqs arbitrary: h m fs gs)
  case Nil
  then show ?case by (auto simp: list_all2_Nil)
next
  case (Cons r reqs)
  obtain now c where r: "r = (now, c)" by (cases r)
  with Cons.prems(2) obtain f fs' where fs: "fs = f # fs'" "sendable now c f"
    "list_all2 (\<lambda>(now, c) f. sendable now c f) reqs fs'"
    by (auto simp: list_all2_Cons1)
  obtain m1 g where s1: "spec_apply now (on_wire c) m = (m1, g)" by (metis prod.exhaust)
  with Cons.prems(5) r obtain gs' where
    gs: "gs = g # gs'" "spec_run (map (\<lambda>(now, c). (now, on_wire c)) reqs) m1 = (m', gs')"
    by (auto split: prod.splits)
  have u: "unread (h_conn h) = frame_bytes f @ concat (map frame_bytes fs')"
    using Cons.prems(3) fs(1) by simp
  from serve_one [OF assms Cons.prems(1) fs(2) u Cons.prems(4) s1, of B M] obtain h1 where
    h1: "handler_step B M E now FrameReady h = h1" "served h1 m1" "wire_frame g"
      "unread (h_conn h1) = concat (map frame_bytes fs')"
      "sent (h_conn h1) = sent (h_conn h) @ frame_bytes g" by blast
  have "fits E (unread (h_conn h1))"
    by (rule fits_mono [OF Cons.prems(4)]) (simp add: u h1(4))
  from Cons.IH [OF h1(2) fs(3) h1(4) this gs(2)] h1 r gs(1) show ?case by simp
qed

section \<open>Properties\<close>

text \<open>
  C5. The key-value service, end to end: when a client's \<open>GET\<close>, \<open>SET\<close> and \<open>PING\<close> requests arrive
  over a socket that cuts their bytes into any chunks, the handler answers every request, in order,
  with the reply of an abstract map of keys to values with deadlines, leaves that map in the
  database, and a peer that receives the sent bytes in any chunks decodes exactly these replies.
\<close>

theorem redis_service_refines:
  assumes "atoi_law E" "case_law E" and "db_inv (db d)" "\<not> poisoned d" "storable (db_view (db d))"
    and "list_all2 (\<lambda>(now, c) f. sendable now c f) reqs fs"
    and "all_chunks es" "stream_bytes es = concat (map frame_bytes fs)" "fits E (stream_bytes es)"
    and "spec_run (map (\<lambda>(now, c). (now, on_wire c)) reqs) (db_view (db d)) = (m, replies)"
    and "handler_run B M E (map (\<lambda>(now, c). (now, FrameReady)) reqs)
           (handler_new d (connection_new es [])) = h"
  shows "h_mode h = Serving \<and> db_inv (db (h_db h)) \<and> db_view (db (h_db h)) = m \<and>
    length replies = length reqs \<and>
    (\<forall>es'. all_chunks es' \<and> stream_bytes es' = sent (h_conn h) \<and> fits E (sent (h_conn h)) \<longrightarrow>
       receive_all E [] es' = (replies, CleanEnd))"
proof -
  have "served (handler_new d (connection_new es [])) (db_view (db d))"
    using assms(3-5,7) by (simp add: served_def handler_new_def connection_new_def quiet_def)
  from serve_all [OF assms(1,2) this assms(6) _ _ assms(10), of B M] assms(8,9,11)
  have h: "served h m" "\<forall>g \<in> set replies. wire_frame g"
    "sent (h_conn h) = concat (map frame_bytes replies)"
    by (simp_all add: handler_new_def connection_new_def unread_def)
  have "length (snd (spec_run cs m0)) = length cs" for cs m0
    by (induction cs m0 rule: spec_run.induct) (auto split: prod.splits)
  from this [of "map (\<lambda>(now, c). (now, on_wire c)) reqs" "db_view (db d)"] assms(10)
  have "length replies = length reqs" by simp
  with h receive_all_stream [of _ E "[]"] decode_stream_encoded [OF assms(1) h(2)] show ?thesis
    by (auto simp: served_def)
qed

definition sm_ref :: "(bytes list, nat) stream_map" where
  "sm_ref = \<lparr>sm_new = [], sm_insert = (\<lambda>k r m. m @ [k]), sm_remove = (\<lambda>k m. filter (\<lambda>x. x \<noteq> k) m),
     sm_keys = remdups, sm_len = (\<lambda>m. length (remdups m))\<rparr>"

lemma sm_ref_laws: "stream_map_laws sm_ref"
  by (auto simp: stream_map_laws_def sm_ref_def)

lemma bdec_small: "n < 10 \<Longrightarrow> bdec n = [of_nat (48 + n)]"
  unfolding bdec_def by (subst dec_digits.simps) simp

theorem redis_service_refines_witness:
  "\<exists>h. handler_run hub_ref sm_ref (env_ref True) [(1, FrameReady), (2, FrameReady)]
      (handler_new (db_new 0) (connection_new
        [Chunk (frame_bytes (Array [Bulk (bstr ''set''), Bulk [97], Bulk [1]])),
         Chunk (frame_bytes (Array [Bulk (bstr ''get''), Bulk [97]]))] [])) = h \<and>
    h_mode h = Serving \<and> db_view (db (h_db h)) [97] = Some ([1], None)"
proof -
  let ?reqs = "[(1, Set [97] [1] None), (2, Get [97])] :: (instant \<times> command) list"
  let ?fs = "[Array [Bulk (bstr ''set''), Bulk [97], Bulk [1]], Array [Bulk (bstr ''get''), Bulk [97]]]"
  let ?es = "map (\<lambda>f. Chunk (frame_bytes f)) ?fs"
  let ?d = "db_new 0 :: (nat, nat) shared"
  let ?h = "handler_run hub_ref sm_ref (env_ref True) (map (\<lambda>(now, c). (now, FrameReady)) ?reqs)
           (handler_new ?d (connection_new ?es []))"
  have d: "db_inv (db ?d)" "\<not> poisoned ?d" "storable (db_view (db ?d))"
    by (simp_all add: db_inv_new) (simp_all add: db_new_def db_view_def storable_def)
  have reqs: "list_all2 (\<lambda>(now, c) f. sendable now c f) ?reqs ?fs"
    by (simp add: sendable_def set_into_frame_def get_into_frame_def frame_array_def small_def
        usize_limit_def)
  have es: "all_chunks ?es" "stream_bytes ?es = concat (map frame_bytes ?fs)"
    by simp_all
  have "fits (env_ref True) (stream_bytes ?es)"
    by (rule fits_ref) (simp add: line_bytes_def bdec_small)
  from redis_service_refines [OF atoi_law_ref case_law_ref d reqs es this surjective_pairing refl,
      of hub_ref sm_ref]
  have "h_mode ?h = Serving \<and> db_view (db (h_db ?h)) [97] = Some ([1], None)"
    by (simp add: db_new_def db_view_def fun_eq_iff)
  then show ?thesis by simp
qed

text \<open>
  The name in the reply to an unknown command is not cleaned: a command name with a line break
  in it makes the server send bytes that the peer reads as two frames, the second one chosen by the
  name, so one request gets two replies.
\<close>

theorem redis_unknown_reply_splits:
  assumes "atoi_law E" and "valid_utf8 s" "no_crlf s"
    and "valid_utf8 (t @ [39])" "no_crlf (t @ [39])"
    and "valid_utf8 (bstr ''ERR unknown command '' @ [39] @ s)"
    and "no_crlf (bstr ''ERR unknown command '' @ [39] @ s)"
    and "fits E (frame_bytes (unknown_reply (s @ [13, 10, 43] @ t)))"
  shows "decode_stream E (frame_bytes (unknown_reply (s @ [13, 10, 43] @ t))) =
    ([Error (bstr ''ERR unknown command '' @ [39] @ s), Simple (t @ [39])], CleanEnd)"
proof -
  let ?fs = "[Error (bstr ''ERR unknown command '' @ [39] @ s), Simple (t @ [39])]"
  have eq: "frame_bytes (unknown_reply (s @ [13, 10, 43] @ t)) = concat (map frame_bytes ?fs)"
    by (simp add: unknown_reply_def line_bytes_def)
  show ?thesis
    using decode_stream_encoded [OF assms(1), of ?fs] assms(4-8) unfolding eq
    by (simp del: bstr_simps)
qed

theorem redis_unknown_reply_splits_witness:
  "decode_stream (env_ref True) (frame_bytes (unknown_reply (bstr ''x'' @ [13, 10, 43] @ bstr ''ok''))) =
    ([Error (bstr ''ERR unknown command '' @ [39] @ bstr ''x''), Simple (bstr ''ok'' @ [39])], CleanEnd)"
proof (rule redis_unknown_reply_splits)
  show "fits (env_ref True) (frame_bytes (unknown_reply (bstr ''x'' @ [13, 10, 43] @ bstr ''ok'')))"
    by (rule fits_ref) (simp add: unknown_reply_def line_bytes_def)
qed simp_all

section \<open>The invariant of the handler\<close>

lemma db_inv_calls:
  assumes "db_inv (db d)"
  shows "db_inv (db (fst (db_get key d)))" "db_inv (db (fst (db_set now key val expire d)))"
    "db_inv (db (fst (db_subscribe B key d)))" "db_inv (db (fst (db_publish B key val d)))"
proof -
  show "db_inv (db (fst (db_get key d)))" using assms by (simp add: db_get_def locked_def)
  show "db_inv (db (fst (db_set now key val expire d)))"
    using assms by (auto simp: db_set_def db_set_locked_def locked_def instant_add_def
        notify_one_def db_inv_set_entry split: option.split)
  show "db_inv (db (fst (db_subscribe B key d)))"
    using assms by (auto simp: db_subscribe_def locked_def split: option.split prod.split)
  show "db_inv (db (fst (db_publish B key val d)))"
    using assms by (auto simp: db_publish_def locked_def split: option.split prod.split)
qed

lemma reply_with_db: "fst (reply_with dr c) = fst dr"
  by (simp add: reply_with_def on_conn_def split: prod.split outcome.split)

lemma sbind_reply_db: "fst (sbind m (\<lambda>d x. (d, k x))) = fst m"
  by (cases m; cases "snd m") auto

lemma subscribe_to_channel_inv:
  "db_inv (db d) \<Longrightarrow> db_inv (db (fst (subscribe_to_channel B M channel subs d c)))"
  using db_inv_calls(3) [of d B channel] reply_with_db
  by (auto simp: subscribe_to_channel_def Let_def reply_with_def on_conn_def
      split: prod.splits outcome.splits)

lemma subscribe_all_inv:
  "db_inv (db d) \<Longrightarrow> db_inv (db (fst (subscribe_all B M cs subs d c)))"
proof (induction B M cs subs d c rule: subscribe_all.induct)
  case (2 B M channel cs subs d c)
  then show ?case
    using subscribe_to_channel_inv [of d B M channel subs c]
    by (auto split: prod.split outcome.split)
qed simp

lemma command_apply_inv:
  "db_inv (db d) \<Longrightarrow> db_inv (db (fst (command_apply B M now cmd d c)))"
  using db_inv_calls [of d] subscribe_all_inv [of d B M]
  by (cases cmd) (auto simp: get_apply_def set_apply_def publish_apply_def ping_apply_def
      unknown_apply_def split: prod.split dest!: arg_cong [of _ _ fst] simp: reply_with_db sbind_reply_db)

lemma run_apply_db: "h_db (run_apply r h) = fst r"
  by (cases r; cases "snd (snd r)"; cases "\<exists>s. snd (snd r) = Ok (Some s)") auto

text \<open>
  C15. Whatever a peer sends, however its bytes arrive, whichever branch of the \<open>select!\<close> completes
  and whichever write fails, a step of a connection's handler keeps the expiration index of the
  shared database in step with its entries; and once the handler is closed nothing it is given
  changes the database or writes to the socket.
\<close>

theorem redis_handler_inv:
  assumes "db_inv (db (h_db h))"
  shows "db_inv (db (h_db (handler_run B M E evs h))) \<and>
    (\<forall>r. h_mode h = Closed r \<longrightarrow> handler_run B M E evs h = h)"
proof
  show "\<forall>r. h_mode h = Closed r \<longrightarrow> handler_run B M E evs h = h"
    by (induction evs arbitrary: h) (auto simp: handler_step_def)
  have step: "db_inv (db (h_db (handler_step B M E now ev h)))" if "db_inv (db (h_db h))"
    for now ev and h :: "('a, 'b, 'c) handler"
  proof -
    have run: "db_inv (db (h_db (run_apply (d, c, r) h')))" if "db_inv (db d)" for d c r and h' :: "('a, 'b, 'c) handler"
      using that run_apply_db [of "(d, c, r)" h'] by simp
    have serve: "db_inv (db (h_db (serve_frame B M E now h)))"
      using that command_apply_inv [OF that, of B M now]
      by (auto simp: serve_frame_def run_apply_db split: prod.split outcome.split option.split)
    have sub: "db_inv (db (h_db (subscriber_frame B M E subs h)))" for subs
      using that subscribe_all_inv [OF that, of B M]
      by (auto simp: subscriber_frame_def split: prod.split outcome.split option.split
          intro!: run dest: arg_cong [of _ _ fst]) (metis fst_conv)+
    have msg: "h_db (subscriber_message ch m h) = h_db h" for ch m
      by (simp add: subscriber_message_def split: prod.split outcome.split)
    show ?thesis using that serve sub msg
      by (simp add: handler_step_def split: mode.split select_event.split)
  qed
  show "db_inv (db (h_db (handler_run B M E evs h)))"
    using assms
  proof (induction evs arbitrary: h)
    case (Cons e evs)
    then show ?case by (cases e) (simp add: step)
  qed simp
qed

theorem redis_handler_inv_witness:
  "db_inv (db (h_db (handler_run hub_ref sm_ref (env_ref False)
     [(0, FrameReady), (3, MessageReady [97] [98]), (4, ShutdownReady)]
     (handler_new (db_new 0) (connection_new [Chunk [1, 2, 3], ReadFailed] [True])))))"
proof -
  have "db_inv (db (h_db (handler_new (db_new 0) (connection_new [Chunk [1, 2, 3], ReadFailed] [True])
      :: (nat, nat, bytes list) handler)))"
    by (simp add: handler_new_def db_inv_new)
  from redis_handler_inv [OF this] show ?thesis by blast
qed

section \<open>Unsubscribing\<close>

fun unsubscribe_replies :: "bytes list \<Rightarrow> frame list" where
  \<comment> \<open>one acknowledgement per channel, with the number of subscriptions left\<close>
  "unsubscribe_replies [] = []"
| "unsubscribe_replies (k # ks) =
     Array [Bulk (bstr ''unsubscribe''), Bulk k, Integer (of_nat (length ks))] # unsubscribe_replies ks"

lemma unsubscribe_all_keys:
  assumes "stream_map_laws M"
  shows "set ks = set (sm_keys M subs) \<Longrightarrow> distinct ks \<Longrightarrow> (\<forall>k \<in> set ks. small k) \<Longrightarrow> quiet c \<Longrightarrow>
    \<exists>subs'. unsubscribe_all M ks subs c =
      (c\<lparr>sent := sent c @ concat (map frame_bytes (unsubscribe_replies ks))\<rparr>, Ok subs') \<and>
      sm_keys M subs' = []"
proof (induction ks arbitrary: subs c)
  case (Cons k ks)
  let ?subs = "sm_remove M k subs"
  have keys: "set (sm_keys M ?subs) = set ks" and len: "sm_len M ?subs = length ks"
  proof -
    show k: "set (sm_keys M ?subs) = set ks"
      using assms Cons.prems(1,2) unfolding stream_map_laws_def by auto
    have "sm_len M ?subs = length (sm_keys M ?subs)" "distinct (sm_keys M ?subs)"
      using assms unfolding stream_map_laws_def by blast+
    then show "sm_len M ?subs = length ks"
      using k Cons.prems(2) by (metis distinct_card distinct.simps(2))
  qed
  let ?f = "Array [Bulk (bstr ''unsubscribe''), Bulk k, Integer (of_nat (length ks))]"
  have wf: "wire_frame ?f"
    using Cons.prems(3) by (simp add: small_def usize_limit_def)
  have cf: "channel_frame (bstr ''unsubscribe'') k (length ks) = Ok ?f"
    by (simp add: channel_frame_def frame_array_def)
  note w = write_frame_quiet [OF Cons.prems(4) wf]
  have "\<exists>subs'. unsubscribe_all M ks ?subs (c\<lparr>sent := sent c @ frame_bytes ?f\<rparr>) =
      ((c\<lparr>sent := sent c @ frame_bytes ?f\<rparr>)\<lparr>sent := sent (c\<lparr>sent := sent c @ frame_bytes ?f\<rparr>) @
         concat (map frame_bytes (unsubscribe_replies ks))\<rparr>, Ok subs') \<and> sm_keys M subs' = []"
    by (rule Cons.IH) (use keys Cons.prems w in auto)
  then show ?case
    using w by (simp add: Let_def len cf del: frame_bytes.simps bstr_simps)
qed simp

text \<open>
  \<open>UNSUBSCRIBE\<close> without channels, received while subscribed, removes every subscription of the
  client and sends one acknowledgement per channel, in the order of the subscriptions, with the
  number of subscriptions left counting down to zero.
\<close>

theorem redis_unsubscribe_all:
  assumes "stream_map_laws M" and "from_frame E f = Ok (Unsubscribe [])"
    and "\<forall>k \<in> set (sm_keys M subs). small k" and "quiet c"
  shows "\<exists>subs'. handle_command E M f subs c =
      (c\<lparr>sent := sent c @ concat (map frame_bytes (unsubscribe_replies (sm_keys M subs)))\<rparr>,
       Ok (subs', [])) \<and> sm_keys M subs' = []"
proof -
  have "distinct (sm_keys M subs)" using assms(1) unfolding stream_map_laws_def by blast
  from unsubscribe_all_keys [OF assms(1) refl this assms(3,4)] assms(2) show ?thesis
    by (auto simp: handle_command_def)
qed

theorem redis_unsubscribe_all_witness:
  "\<exists>subs'. handle_command (env_ref True) sm_ref (Array [Bulk (bstr ''unsubscribe'')]) [[97], [98]]
      (connection_new [] []) =
    ((connection_new [] [])\<lparr>sent := sent (connection_new [] []) @
       concat (map frame_bytes (unsubscribe_replies (sm_keys sm_ref [[97], [98]])))\<rparr>,
     Ok (subs', [])) \<and> sm_keys sm_ref subs' = []"
proof (rule redis_unsubscribe_all [OF sm_ref_laws])
  show "from_frame (env_ref True) (Array [Bulk (bstr ''unsubscribe'')]) = Ok (Unsubscribe [])"
    using request_roundtrip [OF case_law_ref, of "Unsubscribe []" True]
    by (simp add: unsubscribe_into_frame_def frame_array_def del: bstr_simps)
  show "\<forall>k \<in> set (sm_keys sm_ref [[97], [98]]). small k"
    by (simp add: sm_ref_def small_def usize_limit_def)
  show "quiet (connection_new [] [])" by (simp add: quiet_def connection_new_def)
qed

end
