(* ===== verification/Redis_Client.thy ===== *)
theory Redis_Client
  imports Redis_Service
begin

text \<open>
  The clients of mini-redis (\<open>clients/client.rs\<close>, the task of \<open>clients/buffered_client.rs\<close>): each call
  writes the frame of a command and reads the response. A client is its connection; the bytes that
  the server will send are the \<open>incoming\<close> stream of that connection. The last section puts the
  client and the server together.
\<close>

section \<open>Requests and responses\<close>

datatype client_error =
    Crate redis_error
  | ServerReply bytes \<comment> \<open>the text of an error frame\<close>
  | ResetByServer

type_synonym client = connection
type_synonym 'a client_result = "client \<times> (client_error, 'a) outcome"

definition crate_result :: "'a conn_result \<Rightarrow> 'a client_result" where
  "crate_result r = (fst r, omap_err Crate (snd r))"

definition unexpected :: "frame \<Rightarrow> (client_error, 'a) outcome" where
  "unexpected f = Err (Crate (to_error f))"

definition read_response :: "redis_env \<Rightarrow> client \<Rightarrow> frame client_result" where
  "read_response E c =
     sbind (crate_result (read_frame E c)) (\<lambda>c response.
       (c, case response of
             Some (Error msg) \<Rightarrow> Err (ServerReply msg)
           | Some f \<Rightarrow> Ok f
           | None \<Rightarrow> Err ResetByServer))"

definition send_request :: "(redis_error, frame) outcome \<Rightarrow> client \<Rightarrow> unit client_result" where
  \<comment> \<open>\<open>write_frame\<close> of what \<open>into_frame\<close> built\<close>
  "send_request fr c =
     (case fr of
        Ok f \<Rightarrow> crate_result (write_frame f c)
      | Err e \<Rightarrow> (c, Err (Crate e))
      | Panic \<Rightarrow> (c, Panic)
      | Diverge \<Rightarrow> (c, Diverge))"

definition client_call ::
  "redis_env \<Rightarrow> (redis_error, frame) outcome \<Rightarrow> (frame \<Rightarrow> (client_error, 'a) outcome) \<Rightarrow> client \<Rightarrow> 'a client_result" where
  "client_call E fr answer c =
     sbind (send_request fr c) (\<lambda>c _. sbind (read_response E c) (\<lambda>c f. (c, answer f)))"

fun ping_answer :: "frame \<Rightarrow> (client_error, bytes) outcome" where
  "ping_answer (Simple v) = Ok v"
| "ping_answer (Bulk v) = Ok v"
| "ping_answer f = unexpected f"

definition client_ping :: "redis_env \<Rightarrow> bytes option \<Rightarrow> client \<Rightarrow> bytes client_result" where
  "client_ping E msg = client_call E (ping_into_frame msg) ping_answer"

fun get_answer :: "frame \<Rightarrow> (client_error, bytes option) outcome" where
  "get_answer (Simple v) = Ok (Some v)"
| "get_answer (Bulk v) = Ok (Some v)"
| "get_answer Null = Ok None"
| "get_answer f = unexpected f"

definition client_get :: "redis_env \<Rightarrow> bytes \<Rightarrow> client \<Rightarrow> bytes option client_result" where
  "client_get E key = client_call E (get_into_frame key) get_answer"

definition set_answer :: "frame \<Rightarrow> (client_error, unit) outcome" where
  "set_answer f = (if f = Simple (bstr ''OK'') then Ok () else unexpected f)"

definition set_cmd :: "redis_env \<Rightarrow> bytes \<Rightarrow> bytes \<Rightarrow> nat option \<Rightarrow> client \<Rightarrow> unit client_result" where
  "set_cmd E key val expire = client_call E (set_into_frame key val expire) set_answer"

definition client_set :: "redis_env \<Rightarrow> bytes \<Rightarrow> bytes \<Rightarrow> client \<Rightarrow> unit client_result" where
  "client_set E key val = set_cmd E key val None"

definition client_set_expires :: "redis_env \<Rightarrow> bytes \<Rightarrow> bytes \<Rightarrow> nat \<Rightarrow> client \<Rightarrow> unit client_result" where
  "client_set_expires E key val expiration = set_cmd E key val (Some expiration)"

fun publish_answer :: "frame \<Rightarrow> (client_error, u64) outcome" where
  "publish_answer (Integer n) = Ok n"
| "publish_answer f = unexpected f"

definition client_publish :: "redis_env \<Rightarrow> bytes \<Rightarrow> bytes \<Rightarrow> client \<Rightarrow> u64 client_result" where
  "client_publish E channel message = client_call E (publish_into_frame channel message) publish_answer"

section \<open>Subscribers\<close>

record subscriber =
  sub_client :: client
  subscribed_channels :: "bytes list"

definition subscribe_ack :: "bytes \<Rightarrow> frame \<Rightarrow> (client_error, unit) outcome" where
  "subscribe_ack channel response =
     (case response of
        Array (subscribe # schannel # _) \<Rightarrow>
          if frame_eq_str subscribe (bstr ''subscribe'') \<and> frame_eq_str schannel channel then Ok ()
          else unexpected response
      | _ \<Rightarrow> unexpected response)"

fun read_acks :: "redis_env \<Rightarrow> bytes list \<Rightarrow> client \<Rightarrow> unit client_result" where
  "read_acks E [] c = (c, Ok ())"
| "read_acks E (channel # cs) c =
     sbind (read_response E c) (\<lambda>c response.
       case subscribe_ack channel response of
         Ok _ \<Rightarrow> read_acks E cs c | Err e \<Rightarrow> (c, Err e) | Panic \<Rightarrow> (c, Panic) | Diverge \<Rightarrow> (c, Diverge))"

definition subscribe_cmd :: "redis_env \<Rightarrow> bytes list \<Rightarrow> client \<Rightarrow> unit client_result" where
  "subscribe_cmd E channels c =
     sbind (send_request (subscribe_into_frame channels) c) (\<lambda>c _. read_acks E channels c)"

definition client_subscribe :: "redis_env \<Rightarrow> bytes list \<Rightarrow> client \<Rightarrow> (client_error, subscriber) outcome" where
  \<comment> \<open>consumes the client\<close>
  "client_subscribe E channels c =
     (case subscribe_cmd E channels c of
        (c, r) \<Rightarrow> obind r (\<lambda>_. Ok \<lparr>sub_client = c, subscribed_channels = channels\<rparr>))"

definition message_of :: "redis_env \<Rightarrow> frame \<Rightarrow> (client_error, bytes \<times> bytes) outcome" where
  \<comment> \<open>the channel and the content of a message frame\<close>
  "message_of E mframe =
     (case mframe of
        Array [message, channel, content] \<Rightarrow>
          if frame_eq_str message (bstr ''message'') then Ok (frame_display E channel, frame_display E content)
          else unexpected mframe
      | _ \<Rightarrow> unexpected mframe)"

definition next_message ::
  "redis_env \<Rightarrow> subscriber \<Rightarrow> subscriber \<times> (client_error, (bytes \<times> bytes) option) outcome" where
  "next_message E s =
     (case crate_result (read_frame E (sub_client s)) of
        (c, r) \<Rightarrow>
          (s\<lparr>sub_client := c\<rparr>,
           obind r (\<lambda>m. case m of None \<Rightarrow> Ok None | Some f \<Rightarrow> obind (message_of E f) (\<lambda>x. Ok (Some x)))))"

fun stream_items ::
  "redis_env \<Rightarrow> nat \<Rightarrow> subscriber \<Rightarrow> (client_error, bytes \<times> bytes) outcome list" where
  \<comment> \<open>what the stream of \<open>into_stream\<close> yields in its first polls: it ends after an error\<close>
  "stream_items E 0 s = []"
| "stream_items E (Suc n) s =
     (case next_message E s of
        (s, Ok None) \<Rightarrow> []
      | (s, Ok (Some m)) \<Rightarrow> Ok m # stream_items E n s
      | (s, Err e) \<Rightarrow> [Err e]
      | (s, Panic) \<Rightarrow> [Panic]
      | (s, Diverge) \<Rightarrow> [Diverge])"

definition subscriber_subscribe :: "redis_env \<Rightarrow> bytes list \<Rightarrow> subscriber \<Rightarrow> subscriber \<times> (client_error, unit) outcome" where
  "subscriber_subscribe E channels s =
     (case subscribe_cmd E channels (sub_client s) of
        (c, r) \<Rightarrow>
          (let s = s\<lparr>sub_client := c\<rparr> in
           sbind (s, r) (\<lambda>s _. (s\<lparr>subscribed_channels := subscribed_channels s @ channels\<rparr>, Ok ()))))"

definition unsubscribe_ack :: "frame \<Rightarrow> bytes list \<Rightarrow> bytes list \<times> (client_error, unit) outcome" where
  "unsubscribe_ack response subscribed =
     (case response of
        Array (unsubscribe # channel # _) \<Rightarrow>
          if frame_eq_str unsubscribe (bstr ''unsubscribe'') then
            (let len = length subscribed in
             if len = 0 then (subscribed, unexpected response)
             else
               let kept = filter (\<lambda>c. \<not> frame_eq_str channel c) subscribed in
               if length kept \<noteq> len - 1 then (kept, unexpected response) else (kept, Ok ()))
          else (subscribed, unexpected response)
      | _ \<Rightarrow> (subscribed, unexpected response))"

fun read_unsubscribed :: "redis_env \<Rightarrow> nat \<Rightarrow> subscriber \<Rightarrow> subscriber \<times> (client_error, unit) outcome" where
  "read_unsubscribed E 0 s = (s, Ok ())"
| "read_unsubscribed E (Suc n) s =
     (case read_response E (sub_client s) of
        (c, r) \<Rightarrow>
          sbind (s\<lparr>sub_client := c\<rparr>, r) (\<lambda>s response.
            case unsubscribe_ack response (subscribed_channels s) of
              (subscribed, r) \<Rightarrow>
                sbind (s\<lparr>subscribed_channels := subscribed\<rparr>, r) (\<lambda>s _. read_unsubscribed E n s)))"

definition subscriber_unsubscribe :: "redis_env \<Rightarrow> bytes list \<Rightarrow> subscriber \<Rightarrow> subscriber \<times> (client_error, unit) outcome" where
  "subscriber_unsubscribe E channels s =
     (case send_request (unsubscribe_into_frame channels) (sub_client s) of
        (c, r) \<Rightarrow>
          sbind (s\<lparr>sub_client := c\<rparr>, r) (\<lambda>s _.
            let num = (if channels = [] then length (subscribed_channels s) else length channels) in
            read_unsubscribed E num s))"

section \<open>The buffered client\<close>

datatype buffered_command = BufferedGet bytes | BufferedSet bytes bytes

definition buffered_call :: "redis_env \<Rightarrow> buffered_command \<Rightarrow> client \<Rightarrow> bytes option client_result" where
  "buffered_call E cmd c =
     (case cmd of
        BufferedGet key \<Rightarrow> client_get E key c
      | BufferedSet key val \<Rightarrow> (case client_set E key val c of (c, r) \<Rightarrow> (c, obind r (\<lambda>_. Ok None))))"

fun buffered_run ::
  "redis_env \<Rightarrow> buffered_command list \<Rightarrow> client \<Rightarrow> client \<times> (client_error, bytes option) outcome list" where
  \<comment> \<open>the task: the responses that go back for the messages of its channel, in their order; a panic ends it\<close>
  "buffered_run E [] c = (c, [])"
| "buffered_run E (cmd # cmds) c =
     (case buffered_call E cmd c of
        (c, Panic) \<Rightarrow> (c, [Panic])
      | (c, Diverge) \<Rightarrow> (c, [Diverge])
      | (c, response) \<Rightarrow> (case buffered_run E cmds c of (c, responses) \<Rightarrow> (c, response # responses)))"

section \<open>The client and the server together\<close>

datatype client_op =
    OpGet bytes
  | OpSet bytes bytes
  | OpSetExpires bytes bytes nat
  | OpPing "bytes option"

datatype client_value = OptValue "bytes option" | Value bytes | Stored

fun op_command :: "client_op \<Rightarrow> command" where
  "op_command (OpGet key) = Get key"
| "op_command (OpSet key val) = Set key val None"
| "op_command (OpSetExpires key val d) = Set key val (Some d)"
| "op_command (OpPing msg) = Ping msg"

fun op_answer :: "client_op \<Rightarrow> frame \<Rightarrow> (client_error, client_value) outcome" where
  "op_answer (OpGet _) f = obind (get_answer f) (\<lambda>v. Ok (OptValue v))"
| "op_answer (OpPing _) f = obind (ping_answer f) (\<lambda>v. Ok (Value v))"
| "op_answer _ f = obind (set_answer f) (\<lambda>_. Ok Stored)"

fun op_call :: "redis_env \<Rightarrow> client_op \<Rightarrow> client \<Rightarrow> client_value client_result" where
  "op_call E (OpGet key) c = (case client_get E key c of (c, r) \<Rightarrow> (c, obind r (\<lambda>v. Ok (OptValue v))))"
| "op_call E (OpSet key val) c = (case client_set E key val c of (c, r) \<Rightarrow> (c, obind r (\<lambda>_. Ok Stored)))"
| "op_call E (OpSetExpires key val d) c =
     (case client_set_expires E key val d c of (c, r) \<Rightarrow> (c, obind r (\<lambda>_. Ok Stored)))"
| "op_call E (OpPing msg) c = (case client_ping E msg c of (c, r) \<Rightarrow> (c, obind r (\<lambda>v. Ok (Value v))))"

fun client_session :: "redis_env \<Rightarrow> client_op list \<Rightarrow> client \<Rightarrow> client \<times> (client_error, client_value) outcome list" where
  \<comment> \<open>a program that makes these calls one after the other\<close>
  "client_session E [] c = (c, [])"
| "client_session E (x # xs) c =
     (case op_call E x c of (c, r) \<Rightarrow> (case client_session E xs c of (c, rs) \<Rightarrow> (c, r # rs)))"

fun op_value :: "client_op \<Rightarrow> expiring_map \<Rightarrow> client_value" where
  \<comment> \<open>what a call gives on an abstract map\<close>
  "op_value (OpGet key) m = OptValue (map_option fst (m key))"
| "op_value (OpPing msg) m = Value (case msg of None \<Rightarrow> bstr ''PONG'' | Some b \<Rightarrow> b)"
| "op_value _ m = Stored"

fun spec_session :: "(instant \<times> client_op) list \<Rightarrow> expiring_map \<Rightarrow> expiring_map \<times> client_value list" where
  "spec_session [] m = (m, [])"
| "spec_session ((now, x) # xs) m =
     (case spec_session xs (fst (spec_apply now (on_wire (op_command x)) m)) of (m', vs) \<Rightarrow> (m', op_value x m # vs))"

lemma sbind_map:
  "(case sbind m k of (c, r) \<Rightarrow> (c, obind r g)) = sbind m (\<lambda>c x. case k c x of (c, r) \<Rightarrow> (c, obind r g))"
  by (cases m; cases "snd m") auto

lemma op_answer_eqs:
  "op_answer (OpGet k) = (\<lambda>f. obind (get_answer f) (\<lambda>v. Ok (OptValue v)))"
  "op_answer (OpSet k v) = (\<lambda>f. obind (set_answer f) (\<lambda>_. Ok Stored))"
  "op_answer (OpSetExpires k v d) = (\<lambda>f. obind (set_answer f) (\<lambda>_. Ok Stored))"
  "op_answer (OpPing msg) = (\<lambda>f. obind (ping_answer f) (\<lambda>v. Ok (Value v)))"
  by (rule ext, simp)+

lemma op_call_eq: "op_call E x c = client_call E (request_frame (op_command x)) (op_answer x) c"
proof -
  have map: "(case client_call E fr a c of (c, r) \<Rightarrow> (c, obind r g)) = client_call E fr (\<lambda>f. obind (a f) g) c"
    for fr and a :: "frame \<Rightarrow> (client_error, 'x) outcome" and g :: "'x \<Rightarrow> (client_error, client_value) outcome"
    by (simp add: client_call_def sbind_map)
  show ?thesis
    by (cases x) (simp_all add: client_get_def client_set_def client_set_expires_def set_cmd_def client_ping_def map op_answer_eqs)
qed

lemma spec_answer:
  "spec_apply now (on_wire (op_command x)) m = (m', g) \<Longrightarrow> op_answer x g = Ok (op_value x m) \<and> (\<forall>e. g \<noteq> Error e)"
  by (cases x) (auto simp: set_answer_def split: option.splits)

lemma op_call_answered:
  assumes "atoi_law E" and "quiet c" and "unread c = frame_bytes g @ rest" and "fits E (unread c)"
    and "wire_frame g" and "\<forall>e. g \<noteq> Error e" and "request_frame (op_command x) = Ok f" and "wire_frame f"
  shows "\<exists>c'. op_call E x c = (c', op_answer x g) \<and> quiet c' \<and> unread c' = rest \<and> sent c' = sent c @ frame_bytes f"
proof -
  note w = write_frame_quiet [OF assms(2,8)]
  let ?c = "c\<lparr>sent := sent c @ frame_bytes f\<rparr>"
  have "parse_frame E (unread ?c) = Ok (Some g, rest)"
    using parse_frame_at [OF assms(5,1)] assms(3,4) w by simp
  from read_frame_next [OF _ _ this] w assms(4) obtain c' where
    c': "read_frame E ?c = (c', Ok (Some g))" "quiet c'" "unread c' = rest" "sent c' = sent ?c" by auto
  have "read_response E ?c = (c', Ok g)"
    using c'(1) assms(6) by (cases g) (simp_all add: read_response_def crate_result_def)
  with w c' assms(7) show ?thesis
    by (simp add: op_call_eq client_call_def send_request_def crate_result_def)
qed

lemma client_session_answered:
  assumes "atoi_law E"
  shows "quiet c \<Longrightarrow> unread c = concat (map frame_bytes gs) \<Longrightarrow> fits E (unread c) \<Longrightarrow> \<forall>g\<in>set gs. wire_frame g \<Longrightarrow>
    list_all2 (\<lambda>(now, x) f. sendable now (op_command x) f) reqs fs \<Longrightarrow>
    spec_run (map (\<lambda>(now, x). (now, on_wire (op_command x))) reqs) m = (m', gs) \<Longrightarrow>
    spec_session reqs m = (m2, vals) \<Longrightarrow>
    m2 = m' \<and> (\<exists>c'. client_session E (map snd reqs) c = (c', map Ok vals) \<and>
      sent c' = sent c @ concat (map frame_bytes fs))"
proof (induction reqs arbitrary: c gs fs m vals)
  case Nil
  then show ?case by auto
next
  case (Cons r reqs)
  obtain now x where r: "r = (now, x)" by (cases r)
  with Cons.prems(5) obtain f fs' where fs: "fs = f # fs'" "sendable now (op_command x) f"
    "list_all2 (\<lambda>(now, x) f. sendable now (op_command x) f) reqs fs'"
    by (auto simp: list_all2_Cons1)
  obtain m1 g where s1: "spec_apply now (on_wire (op_command x)) m = (m1, g)" by (metis prod.exhaust)
  with Cons.prems(6) r obtain gs' where
    gs: "gs = g # gs'" "spec_run (map (\<lambda>(now, x). (now, on_wire (op_command x))) reqs) m1 = (m', gs')"
    by (auto split: prod.splits)
  from Cons.prems(7) r s1 obtain vs where v: "vals = op_value x m # vs" "spec_session reqs m1 = (m2, vs)"
    by (auto split: prod.splits)
  note a = spec_answer [OF s1]
  from fs(2) have f: "request_frame (op_command x) = Ok f" "wire_frame f" by (simp_all add: sendable_def)
  have u: "unread c = frame_bytes g @ concat (map frame_bytes gs')" using Cons.prems(2) gs(1) by simp
  from op_call_answered [OF assms Cons.prems(1) u Cons.prems(3) _ _ f] a Cons.prems(4) gs(1) obtain c1 where
    c1: "op_call E x c = (c1, Ok (op_value x m))" "quiet c1" "unread c1 = concat (map frame_bytes gs')"
      "sent c1 = sent c @ frame_bytes f" by auto
  have "fits E (unread c1)" by (rule fits_mono [OF Cons.prems(3)]) (simp add: u c1(3))
  from Cons.IH [OF c1(2,3) this _ fs(3) gs(2) v(2)] Cons.prems(4) gs(1) c1 r v(1) fs(1) show ?case by auto
qed

text \<open>
  C4. A client and the server, end to end.  Calls of \<open>get\<close>, \<open>set\<close>, \<open>set_expires\<close> and \<open>ping\<close> return what the
  same calls on an abstract map with deadlines give, in order and without an error, when the
  server's handler is given the bytes of the requests and the client the bytes that the handler
  sent, both cut into any chunks; the requests are then exactly what the client sends, and the
  database holds the abstract map.
\<close>

theorem redis_client_server:
  assumes "atoi_law E" "case_law E" and "db_inv (db d)" "\<not> poisoned d" "storable (db_view (db d))"
    and "list_all2 (\<lambda>(now, x) f. sendable now (op_command x) f) reqs fs"
    and "all_chunks es" "stream_bytes es = concat (map frame_bytes fs)" "fits E (stream_bytes es)"
    and "handler_run B M E (map (\<lambda>(now, x). (now, FrameReady)) reqs) (handler_new d (connection_new es [])) = h"
    and "all_chunks es'" "stream_bytes es' = sent (h_conn h)" "fits E (stream_bytes es')"
    and "spec_session reqs (db_view (db d)) = (m, vals)"
  shows "\<exists>c. client_session E (map snd reqs) (connection_new es' []) = (c, map Ok vals) \<and>
    sent c = stream_bytes es \<and> db_view (db (h_db h)) = m"
proof -
  let ?cmds = "map (\<lambda>(now, x). (now, op_command x)) reqs"
  have reqs: "list_all2 (\<lambda>(now, c) f. sendable now c f) ?cmds fs"
    unfolding list_all2_map1 by (rule list_all2_mono [OF assms(6)]) auto
  have m: "map (\<lambda>(now, c). (now, on_wire c)) ?cmds = map (\<lambda>(now, x). (now, on_wire (op_command x))) reqs"
    "map (\<lambda>(now, c). (now, FrameReady)) ?cmds = map (\<lambda>(now, x). (now, FrameReady)) reqs"
    by (simp_all add: case_prod_beta comp_def)
  obtain m' gs where s: "spec_run (map (\<lambda>(now, x). (now, on_wire (op_command x))) reqs) (db_view (db d)) = (m', gs)"
    by (metis prod.exhaust)
  have "served (handler_new d (connection_new es [])) (db_view (db d))"
    using assms(3-5,7) by (simp add: served_def handler_new_def connection_new_def quiet_def)
  from serve_all [OF assms(1,2) this reqs _ _ s [folded m(1)], of B M] assms(8,9,10)
  have h: "served h m'" "\<forall>g \<in> set gs. wire_frame g" "sent (h_conn h) = concat (map frame_bytes gs)"
    unfolding m(2) by (simp_all add: handler_new_def connection_new_def unread_def)
  have "quiet (connection_new es' [])" using assms(11) by (simp add: quiet_def connection_new_def)
  moreover have "unread (connection_new es' []) = concat (map frame_bytes gs)" "fits E (unread (connection_new es' []))"
    using assms(12,13) h(3) by (simp_all add: unread_def connection_new_def)
  ultimately show ?thesis
    using client_session_answered [OF assms(1) _ _ _ h(2) assms(6) s assms(14)] h(1) assms(8)
    by (fastforce simp: served_def connection_new_def)
qed

theorem redis_client_server_witness:
  "\<exists>c h. handler_run hub_ref sm_ref (env_ref True) [(1, FrameReady), (2, FrameReady)]
      (handler_new (db_new 0) (connection_new
        [Chunk (frame_bytes (Array [Bulk (bstr ''set''), Bulk [97], Bulk [1]])),
         Chunk (frame_bytes (Array [Bulk (bstr ''get''), Bulk [97]]))] [])) = h \<and>
    client_session (env_ref True) [OpSet [97] [1], OpGet [97]]
      (connection_new [Chunk (frame_bytes (Simple (bstr ''OK''))), Chunk (frame_bytes (Bulk [1]))] []) =
    (c, [Ok Stored, Ok (OptValue (Some [1]))])"
proof -
  let ?reqs = "[(1, OpSet [97] [1]), (2, OpGet [97])] :: (instant \<times> client_op) list"
  let ?fs = "[Array [Bulk (bstr ''set''), Bulk [97], Bulk [1]], Array [Bulk (bstr ''get''), Bulk [97]]]"
  let ?es = "map (\<lambda>f. Chunk (frame_bytes f)) ?fs"
  let ?gs = "[Simple (bstr ''OK''), Bulk [1]]"
  let ?es' = "map (\<lambda>f. Chunk (frame_bytes f)) ?gs"
  let ?d = "db_new 0 :: (nat, nat) shared"
  let ?hn = "handler_new ?d (connection_new ?es []) :: (nat, nat, bytes list) handler"
  let ?h = "handler_run hub_ref sm_ref (env_ref True) (map (\<lambda>(now, x). (now, FrameReady)) ?reqs) ?hn"
  have d: "db_inv (db ?d)" "\<not> poisoned ?d" "storable (db_view (db ?d))"
    by (simp_all add: db_inv_new) (simp_all add: db_new_def db_view_def storable_def)
  have reqs: "list_all2 (\<lambda>(now, x) f. sendable now (op_command x) f) ?reqs ?fs"
    by (simp add: sendable_def set_into_frame_def get_into_frame_def frame_array_def small_def usize_limit_def)
  have es: "all_chunks ?es" "stream_bytes ?es = concat (map frame_bytes ?fs)" by simp_all
  have ft: "fits (env_ref True) (stream_bytes ?es)"
    by (rule fits_ref) (simp add: line_bytes_def bdec_small)
  have "served ?hn (db_view (db ?d))" using d es(1) by (simp add: served_def handler_new_def connection_new_def quiet_def)
  from serve_all [OF atoi_law_ref case_law_ref this, where reqs = "map (\<lambda>(now, x). (now, op_command x)) ?reqs" and fs = ?fs
      and m' = "fst (spec_run (map (\<lambda>(now, c). (now, on_wire c)) (map (\<lambda>(now, x). (now, op_command x)) ?reqs)) (db_view (db ?d)))"
      and gs = ?gs and B = hub_ref and M = sm_ref] reqs es ft
  have sent: "sent (h_conn ?h) = concat (map frame_bytes ?gs)"
    by (simp add: handler_new_def connection_new_def unread_def)
  have es': "all_chunks ?es'" "stream_bytes ?es' = sent (h_conn ?h)" unfolding sent by simp_all
  have ft': "fits (env_ref True) (stream_bytes ?es')"
    unfolding es'(2) sent by (rule fits_ref) (simp add: line_bytes_def bdec_small)
  have sp: "spec_session ?reqs (db_view (db ?d)) = ((db_view (db ?d))([97] \<mapsto> ([1], None)), [Stored, OptValue (Some [1])])"
    by simp
  from redis_client_server [OF atoi_law_ref case_law_ref d reqs es ft refl es' ft' sp] show ?thesis by auto
qed

section \<open>Subscriptions\<close>

fun publication_frame :: "bytes \<times> bytes \<Rightarrow> frame" where
  "publication_frame (channel, msg) = Array [Bulk (bstr ''message''), Bulk channel, Bulk msg]"

fun publishable :: "bytes \<times> bytes \<Rightarrow> bool" where
  "publishable (channel, msg) \<longleftrightarrow> valid_utf8 channel \<and> small channel \<and> small msg"

fun received :: "redis_env \<Rightarrow> bytes \<times> bytes \<Rightarrow> bytes \<times> bytes" where
  \<comment> \<open>content that is not UTF-8 is replaced by its debug text\<close>
  "received E (channel, msg) = (channel, if valid_utf8 msg then msg else bytes_debug E msg)"

lemma make_message_frame_eq: "make_message_frame channel msg = Ok (publication_frame (channel, msg))"
  by (simp add: make_message_frame_def frame_array_def)

lemma publication_wire: "publishable p \<Longrightarrow> wire_frame (publication_frame p)"
  by (cases p) (simp add: small_def usize_limit_def)

lemma next_message_frame:
  assumes "atoi_law E" and "publishable p" and "quiet (sub_client s)"
    and "unread (sub_client s) = frame_bytes (publication_frame p) @ rest" and "fits E (unread (sub_client s))"
  shows "\<exists>s'. next_message E s = (s', Ok (Some (received E p))) \<and> quiet (sub_client s') \<and>
    unread (sub_client s') = rest \<and> sent (sub_client s') = sent (sub_client s) \<and>
    subscribed_channels s' = subscribed_channels s"
proof -
  have "parse_frame E (unread (sub_client s)) = Ok (Some (publication_frame p), rest)"
    using parse_frame_at [OF publication_wire [OF assms(2)] assms(1)] assms(4,5) by simp
  from read_frame_next [OF assms(3,5) this] obtain c where
    "read_frame E (sub_client s) = (c, Ok (Some (publication_frame p)))" "quiet c" "unread c = rest"
    "sent c = sent (sub_client s)" by blast
  with assms(2) show ?thesis
    by (cases p) (simp add: next_message_def crate_result_def message_of_def)
qed

lemma next_message_end:
  assumes "quiet (sub_client s)" and "unread (sub_client s) = []"
  shows "next_message E s = (s, Ok None)"
proof -
  have e: "rbuf (sub_client s) = []" "incoming (sub_client s) = []"
    using assms by (cases "incoming (sub_client s)"; auto simp: quiet_def unread_def)+
  have "parse_frame E [] = Ok (None, [])"
    by (simp add: parse_frame_def frame_check_def get_u8_def)
  then have "read_events E [] [] = (Ok None, [], [])"
    by (subst read_events.simps) (simp add: end_of_stream_def)
  with e have "read_frame E (sub_client s) = (sub_client s, Ok None)"
    by (cases "sub_client s") (simp add: read_frame_def)
  then show ?thesis by (cases s) (simp add: next_message_def crate_result_def)
qed

text \<open>
  What a subscriber receives.  The message frame that the server builds for a publication is
  delivered with its channel, but its content goes through the display of the frame: content
  that is not UTF-8 arrives as its debug text.
\<close>

theorem redis_message_text:
  assumes "atoi_law E" and "valid_utf8 channel" and "small channel" and "small msg"
    and "make_message_frame channel msg = Ok f" and "quiet (sub_client s)"
    and "unread (sub_client s) = frame_bytes f @ rest" and "fits E (unread (sub_client s))"
  shows "\<exists>s'. next_message E s =
      (s', Ok (Some (channel, if valid_utf8 msg then msg else bytes_debug E msg))) \<and>
    unread (sub_client s') = rest \<and> subscribed_channels s' = subscribed_channels s"
proof -
  have "f = publication_frame (channel, msg)" using assms(5) by (simp add: make_message_frame_eq)
  with next_message_frame [OF assms(1) _ assms(6), of "(channel, msg)" rest] assms(2-4,7,8) show ?thesis by auto
qed

theorem redis_message_text_witness:
  "\<exists>s'. next_message (env_ref True) \<lparr>sub_client = connection_new
        [Chunk (frame_bytes (Array [Bulk (bstr ''message''), Bulk [97], Bulk [255]]))] [], subscribed_channels = [[97]]\<rparr> =
      (s', Ok (Some ([97], bytes_debug (env_ref True) [255]))) \<and>
    unread (sub_client s') = [] \<and> subscribed_channels s' = [[97]]"
proof -
  let ?f = "Array [Bulk (bstr ''message''), Bulk [97], Bulk [255]]"
  let ?s = "\<lparr>sub_client = connection_new [Chunk (frame_bytes ?f)] [], subscribed_channels = [[97]]\<rparr>"
  have "make_message_frame [97] [255] = Ok ?f" by (simp add: make_message_frame_def frame_array_def)
  moreover have "fits (env_ref True) (unread (sub_client ?s))"
    by (rule fits_ref) (simp add: line_bytes_def bdec_small unread_def connection_new_def)
  ultimately show ?thesis
    using redis_message_text [OF atoi_law_ref [of True], where channel = "[97]" and msg = "[255]" and f = ?f and s = ?s and rest = "[]"]
    by (simp add: small_def usize_limit_def quiet_def connection_new_def unread_def)
qed

lemma length_without: "length (filter (\<lambda>c. c \<noteq> k) ks) = length ks - count_list ks k"
proof (induction ks)
  case (Cons x ks)
  have "count_list ks k \<le> length ks" by (rule count_le_length)
  with Cons show ?case by (auto simp: Suc_diff_le)
qed simp

lemma unsubscribe_ack_eq:
  "unsubscribe_ack (Array (Bulk (bstr ''unsubscribe'') # Bulk k # fs)) ks =
     (filter (\<lambda>c. c \<noteq> k) ks,
      if count_list ks k = 1 then Ok () else unexpected (Array (Bulk (bstr ''unsubscribe'') # Bulk k # fs)))"
proof -
  have n: "count_list ks k \<le> length ks" by (rule count_le_length)
  have k: "filter (\<lambda>c. k \<noteq> c) ks = filter (\<lambda>c. c \<noteq> k) ks" by (rule filter_cong) auto
  have "length (filter (\<lambda>c. c \<noteq> k) ks) = length ks - 1 \<and> ks \<noteq> [] \<longleftrightarrow> count_list ks k = 1"
    unfolding length_without using n by (cases ks) auto
  then show ?thesis
    by (cases "ks = []") (simp_all add: unsubscribe_ack_def Let_def k del: bstr_simps)
qed

text \<open>
  Unsubscribing from a channel.  A subscriber that asks the server to end one subscription, and
  gets the acknowledgement, returns without an error exactly when its own list holds the channel
  once; a channel that it had asked for twice is removed and reported as an error.
\<close>

theorem redis_unsubscribe_twice:
  assumes "atoi_law E" and "valid_utf8 k" and "small k" and "quiet (sub_client s)"
    and "unread (sub_client s) = frame_bytes (Array [Bulk (bstr ''unsubscribe''), Bulk k, Integer n]) @ rest"
    and "fits E (unread (sub_client s))"
  shows "\<exists>s' r. subscriber_unsubscribe E [k] s = (s', r) \<and>
    (r = Ok () \<longleftrightarrow> count_list (subscribed_channels s) k = 1) \<and>
    subscribed_channels s' = filter (\<lambda>c. c \<noteq> k) (subscribed_channels s)"
proof -
  let ?f = "Array [Bulk (bstr ''unsubscribe''), Bulk k]" and ?g = "Array [Bulk (bstr ''unsubscribe''), Bulk k, Integer n]"
  let ?c = "(sub_client s)\<lparr>sent := sent (sub_client s) @ frame_bytes ?f\<rparr>"
  have wf: "wire_frame ?f" "wire_frame ?g" using assms(3) by (simp_all add: small_def usize_limit_def)
  note w = write_frame_quiet [OF assms(4) wf(1)]
  have "parse_frame E (unread ?c) = Ok (Some ?g, rest)"
    using parse_frame_at [OF wf(2) assms(1)] assms(5,6) w by simp
  from read_frame_next [OF _ _ this] w assms(6) obtain c where "read_frame E ?c = (c, Ok (Some ?g))" by auto
  then have rr: "read_response E ?c = (c, Ok ?g)" by (simp add: read_response_def crate_result_def)
  have req: "unsubscribe_into_frame [k] = Ok ?f" by (simp add: unsubscribe_into_frame_def frame_array_def)
  show ?thesis
    using w rr req
    by (auto simp: subscriber_unsubscribe_def send_request_def crate_result_def unsubscribe_ack_eq unexpected_def
        simp del: frame_bytes.simps bstr_simps)
qed

theorem redis_unsubscribe_twice_witness:
  "\<exists>s' r. subscriber_unsubscribe (env_ref True) [[97]] \<lparr>sub_client = connection_new
        [Chunk (frame_bytes (Array [Bulk (bstr ''unsubscribe''), Bulk [97], Integer 0]))] [], subscribed_channels = [[97], [97]]\<rparr> =
      (s', r) \<and> r \<noteq> Ok () \<and> subscribed_channels s' = []"
proof -
  let ?g = "Array [Bulk (bstr ''unsubscribe''), Bulk [97], Integer 0]"
  let ?s = "\<lparr>sub_client = connection_new [Chunk (frame_bytes ?g)] [], subscribed_channels = [[97], [97]]\<rparr>"
  have "bdec (Suc (Suc (Suc (Suc (Suc (Suc (Suc (Suc (Suc (Suc (Suc 0))))))))))) = [49, 49]" by code_simp
  then have "fits (env_ref True) (unread (sub_client ?s))"
    by (intro fits_ref) (simp add: line_bytes_def bdec_small unread_def connection_new_def)
  then show ?thesis
    using redis_unsubscribe_twice [OF atoi_law_ref [of True], where k = "[97]" and s = ?s and n = 0 and rest = "[]"]
    by (simp add: small_def usize_limit_def quiet_def connection_new_def unread_def)
qed

end
