(* ===== verification/Redis_Buffered.thy ===== *)
theory Redis_Buffered
  imports Redis_Client
begin

text \<open>
  The buffered client (\<open>clients/buffered_client.rs\<close>): any number of callers put commands into a
  channel, and one task takes them out, calls the client and sends each response back to its
  caller. A call has a number for its \<open>oneshot\<close> channel; the steps of callers and task interleave.
\<close>

section \<open>State and steps\<close>

definition channel_capacity :: nat where
  "channel_capacity = 32"

record buffered_client =
  bf_queue :: "(nat \<times> buffered_command) list" \<comment> \<open>the messages in the channel\<close>
  bf_current :: "(nat \<times> buffered_command) option" \<comment> \<open>the message that the task has taken out\<close>
  bf_client :: client \<comment> \<open>owned by the task\<close>
  bf_answers :: "nat \<rightharpoonup> (client_error, bytes option) outcome" \<comment> \<open>what the \<open>oneshot\<close> of a call holds\<close>
  bf_running :: bool \<comment> \<open>whether the task runs\<close>

definition buffer :: "client \<Rightarrow> buffered_client" where
  "buffer c = \<lparr>bf_queue = [], bf_current = None, bf_client = c, bf_answers = Map.empty, bf_running = True\<rparr>"

definition send_command :: "nat \<Rightarrow> buffered_command \<Rightarrow> buffered_client \<Rightarrow> buffered_client option" where
  \<comment> \<open>\<open>self.tx.send(..)\<close>: \<open>None\<close> while the channel is full or when its receiver is gone\<close>
  "send_command n cmd b =
     (if bf_running b \<and> length (bf_queue b) < channel_capacity
      then Some (b\<lparr>bf_queue := bf_queue b @ [(n, cmd)]\<rparr>) else None)"

definition task_receive :: "buffered_client \<Rightarrow> buffered_client option" where
  \<comment> \<open>\<open>rx.recv().await\<close> at the head of the loop of \<open>run\<close>: \<open>None\<close> while there is nothing to receive\<close>
  "task_receive b =
     (case (bf_current b, bf_queue b) of
        (None, message # queue) \<Rightarrow>
          if bf_running b then Some (b\<lparr>bf_current := Some message, bf_queue := queue\<rparr>) else None
      | _ \<Rightarrow> None)"

definition task_respond :: "redis_env \<Rightarrow> buffered_client \<Rightarrow> buffered_client option" where
  \<comment> \<open>the body of the loop; a panic of the client ends the task and closes the channel with its messages\<close>
  "task_respond E b =
     (case bf_current b of
        None \<Rightarrow> None
      | Some (n, cmd) \<Rightarrow>
          (case buffered_call E cmd (bf_client b) of
             (c, Panic) \<Rightarrow> Some (b\<lparr>bf_queue := [], bf_current := None, bf_client := c, bf_running := False\<rparr>)
           | (c, Diverge) \<Rightarrow> None
           | (c, response) \<Rightarrow>
               Some (b\<lparr>bf_current := None, bf_client := c, bf_answers := (bf_answers b)(n \<mapsto> response)\<rparr>)))"

datatype buffered_error = FromClient client_error | ChannelClosed

definition call_result :: "nat \<Rightarrow> buffered_client \<Rightarrow> (buffered_error, bytes option) outcome option" where
  \<comment> \<open>what \<open>get\<close> returns; \<open>None\<close> while it waits\<close>
  "call_result n b =
     (case bf_answers b n of
        Some r \<Rightarrow> Some (omap_err FromClient r)
      | None \<Rightarrow> if bf_running b then None else Some (Err ChannelClosed))"

definition set_result :: "nat \<Rightarrow> buffered_client \<Rightarrow> (buffered_error, unit) outcome option" where
  "set_result n b = map_option (\<lambda>r. obind r (\<lambda>_. Ok ())) (call_result n b)"

inductive buffered_reach ::
  "redis_env \<Rightarrow> client \<Rightarrow> (nat \<times> buffered_command) list \<Rightarrow> buffered_client \<Rightarrow> bool"
  for E :: redis_env and c :: client where
  \<comment> \<open>the states after the calls of a list have been sent, in its order\<close>
  start: "buffered_reach E c [] (buffer c)"
| send: "buffered_reach E c calls b \<Longrightarrow> n \<notin> fst ` set calls \<Longrightarrow> send_command n cmd b = Some b' \<Longrightarrow>
    buffered_reach E c (calls @ [(n, cmd)]) b'"
| receive: "buffered_reach E c calls b \<Longrightarrow> task_receive b = Some b' \<Longrightarrow> buffered_reach E c calls b'"
| respond: "buffered_reach E c calls b \<Longrightarrow> task_respond E b = Some b' \<Longrightarrow> buffered_reach E c calls b'"

section \<open>Every caller gets its own response\<close>

lemma buffered_run_Cons:
  assumes "buffered_run E (x # cmds) c = (c1, rs)" and "list_all returns rs"
  obtains c' r rs' where "buffered_call E x c = (c', r)" "returns r" "buffered_run E cmds c' = (c1, rs')" "rs = r # rs'"
    "list_all returns rs'"
proof -
  obtain c' r where x: "buffered_call E x c = (c', r)" by (cases "buffered_call E x c")
  obtain c4 rs' where run: "buffered_run E cmds c' = (c4, rs')" by (cases "buffered_run E cmds c'")
  show thesis
  proof (cases r)
    case (Ok v)
    with assms x run have "rs = r # rs'" "c4 = c1" by auto
    with assms(2) Ok run show thesis using that [OF x, of rs'] by simp
  next
    case (Err e)
    with assms x run have "rs = r # rs'" "c4 = c1" by auto
    with assms(2) Err run show thesis using that [OF x, of rs'] by simp
  qed (use assms x in auto)
qed

lemma buffered_run_step:
  "buffered_call E x c = (c', r) \<Longrightarrow> returns r \<Longrightarrow> buffered_run E cmds c' = (c1, rs) \<Longrightarrow>
   buffered_run E (x # cmds) c = (c1, r # rs)"
  by (cases r) simp_all

lemma buffered_run_snoc:
  "buffered_run E cmds c = (c1, rs) \<Longrightarrow> list_all returns rs \<Longrightarrow> buffered_call E cmd c1 = (c2, r) \<Longrightarrow> returns r \<Longrightarrow>
   buffered_run E (cmds @ [cmd]) c = (c2, rs @ [r])"
proof (induction cmds arbitrary: c rs)
  case Nil
  then have "buffered_run E [cmd] c = (c2, [r])" by (intro buffered_run_step) simp_all
  with Nil show ?case by simp
next
  case (Cons x cmds)
  from Cons.prems(1,2) obtain c' r' rs' where x: "buffered_call E x c = (c', r')" "returns r'"
    "buffered_run E cmds c' = (c1, rs')" "rs = r' # rs'" "list_all returns rs'" by (rule buffered_run_Cons)
  from buffered_run_step [OF x(1,2) Cons.IH [OF x(3,5) Cons.prems(3,4)]] x(4) show ?case by simp
qed

lemma buffered_run_length: "buffered_run E cmds c = (c', rs) \<Longrightarrow> list_all returns rs \<Longrightarrow> length rs = length cmds"
proof (induction cmds arbitrary: c rs)
  case (Cons x cmds)
  from Cons.prems obtain c1 r1 rs1 where "buffered_run E cmds c1 = (c', rs1)" "rs = r1 # rs1" "list_all returns rs1"
    by (rule buffered_run_Cons)
  with Cons.IH show ?case by simp
qed simp

lemma buffered_run_take:
  "buffered_run E cmds c = (c', rs) \<Longrightarrow> list_all returns rs \<Longrightarrow> snd (buffered_run E (take k cmds) c) = take k rs"
proof (induction cmds arbitrary: c rs k)
  case (Cons x cmds)
  from Cons.prems obtain c1 r1 rs1 where x: "buffered_call E x c = (c1, r1)" "returns r1"
    "buffered_run E cmds c1 = (c', rs1)" "rs = r1 # rs1" "list_all returns rs1" by (rule buffered_run_Cons)
  show ?case
  proof (cases k)
    case (Suc j)
    obtain c2 rs2 where t: "buffered_run E (take j cmds) c1 = (c2, rs2)" by (cases "buffered_run E (take j cmds) c1")
    with Cons.IH [OF x(3,5), of j] have "rs2 = take j rs1" by simp
    with buffered_run_step [OF x(1,2) t] Suc x(4) show ?thesis by simp
  qed simp
qed simp

definition waiting :: "buffered_client \<Rightarrow> (nat \<times> buffered_command) list" where
  "waiting b = (case bf_current b of None \<Rightarrow> bf_queue b | Some message \<Rightarrow> message # bf_queue b)"

definition answered :: "redis_env \<Rightarrow> client \<Rightarrow> (nat \<times> buffered_command) list \<Rightarrow> buffered_client \<Rightarrow> bool" where
  \<comment> \<open>the answers are those of the first calls, made one after the other\<close>
  "answered E c calls b \<longleftrightarrow>
     (\<exists>handled c' rs. prefix handled calls \<and> buffered_run E (map snd handled) c = (c', rs) \<and> list_all returns rs \<and>
        bf_answers b = map_of (zip (map fst handled) rs) \<and>
        (bf_running b \<longrightarrow> bf_client b = c' \<and> calls = handled @ waiting b)) \<and>
     distinct (map fst calls) \<and> length (bf_queue b) \<le> channel_capacity \<and> (\<not> bf_running b \<longrightarrow> bf_current b = None)"

lemma answeredE:
  assumes "answered E c calls b"
  obtains handled c' rs where "prefix handled calls" "buffered_run E (map snd handled) c = (c', rs)"
    "list_all returns rs" "bf_answers b = map_of (zip (map fst handled) rs)"
    "bf_running b \<longrightarrow> bf_client b = c' \<and> calls = handled @ waiting b" "distinct (map fst calls)"
    "length (bf_queue b) \<le> channel_capacity" "\<not> bf_running b \<longrightarrow> bf_current b = None"
  using assms unfolding answered_def by blast

lemma answered_send:
  assumes "answered E c calls b" and "n \<notin> fst ` set calls" and "send_command n cmd b = Some b'"
  shows "answered E c (calls @ [(n, cmd)]) b'"
proof -
  from assms(1) obtain handled c' rs where h: "prefix handled calls" "buffered_run E (map snd handled) c = (c', rs)"
    "list_all returns rs" "bf_answers b = map_of (zip (map fst handled) rs)"
    "bf_running b \<longrightarrow> bf_client b = c' \<and> calls = handled @ waiting b" "distinct (map fst calls)"
    by (rule answeredE)
  from assms(3) have b: "bf_running b" "length (bf_queue b) < channel_capacity"
    "b' = b\<lparr>bf_queue := bf_queue b @ [(n, cmd)]\<rparr>"
    by (auto simp: send_command_def split: if_splits)
  with h assms(2) show ?thesis
    unfolding answered_def by (intro conjI exI [of _ handled] exI [of _ c'] exI [of _ rs]) (auto simp: waiting_def split: option.splits)
qed

lemma answered_receive:
  assumes "answered E c calls b" and "task_receive b = Some b'"
  shows "answered E c calls b'"
proof -
  from assms(2) obtain message queue where
    b: "bf_current b = None" "bf_queue b = message # queue" "bf_running b" "b' = b\<lparr>bf_current := Some message, bf_queue := queue\<rparr>"
    by (auto simp: task_receive_def split: option.splits list.splits if_splits)
  then have "waiting b' = waiting b" by (simp add: waiting_def)
  with assms(1) b show ?thesis unfolding answered_def by auto
qed

lemma answered_respond:
  assumes "answered E c calls b" and "task_respond E b = Some b'"
  shows "answered E c calls b'"
proof -
  from assms(1) obtain handled c' rs where h: "prefix handled calls" "buffered_run E (map snd handled) c = (c', rs)"
    "list_all returns rs" "bf_answers b = map_of (zip (map fst handled) rs)"
    "bf_running b \<longrightarrow> bf_client b = c' \<and> calls = handled @ waiting b" "distinct (map fst calls)"
    "length (bf_queue b) \<le> channel_capacity" "\<not> bf_running b \<longrightarrow> bf_current b = None"
    by (rule answeredE)
  from assms(2) obtain n cmd where q: "bf_current b = Some (n, cmd)" by (auto simp: task_respond_def split: option.splits)
  with h(8) have running: "bf_running b" by auto
  with h(5) q have calls: "calls = handled @ (n, cmd) # bf_queue b" and c': "bf_client b = c'"
    by (simp_all add: waiting_def)
  obtain c2 r where r: "buffered_call E cmd c' = (c2, r)" by (cases "buffered_call E cmd c'")
  show ?thesis
  proof (cases "returns r")
    case True
    then have b': "b' = b\<lparr>bf_current := None, bf_client := c2, bf_answers := (bf_answers b)(n \<mapsto> r)\<rparr>"
      using assms(2) q r c' by (cases r) (simp_all add: task_respond_def)
    have run: "buffered_run E (map snd (handled @ [(n, cmd)])) c = (c2, rs @ [r])"
      using buffered_run_snoc [OF h(2,3) r True] by simp
    have len: "length rs = length handled" using buffered_run_length [OF h(2,3)] by simp
    have "n \<notin> fst ` set handled" using h(6) unfolding calls by auto
    then have "map_of (zip (map fst handled) rs) n = None"
      using len map_of_zip_is_None [of "map fst handled" rs n] by simp
    then have "(bf_answers b)(n \<mapsto> r) = map_of (zip (map fst (handled @ [(n, cmd)])) (rs @ [r]))"
      unfolding h(4) using len
      by (auto simp: fun_eq_iff map_add_def split: option.splits simp del: map_of_eq_None_iff map_of_zip_is_None)
    with run h True q running show ?thesis
      unfolding answered_def b'
      by (intro conjI exI [of _ "handled @ [(n, cmd)]"] exI [of _ c2] exI [of _ "rs @ [r]"])
        (auto simp: calls waiting_def)
  next
    case False
    then have b': "b' = b\<lparr>bf_queue := [], bf_current := None, bf_client := c2, bf_running := False\<rparr>"
      using assms(2) q r c' by (cases r) (simp_all add: task_respond_def)
    from h show ?thesis
      unfolding answered_def b' by (intro conjI exI [of _ handled] exI [of _ c'] exI [of _ rs]) auto
  qed
qed

lemma buffered_reach_answered: "buffered_reach E c calls b \<Longrightarrow> answered E c calls b"
proof (induction rule: buffered_reach.induct)
  case start
  then show ?case by (auto simp: answered_def buffer_def waiting_def)
qed (blast intro: answered_send answered_receive answered_respond)+

text \<open>
  C33. Callers of a buffered client do not mix up their responses.  However callers and task interleave,
  the response that a call gets is the response to its own command, when the commands are called on
  the client one after the other in the order in which they entered the channel; and the
  channel never holds more than its capacity.
\<close>

theorem redis_buffered_order:
  assumes "buffered_reach E c calls b" and "bf_answers b n = Some r"
  shows "(\<exists>i<length calls. fst (calls ! i) = n \<and>
      snd (buffered_run E (map snd (take (Suc i) calls)) c) ! i = r) \<and>
    returns r \<and> call_result n b = Some (omap_err FromClient r) \<and> length (bf_queue b) \<le> channel_capacity"
proof -
  from buffered_reach_answered [OF assms(1)] obtain handled c' rs where
    h: "prefix handled calls" "buffered_run E (map snd handled) c = (c', rs)" "list_all returns rs"
      "bf_answers b = map_of (zip (map fst handled) rs)" "length (bf_queue b) \<le> channel_capacity"
    by (rule answeredE)
  from buffered_run_length [OF h(2,3)] have len: "length rs = length handled" by simp
  from assms(2) h(4) have "(n, r) \<in> set (zip (map fst handled) rs)" by (simp add: map_of_SomeD)
  then obtain i where i: "i < length handled" "fst (handled ! i) = n" "rs ! i = r"
    using len by (auto simp: in_set_conv_nth)
  from h(1) obtain more_calls where calls: "calls = handled @ more_calls" by (auto simp: prefix_def)
  have "snd (buffered_run E (map snd (take (Suc i) calls)) c) ! i = r"
    using buffered_run_take [OF h(2,3), of "Suc i"] i calls by (simp add: take_map)
  moreover have "returns r" using h(3) i len by (auto simp: list_all_length)
  moreover have "i < length calls \<and> fst (calls ! i) = n" using i(1,2) calls by (simp add: nth_append)
  ultimately show ?thesis using assms(2) h(5) by (auto simp: call_result_def)
qed

theorem redis_buffered_order_witness:
  "\<exists>b. buffered_reach (env_ref True) (connection_new [Chunk (frame_bytes (Bulk [1]))] [])
      [(7, BufferedGet [97]), (9, BufferedSet [97] [2])] b \<and>
    bf_answers b 7 = Some (Ok (Some [1])) \<and> call_result 7 b = Some (Ok (Some [1])) \<and> call_result 9 b = None"
proof -
  let ?c = "connection_new [Chunk (frame_bytes (Bulk [1]))] []"
  have "quiet ?c" "unread ?c = frame_bytes (Bulk [1]) @ []" "fits (env_ref True) (unread ?c)"
    by (simp_all add: quiet_def connection_new_def unread_def fits_ref line_bytes_def bdec_small)
  from op_call_answered [OF atoi_law_ref this, of "OpGet [97]"] obtain c' where
    "op_call (env_ref True) (OpGet [97]) ?c = (c', op_answer (OpGet [97]) (Bulk [1]))"
    by (auto simp: get_into_frame_def frame_array_def small_def usize_limit_def)
  then have call: "client_get (env_ref True) [97] ?c = (c', Ok (Some [1]))"
    by (cases "client_get (env_ref True) [97] ?c"; cases "snd (client_get (env_ref True) [97] ?c)")
      (simp_all del: frame_bytes.simps)
  let ?b = "\<lparr>bf_queue = [(9, BufferedSet [97] [2])], bf_current = None, bf_client = c',
    bf_answers = Map.empty(7 \<mapsto> Ok (Some [1])), bf_running = True\<rparr>"
  have "buffered_reach (env_ref True) ?c ([] @ [(7, BufferedGet [97])])
      ((buffer ?c)\<lparr>bf_queue := [(7, BufferedGet [97])]\<rparr>)"
    by (rule send [OF start]) (simp_all add: send_command_def buffer_def channel_capacity_def)
  then have "buffered_reach (env_ref True) ?c ([] @ [(7, BufferedGet [97])])
      ((buffer ?c)\<lparr>bf_current := Some (7, BufferedGet [97])\<rparr>)"
    by (rule receive) (simp add: task_receive_def buffer_def)
  then have "buffered_reach (env_ref True) ?c (([] @ [(7, BufferedGet [97])]) @ [(9, BufferedSet [97] [2])])
      ((buffer ?c)\<lparr>bf_current := Some (7, BufferedGet [97]), bf_queue := [(9, BufferedSet [97] [2])]\<rparr>)"
    by (rule send) (simp_all add: send_command_def buffer_def channel_capacity_def)
  then have "buffered_reach (env_ref True) ?c (([] @ [(7, BufferedGet [97])]) @ [(9, BufferedSet [97] [2])]) ?b"
    by (rule respond) (simp add: task_respond_def buffer_def buffered_call_def call del: frame_bytes.simps)
  then have reach: "buffered_reach (env_ref True) ?c [(7, BufferedGet [97]), (9, BufferedSet [97] [2])] ?b"
    by (simp del: frame_bytes.simps)
  from redis_buffered_order [OF reach, of 7 "Ok (Some [1])"] reach show ?thesis
    by (intro exI [of _ ?b]) (simp add: call_result_def)
qed

end
