(* ===== verification/Redis_Blocking.thy ===== *)
theory Redis_Blocking
  imports Redis_Client
begin

text \<open>
  The blocking client (\<open>clients/blocking_client.rs\<close>): an asynchronous client or subscriber with a
  runtime that runs its calls to their end. The runtime's \<open>block_on\<close> is a parameter, of the type of the
  call that it runs. The theorem compares the iterator of a blocking subscriber with the stream of an
  asynchronous one.
\<close>

section \<open>Calls on a runtime\<close>

record 's blocking =
  inner :: 's \<comment> \<open>the asynchronous client or subscriber\<close>

type_synonym ('s, 'r) block_on = "('s \<Rightarrow> 's \<times> 'r) \<Rightarrow> 's \<Rightarrow> 's \<times> 'r"

definition runtime_law :: "('s, 'r) block_on \<Rightarrow> bool" where
  \<comment> \<open>\<open>Runtime::block_on\<close> blocks until the future is complete and gives its result\<close>
  "runtime_law bo \<longleftrightarrow> (\<forall>future s. bo future s = future s)"

definition on_inner :: "('s, 'r) block_on \<Rightarrow> ('s \<Rightarrow> 's \<times> 'r) \<Rightarrow> 's blocking \<Rightarrow> 's blocking \<times> 'r" where
  \<comment> \<open>\<open>self.rt.block_on(self.inner.call(..))\<close>\<close>
  "on_inner bo call b = (case bo call (inner b) of (c, r) \<Rightarrow> (b\<lparr>inner := c\<rparr>, r))"

definition blocking_get ::
  "(client, (client_error, bytes option) outcome) block_on \<Rightarrow> redis_env \<Rightarrow> bytes \<Rightarrow> client blocking
     \<Rightarrow> client blocking \<times> (client_error, bytes option) outcome" where
  "blocking_get bo E key = on_inner bo (client_get E key)"

definition blocking_set ::
  "(client, (client_error, unit) outcome) block_on \<Rightarrow> redis_env \<Rightarrow> bytes \<Rightarrow> bytes \<Rightarrow> client blocking
     \<Rightarrow> client blocking \<times> (client_error, unit) outcome" where
  "blocking_set bo E key val = on_inner bo (client_set E key val)"

definition blocking_set_expires ::
  "(client, (client_error, unit) outcome) block_on \<Rightarrow> redis_env \<Rightarrow> bytes \<Rightarrow> bytes \<Rightarrow> nat \<Rightarrow> client blocking
     \<Rightarrow> client blocking \<times> (client_error, unit) outcome" where
  "blocking_set_expires bo E key val expiration = on_inner bo (client_set_expires E key val expiration)"

definition blocking_publish ::
  "(client, (client_error, u64) outcome) block_on \<Rightarrow> redis_env \<Rightarrow> bytes \<Rightarrow> bytes \<Rightarrow> client blocking
     \<Rightarrow> client blocking \<times> (client_error, u64) outcome" where
  "blocking_publish bo E channel message = on_inner bo (client_publish E channel message)"

definition blocking_subscribe ::
  "(client, (client_error, subscriber) outcome) block_on \<Rightarrow> redis_env \<Rightarrow> bytes list \<Rightarrow> client blocking
     \<Rightarrow> (client_error, subscriber blocking) outcome" where
  \<comment> \<open>consumes the client; the runtime moves to the subscriber\<close>
  "blocking_subscribe bo E channels b =
     obind (snd (bo (\<lambda>c. (c, client_subscribe E channels c)) (inner b))) (\<lambda>subscriber. Ok \<lparr>inner = subscriber\<rparr>)"

definition get_subscribed :: "subscriber blocking \<Rightarrow> bytes list" where
  "get_subscribed b = subscribed_channels (inner b)"

type_synonym message_result = "(client_error, (bytes \<times> bytes) option) outcome"

definition blocking_next_message ::
  "(subscriber, message_result) block_on \<Rightarrow> redis_env \<Rightarrow> subscriber blocking \<Rightarrow> subscriber blocking \<times> message_result" where
  "blocking_next_message bo E = on_inner bo (next_message E)"

definition blocking_subscribe_more ::
  "(subscriber, (client_error, unit) outcome) block_on \<Rightarrow> redis_env \<Rightarrow> bytes list \<Rightarrow> subscriber blocking
     \<Rightarrow> subscriber blocking \<times> (client_error, unit) outcome" where
  "blocking_subscribe_more bo E channels = on_inner bo (subscriber_subscribe E channels)"

definition blocking_unsubscribe ::
  "(subscriber, (client_error, unit) outcome) block_on \<Rightarrow> redis_env \<Rightarrow> bytes list \<Rightarrow> subscriber blocking
     \<Rightarrow> subscriber blocking \<times> (client_error, unit) outcome" where
  "blocking_unsubscribe bo E channels = on_inner bo (subscriber_unsubscribe E channels)"

section \<open>The iterator\<close>

fun transpose_result :: "('e, 'a option) outcome \<Rightarrow> ('e, 'a) outcome option" where
  \<comment> \<open>\<open>Result::transpose\<close>; a panic or a call that does not return is that of \<open>next\<close>\<close>
  "transpose_result (Ok None) = None"
| "transpose_result (Ok (Some x)) = Some (Ok x)"
| "transpose_result (Err e) = Some (Err e)"
| "transpose_result Panic = Some Panic"
| "transpose_result Diverge = Some Diverge"

definition into_iter :: "subscriber blocking \<Rightarrow> subscriber blocking" where
  "into_iter b = \<lparr>inner = inner b\<rparr>"

definition iterator_next ::
  "(subscriber, message_result) block_on \<Rightarrow> redis_env \<Rightarrow> subscriber blocking
     \<Rightarrow> subscriber blocking \<times> (client_error, bytes \<times> bytes) outcome option" where
  "iterator_next bo E b = (case on_inner bo (next_message E) b of (b, r) \<Rightarrow> (b, transpose_result r))"

fun iterator_items ::
  "(subscriber, message_result) block_on \<Rightarrow> redis_env \<Rightarrow> nat \<Rightarrow> subscriber blocking
     \<Rightarrow> (client_error, bytes \<times> bytes) outcome list" where
  \<comment> \<open>the items of a \<open>for\<close> loop over the iterator, in its first calls of \<open>next\<close>\<close>
  "iterator_items bo E 0 b = []"
| "iterator_items bo E (Suc n) b =
     (case iterator_next bo E b of
        (b, None) \<Rightarrow> []
      | (b, Some r) \<Rightarrow> r # (if returns r then iterator_items bo E n b else []))"

fun until_error :: "('e, 'a) outcome list \<Rightarrow> ('e, 'a) outcome list" where
  "until_error [] = []"
| "until_error (Ok x # rs) = Ok x # until_error rs"
| "until_error (r # rs) = [r]"

lemma iterator_next_law:
  "runtime_law bo \<Longrightarrow> next_message E s = (s', r) \<Longrightarrow>
    iterator_next bo E \<lparr>inner = s\<rparr> = (\<lparr>inner = s'\<rparr>, transpose_result r)"
  by (simp add: iterator_next_def on_inner_def runtime_law_def)

lemma stream_is_iterator_until_error:
  assumes "runtime_law bo"
  shows "stream_items E n s = until_error (iterator_items bo E n \<lparr>inner = s\<rparr>)"
proof (induction n arbitrary: s)
  case (Suc n)
  obtain s' r where r: "next_message E s = (s', r)" by (cases "next_message E s")
  consider "r = Ok None" | m where "r = Ok (Some m)" | "\<forall>x. r \<noteq> Ok x" by (metis option.exhaust)
  then show ?case
  proof cases
    case (2 m)
    with Suc.IH [of s'] r iterator_next_law [OF assms r] show ?thesis by simp
  next
    case 3
    with r iterator_next_law [OF assms r] show ?thesis by (cases r) simp_all
  qed (use r iterator_next_law [OF assms r] in simp)
qed simp

lemma next_message_rejected:
  assumes "parse_frame E (rbuf (sub_client s)) = Err e"
  shows "next_message E s = (s, Err (Crate e))"
proof -
  have "read_frame E (sub_client s) = (sub_client s, Err e)"
    using assms by (cases "sub_client s") (simp add: read_frame_def read_events.simps)
  then show ?thesis by (cases s) (simp add: next_message_def crate_result_def)
qed

lemma replicate_numeral_3: "replicate 3 x = [x, x, x]"
  by (simp add: numeral_3_eq_3)

text \<open>
  C38. The iterator of a blocking subscriber and the stream of an asynchronous one give the same items up to
  and including the first error.  There the stream ends, but the iterator goes on: when the buffer holds
  a frame that cannot be parsed, each call of \<open>next\<close> gives the same error, so a loop over the
  iterator that does not leave it at an error never ends.
\<close>

theorem redis_blocking_iterator:
  assumes "runtime_law bo"
  shows "stream_items E n s = until_error (iterator_items bo E n \<lparr>inner = s\<rparr>) \<and>
    (\<forall>e. parse_frame E (rbuf (sub_client s)) = Err e \<longrightarrow>
       iterator_items bo E n \<lparr>inner = s\<rparr> = replicate n (Err (Crate e)) \<and>
       stream_items E n s = (if n = 0 then [] else [Err (Crate e)]))"
proof -
  have "iterator_items bo E n \<lparr>inner = s\<rparr> = replicate n (Err (Crate e))"
    if "parse_frame E (rbuf (sub_client s)) = Err e" for e
    using iterator_next_law [OF assms next_message_rejected [OF that]] by (induction n) simp_all
  moreover have "until_error (replicate n (Err x)) = (if n = 0 then [] else [Err x :: (client_error, bytes \<times> bytes) outcome])" for x
    by (cases n) simp_all
  ultimately show ?thesis using stream_is_iterator_until_error [OF assms, of E n s] by simp
qed

theorem redis_blocking_iterator_witness:
  "\<exists>s e. rbuf (sub_client s) = [33] \<and>
     iterator_items (\<lambda>future s. future s) (env_ref True) 3 \<lparr>inner = s\<rparr> = [Err e, Err e, Err e] \<and>
     stream_items (env_ref True) 3 s = [Err e]"
proof -
  let ?s = "\<lparr>sub_client = (connection_new [] [])\<lparr>rbuf := [33]\<rparr>, subscribed_channels = [[97]]\<rparr>"
  obtain e where "parse_frame (env_ref True) (rbuf (sub_client ?s)) = Err e"
    by (simp add: parse_frame_def frame_check_def get_u8_def)
  moreover have "runtime_law (\<lambda>future s. future s)" by (simp add: runtime_law_def)
  ultimately have "iterator_items (\<lambda>future s. future s) (env_ref True) 3 \<lparr>inner = ?s\<rparr> = replicate 3 (Err (Crate e))"
    "stream_items (env_ref True) 3 ?s = [Err (Crate e)]"
    using redis_blocking_iterator [of "\<lambda>future s. future s" "env_ref True" 3 ?s] by auto
  moreover have "rbuf (sub_client ?s) = [33]" by simp
  ultimately show ?thesis by (metis replicate_numeral_3)
qed

end
