(* ===== verification/Redis_Cli.thy ===== *)
theory Redis_Cli
  imports Redis_Client Io_Writer
begin

text \<open>
  The command line client (\<open>bin/cli.rs\<close>): what its \<open>main\<close> prints for a command on an established
  connection, and the composition of the program with the server: a script of calls, each on a
  connection of its own, and a subscription. Standard output takes everything that is printed.
\<close>

section \<open>The program\<close>

datatype cli_command =
    CliPing "bytes option"
  | CliGet bytes
  | CliSet bytes bytes "nat option"
  | CliPublish bytes bytes
  | CliSubscribe "bytes list"

datatype cli_error = FromCall client_error | NoChannels

definition duration_from_ms_str :: "bytes \<Rightarrow> nat option" where
  "duration_from_ms_str src =
     map_option (\<lambda>ms. duration_from_millis (of_nat ms)) (parse_unsigned usize_limit 10 (map unat src))"

type_synonym cli_result = "(client \<times> bytes) \<times> (cli_error, unit) outcome"

definition value_line :: "redis_env \<Rightarrow> bytes \<Rightarrow> bytes" where
  "value_line E v = (if valid_utf8 v then [34] @ v @ [34, 10] else bytes_debug E v @ [10])"

definition message_line :: "redis_env \<Rightarrow> bytes \<times> bytes \<Rightarrow> bytes" where
  "message_line E m =
     bstr ''got message from the channel: '' @ fst m @ bstr ''; message = '' @ bytes_debug E (snd m) @ [10]"

definition print_result :: "'a client_result \<Rightarrow> ('a \<Rightarrow> bytes) \<Rightarrow> cli_result" where
  \<comment> \<open>the question mark operator on a call, and the \<open>println!\<close> behind it\<close>
  "print_result r text =
     (case r of
        (c, Ok v) \<Rightarrow> ((c, text v), Ok ())
      | (c, Err e) \<Rightarrow> ((c, []), Err (FromCall e))
      | (c, Panic) \<Rightarrow> ((c, []), Panic)
      | (c, Diverge) \<Rightarrow> ((c, []), Diverge))"

definition print_message :: "redis_env \<Rightarrow> subscriber \<times> bytes \<Rightarrow> (subscriber \<times> bytes) \<times> (cli_error, unit option) outcome" where
  \<comment> \<open>one turn of \<open>while let Some(msg) = subscriber.next_message().await?\<close>\<close>
  "print_message E =
     (\<lambda>(s, printed).
        case next_message E s of
          (s, Ok (Some m)) \<Rightarrow> ((s, printed @ message_line E m), Ok None)
        | (s, Ok None) \<Rightarrow> ((s, printed), Ok (Some ()))
        | (s, Err e) \<Rightarrow> ((s, printed), Err (FromCall e))
        | (s, Panic) \<Rightarrow> ((s, printed), Panic)
        | (s, Diverge) \<Rightarrow> ((s, printed), Diverge))"

definition cli_subscribe :: "redis_env \<Rightarrow> bytes list \<Rightarrow> client \<Rightarrow> cli_result" where
  "cli_subscribe E channels c =
     (if channels = [] then ((c, []), Err NoChannels)
      else (case client_subscribe E channels c of
              Ok subscriber \<Rightarrow>
                (case repeat (print_message E) (subscriber, []) of
                   ((s, printed), r) \<Rightarrow> ((sub_client s, printed), r))
            | Err e \<Rightarrow> ((c, []), Err (FromCall e))
            | Panic \<Rightarrow> ((c, []), Panic)
            | Diverge \<Rightarrow> ((c, []), Diverge)))"

fun cli_main :: "redis_env \<Rightarrow> cli_command \<Rightarrow> client \<Rightarrow> cli_result" where
  "cli_main E (CliPing msg) c = print_result (client_ping E msg c) (value_line E)"
| "cli_main E (CliGet key) c =
     print_result (client_get E key c)
       (\<lambda>v. case v of Some v \<Rightarrow> value_line E v | None \<Rightarrow> bstr ''(nil)'' @ [10])"
| "cli_main E (CliSet key val None) c = print_result (client_set E key val c) (\<lambda>_. bstr ''OK'' @ [10])"
| "cli_main E (CliSet key val (Some expires)) c =
     print_result (client_set_expires E key val expires c) (\<lambda>_. bstr ''OK'' @ [10])"
| "cli_main E (CliPublish channel message) c =
     print_result (client_publish E channel message c) (\<lambda>_. bstr ''Publish OK'' @ [10])"
| "cli_main E (CliSubscribe channels) c = cli_subscribe E channels c"

section \<open>Calls of the key-value service\<close>

fun cli_op :: "cli_command \<Rightarrow> client_op option" where
  "cli_op (CliPing msg) = Some (OpPing msg)"
| "cli_op (CliGet key) = Some (OpGet key)"
| "cli_op (CliSet key val None) = Some (OpSet key val)"
| "cli_op (CliSet key val (Some d)) = Some (OpSetExpires key val d)"
| "cli_op _ = None"

fun value_text :: "redis_env \<Rightarrow> client_value \<Rightarrow> bytes" where
  "value_text E (OptValue v) = (case v of Some v \<Rightarrow> value_line E v | None \<Rightarrow> bstr ''(nil)'' @ [10])"
| "value_text E (Value v) = value_line E v"
| "value_text E Stored = bstr ''OK'' @ [10]"

lemma print_result_map:
  "print_result (case m of (c, r) \<Rightarrow> (c, obind r (\<lambda>v. Ok (g v)))) text = print_result m (\<lambda>v. text (g v))"
  by (cases m; cases "snd m") (auto simp: print_result_def)

lemma cli_main_op: "cli_op cmd = Some x \<Longrightarrow> cli_main E cmd c = print_result (op_call E x c) (value_text E)"
  by (induction E cmd c rule: cli_main.induct) (auto simp: print_result_map simp del: bstr_simps)

lemma read_frame_sent: "read_frame E c = (c', r) \<Longrightarrow> sent c' = sent c"
  by (auto simp: read_frame_def split: prod.splits)

lemma op_call_sent:
  assumes "quiet c" and "request_frame (op_command x) = Ok f" and "wire_frame f"
  shows "sent (fst (op_call E x c)) = sent c @ frame_bytes f"
proof -
  let ?c = "c\<lparr>sent := sent c @ frame_bytes f\<rparr>"
  obtain c' r where r: "read_response E ?c = (c', r)" by (cases "read_response E ?c")
  obtain c2 m where m: "read_frame E ?c = (c2, m)" by (cases "read_frame E ?c")
  with r have "c' = c2" by (cases m) (auto simp: read_response_def crate_result_def)
  with read_frame_sent [OF m] have "sent c' = sent c @ frame_bytes f" by simp
  with r write_frame_quiet [OF assms(1,3)] assms(2) show ?thesis
    by (cases r) (simp_all add: op_call_eq client_call_def send_request_def crate_result_def)
qed

lemma print_result_client: "fst (fst (print_result m text)) = fst m"
  by (cases m; cases "snd m") (auto simp: print_result_def)

definition cli_sends :: "instant \<Rightarrow> cli_command \<Rightarrow> bool" where
  \<comment> \<open>a call whose request fits in memory and whose deadline the clock can represent\<close>
  "cli_sends now cmd \<longleftrightarrow> (\<exists>x f. cli_op cmd = Some x \<and> sendable now (op_command x) f)"

inductive cli_script ::
  "('tx, 'rx, 'h) broadcast \<Rightarrow> ('m, 'rx) stream_map \<Rightarrow> redis_env \<Rightarrow> ('tx, 'h) shared \<Rightarrow> (instant \<times> cli_command) list
     \<Rightarrow> (bytes \<times> (cli_error, unit) outcome) list \<Rightarrow> ('tx, 'h) shared \<Rightarrow> bool"
  for B :: "('tx, 'rx, 'h) broadcast" and M :: "('m, 'rx) stream_map" and E :: redis_env and d :: "('tx, 'h) shared" where
  \<comment> \<open>calls of the program one after the other: each connection has a handler on the shared database, each
    end receives what the other has sent, in any chunks\<close>
  no_calls: "cli_script B M E d [] [] d"
| one_more: "cli_script B M E d calls results d1 \<Longrightarrow>
    all_chunks es \<Longrightarrow> stream_bytes es = sent c \<Longrightarrow> fits E (stream_bytes es) \<Longrightarrow>
    handler_run B M E [(now, FrameReady)] (handler_new d1 (connection_new es [])) = h \<Longrightarrow>
    all_chunks es' \<Longrightarrow> stream_bytes es' = sent (h_conn h) \<Longrightarrow> fits E (stream_bytes es') \<Longrightarrow>
    cli_main E cmd (connection_new es' []) = ((c, printed), r) \<Longrightarrow>
    cli_script B M E d (calls @ [(now, cmd)]) (results @ [(printed, r)]) (h_db h)"

fun script_spec :: "redis_env \<Rightarrow> (instant \<times> cli_command) list \<Rightarrow> expiring_map \<Rightarrow> expiring_map \<times> bytes list" where
  \<comment> \<open>what the calls print on an abstract map\<close>
  "script_spec E [] m = (m, [])"
| "script_spec E ((now, cmd) # calls) m =
     (case cli_op cmd of
        Some x \<Rightarrow>
          (case script_spec E calls (fst (spec_apply now (on_wire (op_command x)) m)) of
             (m', texts) \<Rightarrow> (m', value_text E (op_value x m) # texts))
      | None \<Rightarrow> (m, []))"

lemma script_spec_snoc:
  "\<forall>(now, cmd) \<in> set calls. cli_sends now cmd \<Longrightarrow> cli_op cmd = Some x \<Longrightarrow> script_spec E calls m = (m1, texts) \<Longrightarrow>
   script_spec E (calls @ [(now, cmd)]) m =
     (fst (spec_apply now (on_wire (op_command x)) m1), texts @ [value_text E (op_value x m1)])"
proof (induction calls arbitrary: m texts)
  case (Cons p calls)
  obtain now' cmd' where p: "p = (now', cmd')" by (cases p)
  with Cons.prems(1) obtain y where y: "cli_op cmd' = Some y" by (auto simp: cli_sends_def)
  obtain ts where ts: "script_spec E calls (fst (spec_apply now' (on_wire (op_command y)) m)) = (m1, ts)" "texts = value_text E (op_value y m) # ts"
    using Cons.prems(3) p y by (auto split: prod.splits)
  with Cons.IH [OF _ Cons.prems(2) ts(1)] Cons.prems(1) p y show ?case by simp
qed simp

lemma handler_serves_call:
  assumes "atoi_law E" "case_law E" and "db_inv (db d)" "\<not> poisoned d" "storable (db_view (db d))"
    and "sendable now (op_command x) f" and "all_chunks es" "stream_bytes es = frame_bytes f" "fits E (stream_bytes es)"
    and "handler_run B M E [(now, FrameReady)] (handler_new d (connection_new es [])) = h"
    and "spec_apply now (on_wire (op_command x)) (db_view (db d)) = (m, g)"
  shows "served h m \<and> wire_frame g \<and> sent (h_conn h) = frame_bytes g"
proof -
  have "served (handler_new d (connection_new es [])) (db_view (db d))"
    using assms(3-5,7) by (simp add: served_def handler_new_def connection_new_def quiet_def)
  from serve_one [OF assms(1,2) this assms(6) _ _ assms(11), of "[]" B M] assms(8-10) show ?thesis
    by (simp add: handler_new_def connection_new_def unread_def)
qed

lemma cli_answered:
  assumes "atoi_law E" and "cli_op cmd = Some x" "sendable now (op_command x) f"
    and "spec_apply now (on_wire (op_command x)) m0 = (m, g)" "wire_frame g"
    and "all_chunks es'" "stream_bytes es' = frame_bytes g" "fits E (stream_bytes es')"
  shows "\<exists>c. cli_main E cmd (connection_new es' []) = ((c, value_text E (op_value x m0)), Ok ()) \<and> sent c = frame_bytes f"
proof -
  let ?c = "connection_new es' []"
  have c: "quiet ?c" "unread ?c = frame_bytes g @ []" "fits E (unread ?c)"
    using assms(6-8) by (simp_all add: quiet_def connection_new_def unread_def)
  have f: "request_frame (op_command x) = Ok f" "wire_frame f" using assms(3) by (simp_all add: sendable_def)
  note a = spec_answer [OF assms(4)]
  from op_call_answered [OF assms(1) c assms(5) _ f] a obtain c' where
    "op_call E x ?c = (c', Ok (op_value x m0))" "sent c' = frame_bytes f"
    by (auto simp: connection_new_def)
  then show ?thesis by (simp add: cli_main_op [OF assms(2)] print_result_def)
qed

lemma cli_script_outcome:
  assumes "cli_script B M E d calls results d'" and laws: "atoi_law E" "case_law E"
    and d: "db_inv (db d)" "\<not> poisoned d" "storable (db_view (db d))"
  shows "(\<forall>(now, cmd) \<in> set calls. cli_sends now cmd) \<Longrightarrow>
    (\<exists>texts. script_spec E calls (db_view (db d)) = (db_view (db d'), texts) \<and> results = map (\<lambda>t. (t, Ok ())) texts) \<and>
    db_inv (db d') \<and> \<not> poisoned d' \<and> storable (db_view (db d'))"
  using assms(1)
proof induction
  case no_calls
  then show ?case using d by simp
next
  case (one_more calls results d1 es c now h es' cmd printed r)
  then obtain texts where ih: "script_spec E calls (db_view (db d)) = (db_view (db d1), texts)"
    "results = map (\<lambda>t. (t, Ok ())) texts" "db_inv (db d1)" "\<not> poisoned d1" "storable (db_view (db d1))" by auto
  from one_more.prems obtain x f where x: "cli_op cmd = Some x" "sendable now (op_command x) f"
    by (auto simp: cli_sends_def)
  have "fst (fst (cli_main E cmd (connection_new es' []))) = fst (op_call E x (connection_new es' []))"
    by (simp add: cli_main_op [OF x(1)] print_result_client)
  moreover have "quiet (connection_new es' [])" using one_more.hyps by (simp add: quiet_def connection_new_def)
  ultimately have "sent c = frame_bytes f"
    using op_call_sent [of "connection_new es' []" x f E] x(2) one_more.hyps
    by (simp add: sendable_def connection_new_def)
  with one_more.hyps have es: "stream_bytes es = frame_bytes f" by simp
  obtain m g where sp: "spec_apply now (on_wire (op_command x)) (db_view (db d1)) = (m, g)" by fastforce
  from handler_serves_call [OF laws ih(3-5) x(2) one_more.hyps(2) es one_more.hyps(4,5) sp]
  have h: "served h m" "wire_frame g" "sent (h_conn h) = frame_bytes g" by blast+
  with cli_answered [OF laws(1) x sp h(2), of es'] one_more.hyps
  have "printed = value_text E (op_value x (db_view (db d1)))" "r = Ok ()" by auto
  with script_spec_snoc [OF _ x(1) ih(1), of now] one_more.prems ih(2) h(1) sp show ?case by (auto simp: served_def)
qed

lemma cli_script_extends:
  assumes "cli_script B M E d calls results d1" and "atoi_law E" "case_law E"
    and "db_inv (db d1)" "\<not> poisoned d1" "storable (db_view (db d1))"
    and "cli_op cmd = Some x" "sendable now (op_command x) f"
    and "spec_apply now (on_wire (op_command x)) (db_view (db d1)) = (m, g)" "fits E (frame_bytes f)" "fits E (frame_bytes g)"
  shows "\<exists>d2. cli_script B M E d (calls @ [(now, cmd)]) (results @ [(value_text E (op_value x (db_view (db d1))), Ok ())]) d2 \<and>
    db_inv (db d2) \<and> \<not> poisoned d2 \<and> storable (db_view (db d2)) \<and> db_view (db d2) = m"
proof -
  have ne: "frame_bytes u \<noteq> []" if "wire_frame u" for u using that by (cases u) simp_all
  let ?es = "[Chunk (frame_bytes f)]" and ?es' = "[Chunk (frame_bytes g)]"
  define h where "h = handler_run B M E [(now, FrameReady)] (handler_new d1 (connection_new ?es []))"
  have f: "wire_frame f" using assms(8) by (simp add: sendable_def)
  have es: "all_chunks ?es" "stream_bytes ?es = frame_bytes f" "fits E (stream_bytes ?es)"
    using ne [OF f] assms(10) by simp_all
  from handler_serves_call [OF assms(2-6,8) es _ assms(9), of B M h]
  have h: "served h m" "wire_frame g" "sent (h_conn h) = frame_bytes g" by (simp_all add: h_def)
  have es': "all_chunks ?es'" "stream_bytes ?es' = frame_bytes g" "fits E (stream_bytes ?es')"
    using ne [OF h(2)] assms(11) by simp_all
  from cli_answered [OF assms(2,7-9) h(2) es'] obtain c where
    "cli_main E cmd (connection_new ?es' []) = ((c, value_text E (op_value x (db_view (db d1)))), Ok ())"
    "sent c = frame_bytes f" by blast
  then have "cli_script B M E d (calls @ [(now, cmd)]) (results @ [(value_text E (op_value x (db_view (db d1))), Ok ())]) (h_db h)"
    using es(2) es'(2) h(3) by (intro one_more [OF assms(1) es(1) _ es(3) h_def [symmetric] es'(1) _ es'(3)]) simp_all
  with h(1) show ?thesis by (auto simp: served_def)
qed

text \<open>
  C39. A script of calls of the program.  When each call has its own connection to the server, and each end
  receives the bytes that the other has sent, in any chunks, then \<open>PING\<close>, \<open>GET\<close> and \<open>SET\<close> print what the same calls
  on an abstract map with deadlines give, none of them fails, and the database holds the map.
\<close>

theorem redis_cli_script:
  assumes "cli_script B M E d calls results d'" and "atoi_law E" "case_law E"
    and "db_inv (db d)" "\<not> poisoned d" "storable (db_view (db d))"
    and "\<forall>(now, cmd) \<in> set calls. cli_sends now cmd"
  shows "\<exists>texts. script_spec E calls (db_view (db d)) = (db_view (db d'), texts) \<and>
    results = map (\<lambda>t. (t, Ok ())) texts \<and> db_inv (db d')"
  using cli_script_outcome [OF assms] by blast

theorem redis_cli_script_witness:
  "\<exists>d'. cli_script hub_ref sm_ref (env_ref True) (db_new 0) [(1, CliSet [97] [98] None), (2, CliGet [97])]
      [(bstr ''OK'' @ [10], Ok ()), ([34, 98, 34, 10], Ok ())] d' \<and> db_view (db d') = [[97] \<mapsto> ([98], None)]"
proof -
  let ?d = "db_new 0 :: (nat, nat) shared" and ?E = "env_ref True"
  have laws: "atoi_law ?E" "case_law ?E" by simp_all
  have d: "db_inv (db ?d)" "\<not> poisoned ?d" "storable (db_view (db ?d))" "db_view (db ?d) = Map.empty"
    by (simp_all add: db_inv_new) (simp_all add: db_new_def db_view_def storable_def fun_eq_iff)
  have send: "sendable 1 (op_command (OpSet [97] [98])) (Array [Bulk (bstr ''set''), Bulk [97], Bulk [98]])"
    "sendable 2 (op_command (OpGet [97])) (Array [Bulk (bstr ''get''), Bulk [97]])"
    by (simp_all add: sendable_def set_into_frame_def get_into_frame_def frame_array_def small_def usize_limit_def)
  have fits: "fits ?E (frame_bytes (Array [Bulk (bstr ''set''), Bulk [97], Bulk [98]]))"
    "fits ?E (frame_bytes (Array [Bulk (bstr ''get''), Bulk [97]]))" "fits ?E (frame_bytes (Simple (bstr ''OK'')))"
    "fits ?E (frame_bytes (Bulk [98]))"
    by (rule fits_ref; simp add: line_bytes_def bdec_small)+
  have "cli_script hub_ref sm_ref ?E ?d [] [] ?d" by (rule no_calls)
  from cli_script_extends [OF this laws d(1-3) _ send(1) _ fits(1,3), of "CliSet [97] [98] None"] d(4)
  obtain d1 where d1: "cli_script hub_ref sm_ref ?E ?d [(1, CliSet [97] [98] None)] [(bstr ''OK'' @ [10], Ok ())] d1"
    "db_inv (db d1)" "\<not> poisoned d1" "storable (db_view (db d1))" "db_view (db d1) = [[97] \<mapsto> ([98], None)]"
    by (auto simp del: bstr_simps)
  from cli_script_extends [OF d1(1) laws d1(2-4) _ send(2) _ fits(2,4), of "CliGet [97]"] d1(5)
  obtain d2 where d2: "cli_script hub_ref sm_ref ?E ?d [(1, CliSet [97] [98] None), (2, CliGet [97])]
      [(bstr ''OK'' @ [10], Ok ()), (value_line ?E [98], Ok ())] d2"
    by (auto simp del: bstr_simps)
  have "\<forall>(now, cmd) \<in> set [(1, CliSet [97] [98] None), (2, CliGet [97])]. cli_sends now cmd"
    using send by (auto simp: cli_sends_def simp del: bstr_simps)
  from redis_cli_script [OF d2 laws d(1-3) this] d2 d(4) show ?thesis
    by (intro exI [of _ d2]) (simp add: value_line_def)
qed

section \<open>A subscription\<close>

fun ack_frame :: "bytes \<times> u64 \<Rightarrow> frame" where
  \<comment> \<open>the acknowledgement of a channel, with the number of subscriptions\<close>
  "ack_frame (channel, n) = Array [Bulk (bstr ''subscribe''), Bulk channel, Integer n]"

lemma read_response_frame:
  assumes "atoi_law E" and "quiet c" and "unread c = frame_bytes g @ rest" and "fits E (unread c)" and "wire_frame g"
    and "\<forall>e. g \<noteq> Error e"
  shows "\<exists>c'. read_response E c = (c', Ok g) \<and> quiet c' \<and> unread c' = rest \<and> sent c' = sent c"
proof -
  have "parse_frame E (unread c) = Ok (Some g, rest)" using parse_frame_at [OF assms(5,1)] assms(3,4) by simp
  from read_frame_next [OF assms(2,4) this] assms(6) show ?thesis
    by (cases g) (auto simp: read_response_def crate_result_def)
qed

lemma read_acks_frames:
  assumes "atoi_law E"
  shows "quiet c \<Longrightarrow> unread c = concat (map (\<lambda>a. frame_bytes (ack_frame a)) acks) @ rest \<Longrightarrow> fits E (unread c) \<Longrightarrow>
    list_all (small \<circ> fst) acks \<Longrightarrow>
    \<exists>c'. read_acks E (map fst acks) c = (c', Ok ()) \<and> quiet c' \<and> unread c' = rest \<and> sent c' = sent c"
proof (induction acks arbitrary: c)
  case (Cons a acks)
  obtain k n where a: "a = (k, n)" by (cases a)
  have wf: "wire_frame (ack_frame a)" using Cons.prems(4) by (simp add: a small_def usize_limit_def)
  have u: "unread c = frame_bytes (ack_frame a) @ concat (map (\<lambda>a. frame_bytes (ack_frame a)) acks) @ rest"
    using Cons.prems(2) by simp
  from read_response_frame [OF assms Cons.prems(1) u Cons.prems(3) wf] obtain c1 where
    c1: "read_response E c = (c1, Ok (ack_frame a))" "quiet c1"
      "unread c1 = concat (map (\<lambda>a. frame_bytes (ack_frame a)) acks) @ rest" "sent c1 = sent c" by (auto simp: a)
  have "fits E (unread c1)" by (rule fits_mono [OF Cons.prems(3)]) (simp add: u c1(3))
  from Cons.IH [OF c1(2,3) this] Cons.prems(4) c1(1,4) show ?case by (simp add: a subscribe_ack_def)
qed simp

lemma print_messages_loop:
  assumes "atoi_law E"
  shows "list_all publishable ps \<Longrightarrow> quiet (sub_client s) \<Longrightarrow>
    unread (sub_client s) = concat (map (\<lambda>p. frame_bytes (publication_frame p)) ps) \<Longrightarrow> fits E (unread (sub_client s)) \<Longrightarrow>
    \<exists>s'. repeat (print_message E) (s, printed) =
      ((s', printed @ concat (map (\<lambda>p. message_line E (received E p)) ps)), Ok ()) \<and>
      sent (sub_client s') = sent (sub_client s)"
proof (induction ps arbitrary: s printed)
  case Nil
  then have "next_message E s = (s, Ok None)" by (intro next_message_end) simp_all
  then have "repeat (print_message E) (s, printed) = ((s, printed), Ok ())"
    by (intro repeat_break) (simp add: print_message_def)
  then show ?case by simp
next
  case (Cons p ps)
  have u: "unread (sub_client s) = frame_bytes (publication_frame p) @ concat (map (\<lambda>p. frame_bytes (publication_frame p)) ps)"
    using Cons.prems(3) by simp
  have p: "publishable p" using Cons.prems(1) by simp
  from next_message_frame [OF assms p Cons.prems(2) u Cons.prems(4)] obtain s1 where
    s1: "next_message E s = (s1, Ok (Some (received E p)))" "quiet (sub_client s1)"
      "unread (sub_client s1) = concat (map (\<lambda>p. frame_bytes (publication_frame p)) ps)"
      "sent (sub_client s1) = sent (sub_client s)" by blast
  have "fits E (unread (sub_client s1))" by (rule fits_mono [OF Cons.prems(4)]) (simp add: u s1(3))
  from Cons.IH [OF _ s1(2,3) this, of "printed @ message_line E (received E p)"] Cons.prems(1) obtain s' where
    s': "repeat (print_message E) (s1, printed @ message_line E (received E p)) =
      ((s', (printed @ message_line E (received E p)) @ concat (map (\<lambda>p. message_line E (received E p)) ps)), Ok ())"
      "sent (sub_client s') = sent (sub_client s1)" by auto
  have "print_message E (s, printed) = ((s1, printed @ message_line E (received E p)), Ok None)"
    using s1(1) by (simp add: print_message_def)
  then have "repeat (print_message E) (s, printed) = repeat (print_message E) (s1, printed @ message_line E (received E p))"
    by (rule repeat_go_on) (simp add: s'(1))
  with s' s1(4) show ?case by simp
qed

text \<open>
  C40. A subscription of the program.  When the server acknowledges the channels, then sends the frames that
  it builds for publications and then closes the connection, all of it in any chunks, the program
  has sent one request, prints one line for each publication, in their order, and ends without an
  error. The content is printed through its debug text, and content that is not UTF-8 is replaced by a
  debug text before, so that such a message is escaped twice. Without channels nothing is sent.
\<close>

theorem redis_cli_subscribe:
  assumes "atoi_law E" and "list_all (small \<circ> fst) acks" and "length acks + 1 < usize_limit"
    and "list_all publishable ps" and "all_chunks es" and "fits E (stream_bytes es)"
    and "stream_bytes es = concat (map (\<lambda>a. frame_bytes (ack_frame a)) acks) @ concat (map (\<lambda>p. frame_bytes (publication_frame p)) ps)"
  shows "\<exists>c printed r. cli_main E (CliSubscribe (map fst acks)) (connection_new es []) = ((c, printed), r) \<and>
    (if acks = [] then sent c = [] \<and> printed = [] \<and> r = Err NoChannels
     else sent c = frame_bytes (Array (Bulk (bstr ''subscribe'') # map (Bulk \<circ> fst) acks)) \<and> r = Ok () \<and>
       printed = concat (map (\<lambda>p. message_line E (received E p)) ps))"
proof (cases "acks = []")
  case True
  then show ?thesis by (simp add: cli_subscribe_def connection_new_def)
next
  case False
  let ?f = "Array (Bulk (bstr ''subscribe'') # map (Bulk \<circ> fst) acks)" and ?c = "connection_new es []"
  have wf: "wire_frame ?f"
    using assms(2,3) by (auto simp: list_all_iff small_def usize_limit_def)
  have q: "quiet ?c" using assms(5) by (simp add: quiet_def connection_new_def)
  note w = write_frame_quiet [OF q wf]
  let ?c1 = "?c\<lparr>sent := sent ?c @ frame_bytes ?f\<rparr>"
  have u: "unread ?c1 = concat (map (\<lambda>a. frame_bytes (ack_frame a)) acks) @ concat (map (\<lambda>p. frame_bytes (publication_frame p)) ps)"
    and ft: "fits E (unread ?c1)"
    using assms(6,7) by (simp_all add: unread_def connection_new_def)
  from read_acks_frames [OF assms(1) _ u ft assms(2)] w obtain c2 where
    c2: "read_acks E (map fst acks) ?c1 = (c2, Ok ())" "quiet c2"
      "unread c2 = concat (map (\<lambda>p. frame_bytes (publication_frame p)) ps)" "sent c2 = sent ?c1" by blast
  have req: "subscribe_into_frame (map fst acks) = Ok ?f"
    by (simp add: subscribe_into_frame_def frame_array_def push_all_Array del: bstr_simps)
  let ?s = "\<lparr>sub_client = c2, subscribed_channels = map fst acks\<rparr>"
  have sub: "client_subscribe E (map fst acks) ?c = Ok ?s"
    using w c2(1) req by (simp add: client_subscribe_def subscribe_cmd_def send_request_def crate_result_def del: bstr_simps frame_bytes.simps)
  have "fits E (unread c2)" by (rule fits_mono [OF ft]) (simp only: u c2(3) length_append le_add2)
  with print_messages_loop [OF assms(1,4), of ?s "[]"] c2 obtain s' where
    "repeat (print_message E) (?s, []) = ((s', concat (map (\<lambda>p. message_line E (received E p)) ps)), Ok ())"
    "sent (sub_client s') = sent ?c1" by auto
  with sub False show ?thesis
    by (simp add: cli_subscribe_def connection_new_def comp_def del: bstr_simps frame_bytes.simps)
qed

theorem redis_cli_subscribe_witness:
  "\<exists>c. cli_main (env_ref True) (CliSubscribe [[97]])
      (connection_new [Chunk (frame_bytes (ack_frame ([97], 1)) @ frame_bytes (publication_frame ([97], [104, 105])))] []) =
    ((c, message_line (env_ref True) ([97], [104, 105])), Ok ())"
proof -
  let ?es = "[Chunk (frame_bytes (ack_frame ([97], 1)) @ frame_bytes (publication_frame ([97], [104, 105])))]"
  have es: "stream_bytes ?es = concat (map (\<lambda>a. frame_bytes (ack_frame a)) [([97], 1)]) @
      concat (map (\<lambda>p. frame_bytes (publication_frame p)) [([97], [104, 105])])" "all_chunks ?es"
    by (simp_all add: line_bytes_def)
  have "bdec 11 = [49, 49]" by code_simp
  then have "fits (env_ref True) (stream_bytes ?es)"
    by (intro fits_ref) (simp add: line_bytes_def bdec_small)
  from redis_cli_subscribe [OF atoi_law_ref _ _ _ es(2) this es(1)]
  show ?thesis by (auto simp: small_def usize_limit_def simp del: frame_bytes.simps ack_frame.simps publication_frame.simps)
qed

end
