(* ===== verification/Redis_Listener.thy ===== *)
theory Redis_Listener
  imports Redis_Server
begin

text \<open>
  The accept loop and the shutdown of the server (\<open>run\<close>, \<open>Listener\<close> in \<open>server.rs\<close>, \<open>Shutdown\<close> in
  \<open>shutdown.rs\<close>) as a state machine: the permits of the semaphore, the running handlers, and how far
  the loop is. A handler that ends, by return or by panic, drops its permit and its sender.
\<close>

section \<open>The shutdown signal\<close>

record shutdown =
  sd_is_shutdown :: bool

definition shutdown_new :: shutdown where
  "shutdown_new = \<lparr>sd_is_shutdown = False\<rparr>"

definition shutdown_recv :: "bool \<Rightarrow> shutdown \<Rightarrow> shutdown option" where
  \<comment> \<open>\<open>None\<close> while it waits; the argument says whether the receiver has a value or is closed\<close>
  "shutdown_recv notified s =
     (if sd_is_shutdown s then Some s else if notified then Some (s\<lparr>sd_is_shutdown := True\<rparr>) else None)"

lemma handler_shutdown:
  \<comment> \<open>the branch of the \<open>select!\<close> of a handler\<close>
  assumes "h_mode h = Serving" and "shutdown_recv True \<lparr>sd_is_shutdown = h_is_shutdown h\<rparr> = Some s"
  shows "h_is_shutdown (handler_step B M E now ShutdownReady h) = sd_is_shutdown s \<and>
    h_mode (handler_step B M E now ShutdownReady h) = Closed (Ok ())"
  using assms by (auto simp: handler_step_def shutdown_recv_def split: if_splits)

section \<open>Accepting\<close>

definition MAX_CONNECTIONS :: nat where
  "MAX_CONNECTIONS = 250"

fun accept :: "nat \<Rightarrow> 's option list \<Rightarrow> nat list \<times> (unit, 's) outcome option" where
  \<comment> \<open>from the backoff and the results of the coming calls of \<open>TcpListener::accept\<close>: the seconds slept,
    and the result, if the loop is finished\<close>
  "accept backoff [] = ([], None)"
| "accept backoff (Some socket # results) = ([], Some (Ok socket))"
| "accept backoff (None # results) =
     (if 64 < backoff then ([], Some (Err ()))
      else (case accept (backoff * 2) results of (slept, r) \<Rightarrow> (backoff # slept, r)))"

datatype listener_mode =
    Acquiring \<comment> \<open>waits for a permit\<close>
  | Accepting \<comment> \<open>holds a permit, inside \<open>accept\<close>\<close>
  | Draining \<comment> \<open>\<open>run\<close> waits for the handlers\<close>
  | Finished

record server =
  sv_permits :: nat
  sv_handlers :: nat
  sv_mode :: listener_mode
  sv_accept_failed :: bool
  sv_db_held :: bool

definition server_new :: server where
  "server_new = \<lparr>sv_permits = MAX_CONNECTIONS, sv_handlers = 0, sv_mode = Acquiring, sv_accept_failed = False,
     sv_db_held = True\<rparr>"

datatype 's server_event =
    PermitReady
  | Accepted "'s option list" \<comment> \<open>the results of the calls of \<open>accept\<close> so far\<close>
  | HandlerDone
  | ShutdownSignal
  | AllDone \<comment> \<open>\<open>shutdown_complete_rx\<close> is closed\<close>

definition held :: "server \<Rightarrow> nat" where
  \<comment> \<open>the permit in the hand of the loop\<close>
  "held s = (if sv_mode s = Accepting then 1 else 0)"

definition stop_accepting :: "server \<Rightarrow> server" where
  \<comment> \<open>the future of \<open>Listener::run\<close> is dropped, with the permit that it holds\<close>
  "stop_accepting s = s\<lparr>sv_permits := sv_permits s + held s, sv_mode := Draining\<rparr>"

definition server_step :: "'s server_event \<Rightarrow> server \<Rightarrow> server option" where
  \<comment> \<open>\<open>None\<close> where the event cannot happen\<close>
  "server_step ev s =
     (case ev of
        PermitReady \<Rightarrow>
          if sv_mode s = Acquiring \<and> 0 < sv_permits s
          then Some (s\<lparr>sv_permits := sv_permits s - 1, sv_mode := Accepting\<rparr>) else None
      | Accepted results \<Rightarrow>
          if sv_mode s = Accepting then
            (case snd (accept 1 results) of
               Some (Ok socket) \<Rightarrow> Some (s\<lparr>sv_handlers := sv_handlers s + 1, sv_mode := Acquiring\<rparr>)
             | Some _ \<Rightarrow> Some (stop_accepting s\<lparr>sv_accept_failed := True\<rparr>)
             | None \<Rightarrow> None)
          else None
      | HandlerDone \<Rightarrow>
          if 0 < sv_handlers s
          then Some (s\<lparr>sv_handlers := sv_handlers s - 1, sv_permits := sv_permits s + 1\<rparr>) else None
      | ShutdownSignal \<Rightarrow>
          if sv_mode s = Acquiring \<or> sv_mode s = Accepting then Some (stop_accepting s) else None
      | AllDone \<Rightarrow>
          if sv_mode s = Draining \<and> sv_handlers s = 0
          then Some (s\<lparr>sv_mode := Finished, sv_db_held := False\<rparr>) else None)"

fun server_run :: "'s server_event list \<Rightarrow> server \<Rightarrow> server option" where
  "server_run [] s = Some s"
| "server_run (ev # evs) s = (case server_step ev s of None \<Rightarrow> None | Some s' \<Rightarrow> server_run evs s')"

section \<open>Properties\<close>

inductive server_reach :: "server \<Rightarrow> bool" where
  reach_new: "server_reach server_new"
| reach_step: "server_reach s \<Longrightarrow> server_step (ev :: unit server_event) s = Some s' \<Longrightarrow> server_reach s'"

definition server_inv :: "server \<Rightarrow> bool" where
  "server_inv s \<longleftrightarrow> sv_permits s + sv_handlers s + held s = MAX_CONNECTIONS \<and>
     (sv_mode s = Finished \<longrightarrow> sv_handlers s = 0) \<and> (sv_db_held s \<longleftrightarrow> sv_mode s \<noteq> Finished)"

lemma server_step_inv: "server_inv s \<Longrightarrow> server_step ev s = Some s' \<Longrightarrow> server_inv s'"
  by (cases "sv_mode s") (auto simp: server_step_def server_inv_def held_def stop_accepting_def
      split: server_event.splits if_splits option.splits outcome.splits)

lemma server_reach_inv: "server_reach s \<Longrightarrow> server_inv s"
proof (induction rule: server_reach.induct)
  case reach_new
  then show ?case by (simp add: server_inv_def server_new_def held_def)
next
  case (reach_step s ev s')
  then show ?case by (blast intro: server_step_inv)
qed

text \<open>
  C34. The limit of connections.  In every reachable state of the server, free permits, running handlers
  and the permit of the accept loop add up to the limit, so there are never more handlers than it
  allows, a connection is accepted only below it, and the database is let go only when the server
  is finished and no handler runs.
\<close>

theorem redis_connection_limit:
  assumes "server_reach s"
  shows "sv_handlers s \<le> MAX_CONNECTIONS \<and> (sv_mode s = Accepting \<longrightarrow> sv_handlers s < MAX_CONNECTIONS) \<and>
    sv_permits s = MAX_CONNECTIONS - sv_handlers s - held s \<and> (\<not> sv_db_held s \<longrightarrow> sv_handlers s = 0)"
  using server_reach_inv [OF assms] by (auto simp: server_inv_def held_def split: if_splits)

theorem redis_connection_limit_witness:
  "\<exists>s. server_run [PermitReady, Accepted [None, Some ()], PermitReady, ShutdownSignal] server_new = Some s \<and>
    server_reach s \<and> sv_handlers s = 1 \<and> sv_permits s = 249"
proof -
  let ?s1 = "server_new\<lparr>sv_permits := 249, sv_mode := Accepting\<rparr>"
  let ?s2 = "?s1\<lparr>sv_handlers := 1, sv_mode := Acquiring\<rparr>"
  let ?s3 = "?s2\<lparr>sv_permits := 248, sv_mode := Accepting\<rparr>"
  let ?s4 = "?s3\<lparr>sv_permits := 249, sv_mode := Draining\<rparr>"
  have steps: "server_step (PermitReady :: unit server_event) server_new = Some ?s1"
    "server_step (Accepted [None, Some ()]) ?s1 = Some ?s2" "server_step (PermitReady :: unit server_event) ?s2 = Some ?s3"
    "server_step (ShutdownSignal :: unit server_event) ?s3 = Some ?s4"
    by (simp_all add: server_step_def server_new_def MAX_CONNECTIONS_def stop_accepting_def held_def)
  have "server_reach ?s4"
    by (rule reach_step [OF reach_step [OF reach_step [OF reach_step [OF reach_new steps(1)] steps(2)] steps(3)] steps(4)])
  with redis_connection_limit [OF this] steps show ?thesis
    by (simp add: MAX_CONNECTIONS_def held_def server_new_def)
qed

definition failures :: "'s option list \<Rightarrow> nat" where
  \<comment> \<open>the failed calls before the first that succeeds\<close>
  "failures results = length (takeWhile (\<lambda>r. r = None) results)"

lemma accept_backoff:
  "k \<le> 7 \<Longrightarrow> accept (2 ^ k) results =
     (map (\<lambda>i. 2 ^ i) [k..<k + min (7 - k) (failures results)],
      if 7 - k < failures results then Some (Err ())
      else if failures results < length results then map_option Ok (results ! failures results) else None)"
proof (induction results arbitrary: k)
  case Nil
  then show ?case by (simp add: failures_def)
next
  case (Cons r results)
  show ?case
  proof (cases r)
    case None
    show ?thesis
    proof (cases "k = 7")
      case True
      with None show ?thesis by (simp add: failures_def)
    next
      case False
      with Cons.prems have k: "k < 7" by simp
      then have "(2 :: nat) ^ k \<le> 2 ^ 6" by (intro power_increasing) auto
      then have b: "\<not> 64 < (2 :: nat) ^ k" by simp
      have f: "failures (r # results) = Suc (failures results)" using None by (simp add: failures_def)
      have m: "min (7 - k) (Suc n) = Suc (min (7 - Suc k) n)" for n using k by linarith
      have "accept (2 ^ k) (r # results) = (case accept (2 ^ Suc k) results of (slept, x) \<Rightarrow> (2 ^ k # slept, x))"
        using None b by (simp add: mult.commute)
      also have "\<dots> = (map (\<lambda>i. 2 ^ i) [k..<k + min (7 - k) (failures (r # results))],
          if 7 - k < failures (r # results) then Some (Err ())
          else if failures (r # results) < length (r # results) then map_option Ok ((r # results) ! failures (r # results))
          else None)"
        using Cons.IH [of "Suc k"] k unfolding f m by (cases "k = 6") (auto simp: upt_rec [of k] split: prod.splits)
      finally show ?thesis .
    qed
  next
    case (Some s)
    then show ?thesis by (simp add: failures_def)
  qed
qed

text \<open>
  The backoff.  Between failed calls of \<open>accept\<close> the server sleeps 1, 2, 4 and so on seconds, one
  sleep for each failure but at most seven, in all at most 127 seconds; it gives up exactly at the
  eighth failure in a row, and otherwise takes the first connection.
\<close>

theorem redis_accept_backoff:
  "accept 1 results =
     (map (\<lambda>i. 2 ^ i) [0..<min 7 (failures results)],
      if 7 < failures results then Some (Err ())
      else if failures results < length results then map_option Ok (results ! failures results) else None) \<and>
   sum_list (fst (accept 1 results)) \<le> 127"
proof
  show 1: "accept 1 results =
     (map (\<lambda>i. 2 ^ i) [0..<min 7 (failures results)],
      if 7 < failures results then Some (Err ())
      else if failures results < length results then map_option Ok (results ! failures results) else None)"
    using accept_backoff [of 0 results] by simp
  have "sum_list (map (\<lambda>i. 2 ^ i) [0..<n]) + 1 = (2 :: nat) ^ n" for n by (induction n) simp_all
  from this [of "min 7 (failures results)"]
  have "sum_list (map (\<lambda>i. 2 ^ i) [0..<min 7 (failures results)]) + 1 = (2 :: nat) ^ min 7 (failures results)" .
  moreover have "(2 :: nat) ^ min 7 (failures results) \<le> 2 ^ 7" by (rule power_increasing) simp_all
  ultimately show "sum_list (fst (accept 1 results)) \<le> 127" unfolding 1 fst_conv by simp
qed










end
