(* ===== verification/Wgetopt.thy ===== *)
theory Wgetopt
  imports Prelude "HOL-Library.Multiset"
begin

text \<open>
  The option parser of the fish shell (\<open>wgetopt.rs\<close>): the state of \<open>WGetopter\<close> and its operations,
  every index and slice with its panic. The wide string operations \<open>char_at\<close>, \<open>starts_with\<close> and
  \<open>find\<close> come from the module \<open>crate::wchar\<close>, which is not part of the repository: they are the
  record \<open>wchar\<close>, with their documented behaviour as \<open>wchar_laws\<close>. A string is a list of code
  points.
\<close>

section \<open>Wide strings\<close>

record wchar =
  char_at :: "ustring \<Rightarrow> nat \<Rightarrow> (unit, uchar) outcome"
  starts_with :: "ustring \<Rightarrow> ustring \<Rightarrow> bool"
  find_char :: "ustring \<Rightarrow> uchar \<Rightarrow> nat option"

definition wchar_laws :: "wchar \<Rightarrow> bool" where
  \<comment> \<open>\<open>char_at\<close> gives 0 at the end of the string and says nothing beyond it\<close>
  "wchar_laws W \<longleftrightarrow>
     (\<forall>s i. i < length s \<longrightarrow> char_at W s i = Ok (s ! i)) \<and>
     (\<forall>s. char_at W s (length s) = Ok 0) \<and>
     (\<forall>s t. starts_with W s t = prefix t s) \<and>
     (\<forall>s c. find_char W s c = (if c \<in> set s then Some (length (takeWhile (\<lambda>x. x \<noteq> c) s)) else None))"

definition slice_from :: "ustring \<Rightarrow> nat \<Rightarrow> (unit, ustring) outcome" where
  "slice_from s n = (if n \<le> length s then Ok (drop n s) else Panic)"

definition slice_until :: "ustring \<Rightarrow> nat \<Rightarrow> (unit, ustring) outcome" where
  "slice_until s n = (if n \<le> length s then Ok (take n s) else Panic)"

definition arg_at :: "ustring list \<Rightarrow> nat \<Rightarrow> (unit, ustring) outcome" where
  \<comment> \<open>\<open>argv[i]\<close>\<close>
  "arg_at xs i = (if i < length xs then Ok (xs ! i) else Panic)"

section \<open>State\<close>

definition NON_OPTION_CHAR :: uchar where
  "NON_OPTION_CHAR = 1"

datatype ordering = RequireOrder | Permute | ReturnInOrder

datatype arg_type = NoArgument | RequiredArgument | OptionalArgument

record woption =
  wo_name :: ustring
  wo_arg_type :: arg_type
  wo_val :: uchar

datatype long_opt_match =
    ExactMatch woption nat
  | NonExactMatch woption nat
  | AmbiguousMatch
  | NoMatch

datatype next_argv_result = Finished | UnpermutedNonOption | FoundOption

record wgetopter =
  argv :: "ustring list"
  woptarg :: "ustring option"
  shortopts :: ustring
  longopts :: "woption list"
  remaining_text :: ustring
  wopt_index :: nat
  unrecognized_opt :: uchar
  ordering :: ordering
  first_nonopt :: nat
  last_nonopt :: nat
  return_colon :: bool
  initialized :: bool

type_synonym 'a w_result = "(unit, 'a \<times> wgetopter) outcome"

definition wgetopter_new :: "ustring \<Rightarrow> woption list \<Rightarrow> ustring list \<Rightarrow> wgetopter" where
  "wgetopter_new short long args =
     \<lparr>argv = args, woptarg = None, shortopts = short, longopts = long, remaining_text = [],
      wopt_index = 0, unrecognized_opt = 63, ordering = Permute, first_nonopt = 0, last_nonopt = 0,
      return_colon = False, initialized = False\<rparr>"

section \<open>Operations\<close>

definition exchange :: "wgetopter \<Rightarrow> (unit, wgetopter) outcome" where
  \<comment> \<open>indexes out of order or out of range panic in the assertion, the slice or the rotation\<close>
  "exchange w =
     (let left = first_nonopt w; middle = last_nonopt w; right = wopt_index w in
      if left \<le> middle \<and> middle \<le> right \<and> right \<le> length (argv w) then
        Ok (w\<lparr>argv := take left (argv w) @ rotate (middle - left) (take (right - left) (drop left (argv w)))
                        @ drop right (argv w),
              first_nonopt := first_nonopt w + (wopt_index w - last_nonopt w),
              last_nonopt := wopt_index w\<rparr>)
      else Panic)"

definition initialize :: "wchar \<Rightarrow> wgetopter \<Rightarrow> (unit, wgetopter) outcome" where
  "initialize W w0 =
     (let w = w0\<lparr>first_nonopt := 1, last_nonopt := 1, wopt_index := 1, remaining_text := []\<rparr>;
          optstring = shortopts w
      in obind (char_at W optstring 0) (\<lambda>c.
         obind (if c = 45 then obind (slice_from optstring 1) (\<lambda>s. Ok (ReturnInOrder, s))
                else if c = 43 then obind (slice_from optstring 1) (\<lambda>s. Ok (RequireOrder, s))
                else Ok (Permute, optstring)) (\<lambda>(ord, optstring).
         obind (char_at W optstring 0) (\<lambda>c.
         obind (if c = 58 then obind (slice_from optstring 1) (\<lambda>s. Ok (True, s))
                else Ok (return_colon w, optstring)) (\<lambda>(colon, optstring).
           Ok (w\<lparr>ordering := ord, return_colon := colon, shortopts := optstring,
                 initialized := True\<rparr>))))))"

definition is_nonoption :: "wchar \<Rightarrow> ustring \<Rightarrow> (unit, bool) outcome" where
  "is_nonoption W arg = obind (char_at W arg 0) (\<lambda>c. Ok (c \<noteq> 45 \<or> length arg = 1))"

fun skip_nonoptions :: "wchar \<Rightarrow> ustring list \<Rightarrow> nat \<Rightarrow> (unit, nat) outcome" where
  \<comment> \<open>the \<open>while\<close> loop over the arguments from the index on\<close>
  "skip_nonoptions W [] i = Ok i"
| "skip_nonoptions W (arg # args) i =
     obind (is_nonoption W arg) (\<lambda>b. if b then skip_nonoptions W args (Suc i) else Ok i)"

definition permute_args :: "wchar \<Rightarrow> wgetopter \<Rightarrow> (unit, wgetopter) outcome" where
  \<comment> \<open>the first part of \<open>next_argv\<close>\<close>
  "permute_args W w =
     (if ordering w = Permute then
        obind (if last_nonopt w \<noteq> wopt_index w then
                 (if first_nonopt w = last_nonopt w then Ok (w\<lparr>first_nonopt := wopt_index w\<rparr>)
                  else exchange w)
               else Ok w) (\<lambda>w.
        obind (skip_nonoptions W (drop (wopt_index w) (argv w)) (wopt_index w)) (\<lambda>i.
          Ok (w\<lparr>wopt_index := i, last_nonopt := i\<rparr>)))
      else Ok w)"

definition skip_double_dash :: "wgetopter \<Rightarrow> (unit, wgetopter) outcome" where
  \<comment> \<open>the \<open>--\<close> element ends the options\<close>
  "skip_double_dash w =
     (let argc = length (argv w) in
      if wopt_index w = argc then Ok w
      else obind (arg_at (argv w) (wopt_index w)) (\<lambda>arg.
        if arg = [45, 45] then
          (let w = w\<lparr>wopt_index := wopt_index w + 1\<rparr> in
           obind (if first_nonopt w = last_nonopt w then Ok (w\<lparr>first_nonopt := wopt_index w\<rparr>)
                  else if last_nonopt w \<noteq> wopt_index w then exchange w
                  else Ok w) (\<lambda>w.
             Ok (w\<lparr>last_nonopt := argc, wopt_index := argc\<rparr>)))
        else Ok w))"

definition next_argv :: "wchar \<Rightarrow> wgetopter \<Rightarrow> next_argv_result w_result" where
  "next_argv W w =
     obind (permute_args W w) (\<lambda>w.
     obind (skip_double_dash w) (\<lambda>w.
       if wopt_index w = length (argv w) then
         Ok (Finished,
             if first_nonopt w \<noteq> last_nonopt w then w\<lparr>wopt_index := first_nonopt w\<rparr> else w)
       else
         obind (arg_at (argv w) (wopt_index w)) (\<lambda>arg.
         obind (is_nonoption W arg) (\<lambda>nonopt.
           if nonopt then
             (if ordering w = RequireOrder then Ok (Finished, w)
              else Ok (UnpermutedNonOption, w\<lparr>woptarg := Some arg, wopt_index := wopt_index w + 1\<rparr>))
           else
             obind (if longopts w \<noteq> [] then obind (char_at W arg 1) (\<lambda>c. Ok (if c = 45 then 2 else 1))
                    else Ok 1) (\<lambda>skip.
             obind (slice_from arg skip) (\<lambda>text.
               Ok (FoundOption, w\<lparr>remaining_text := text\<rparr>)))))))"

definition shortopt_tail :: "ustring \<Rightarrow> uchar \<Rightarrow> ustring" where
  \<comment> \<open>the option string from the first occurrence of the option on; empty if there is none\<close>
  "shortopt_tail opts c = dropWhile (\<lambda>sc. sc \<noteq> c) opts"

definition take_short_arg :: "wchar \<Rightarrow> uchar \<Rightarrow> ustring \<Rightarrow> wgetopter \<Rightarrow> uchar w_result" where
  \<comment> \<open>the argument of a short option that may have one\<close>
  "take_short_arg W c temp w =
     obind (char_at W temp 2) (\<lambda>c2.
     obind
       (if c2 = 58 then
          (if remaining_text w \<noteq> []
           then Ok (c, w\<lparr>woptarg := Some (remaining_text w), wopt_index := wopt_index w + 1\<rparr>)
           else Ok (c, w\<lparr>woptarg := None\<rparr>))
        else if remaining_text w \<noteq> []
        then Ok (c, w\<lparr>woptarg := Some (remaining_text w), wopt_index := wopt_index w + 1\<rparr>)
        else if wopt_index w = length (argv w)
        then Ok (if return_colon w then 58 else 63, w\<lparr>unrecognized_opt := c\<rparr>)
        else obind (arg_at (argv w) (wopt_index w)) (\<lambda>arg.
               Ok (c, w\<lparr>woptarg := Some arg, wopt_index := wopt_index w + 1\<rparr>)))
       (\<lambda>(c, w). Ok (c, w\<lparr>remaining_text := []\<rparr>)))"

definition handle_short_opt :: "wchar \<Rightarrow> wgetopter \<Rightarrow> uchar w_result" where
  "handle_short_opt W w =
     obind (char_at W (remaining_text w) 0) (\<lambda>c.
     obind (slice_from (remaining_text w) 1) (\<lambda>text.
       let w = w\<lparr>remaining_text := text\<rparr>;
           temp = shortopt_tail (shortopts w) c;
           w = (if text = [] then w\<lparr>wopt_index := wopt_index w + 1\<rparr> else w)
       in if temp = [] \<or> c = 58 then
            (let w = w\<lparr>unrecognized_opt := c\<rparr> in
             Ok (63, if text \<noteq> [] then w\<lparr>wopt_index := wopt_index w + 1\<rparr> else w))
          else obind (char_at W temp 1) (\<lambda>c1.
                 if c1 \<noteq> 58 then Ok (c, w) else take_short_arg W c temp w)))"

definition update_long_opt ::
  "wchar \<Rightarrow> woption \<Rightarrow> nat \<Rightarrow> nat \<Rightarrow> nat \<Rightarrow> wgetopter \<Rightarrow> (uchar \<times> nat) w_result" where
  \<comment> \<open>the result also holds the value of \<open>longopt_index\<close>\<close>
  "update_long_opt W opt name_end longopt_index option_index w0 =
     (let w = w0\<lparr>wopt_index := wopt_index w0 + 1\<rparr> in
      obind (char_at W (remaining_text w) name_end) (\<lambda>c.
        if c \<noteq> 0 \<and> c \<noteq> 61 then Panic
        else if c = 61 then
          (if wo_arg_type opt = NoArgument
           then Ok ((63, longopt_index), w\<lparr>remaining_text := []\<rparr>)
           else obind (slice_from (remaining_text w) (name_end + 1)) (\<lambda>arg.
             Ok ((wo_val opt, option_index), w\<lparr>woptarg := Some arg, remaining_text := []\<rparr>)))
        else if wo_arg_type opt = RequiredArgument then
          (if wopt_index w < length (argv w)
           then obind (arg_at (argv w) (wopt_index w)) (\<lambda>arg.
             Ok ((wo_val opt, option_index),
                 w\<lparr>woptarg := Some arg, wopt_index := wopt_index w + 1, remaining_text := []\<rparr>))
           else Ok ((if return_colon w then 58 else 63, longopt_index), w\<lparr>remaining_text := []\<rparr>))
        else Ok ((wo_val opt, option_index), w\<lparr>remaining_text := []\<rparr>)))"

fun match_long_opts ::
  "wchar \<Rightarrow> ustring \<Rightarrow> woption list \<Rightarrow> nat \<Rightarrow> (woption \<times> nat) option \<Rightarrow> bool \<Rightarrow> long_opt_match" where
  \<comment> \<open>the loop over the long options from index \<open>i\<close> on, with \<open>opt\<close>/\<open>index\<close> and \<open>ambiguous\<close>\<close>
  "match_long_opts W name [] i found ambiguous =
     (case found of
        None \<Rightarrow> NoMatch
      | Some (opt, index) \<Rightarrow> if ambiguous then AmbiguousMatch else NonExactMatch opt index)"
| "match_long_opts W name (opt # opts) i found ambiguous =
     (if starts_with W (wo_name opt) name then
        (if length name = length (wo_name opt) then ExactMatch opt i
         else (case found of
                 None \<Rightarrow> match_long_opts W name opts (Suc i) (Some (opt, i)) ambiguous
               | Some f \<Rightarrow> match_long_opts W name opts (Suc i) (Some f) True))
      else match_long_opts W name opts (Suc i) found ambiguous)"

definition find_matching_long_opt :: "wchar \<Rightarrow> nat \<Rightarrow> wgetopter \<Rightarrow> (unit, long_opt_match) outcome" where
  "find_matching_long_opt W name_end w =
     (if longopts w = [] then Ok NoMatch
      else obind (slice_until (remaining_text w) name_end) (\<lambda>name.
             Ok (match_long_opts W name (longopts w) 0 None False)))"

definition handle_long_opt :: "wchar \<Rightarrow> nat \<Rightarrow> wgetopter \<Rightarrow> (uchar option \<times> nat) w_result" where
  "handle_long_opt W longopt_index w =
     (let name_end = (case find_char W (remaining_text w) 61 of
                        Some index \<Rightarrow> index | None \<Rightarrow> length (remaining_text w)) in
      obind (find_matching_long_opt W name_end w) (\<lambda>m.
        let long = (\<lambda>opt index.
              obind (update_long_opt W opt name_end longopt_index index w)
                (\<lambda>((c, li), w). Ok ((Some c, li), w)));
            unknown = Ok ((Some 63, longopt_index),
                          w\<lparr>remaining_text := [], wopt_index := wopt_index w + 1\<rparr>)
        in case m of
             ExactMatch opt index \<Rightarrow> long opt index
           | NonExactMatch opt index \<Rightarrow> long opt index
           | AmbiguousMatch \<Rightarrow> unknown
           | NoMatch \<Rightarrow>
               obind (arg_at (argv w) (wopt_index w)) (\<lambda>arg.
               obind (char_at W arg 1) (\<lambda>c1.
                 if c1 = 45 then unknown
                 else obind (char_at W (remaining_text w) 0) (\<lambda>c.
                   if c \<notin> set (shortopts w) then unknown
                   else Ok ((None, longopt_index), w))))))"

definition tries_long :: "wchar \<Rightarrow> wgetopter \<Rightarrow> (unit, bool) outcome" where
  \<comment> \<open>whether the element is read as a long option first\<close>
  "tries_long W w =
     (if longopts w \<noteq> [] \<and> wopt_index w < length (argv w) then
        obind (arg_at (argv w) (wopt_index w)) (\<lambda>arg.
        obind (char_at W arg 0) (\<lambda>c0.
        obind (if c0 = 45 then obind (char_at W arg 1) (\<lambda>c1. Ok (c1 = 45)) else Ok False) (\<lambda>dashes.
          if dashes then Ok True
          else obind (char_at W arg 1) (\<lambda>c1. Ok (c1 \<notin> set (shortopts w))))))
      else Ok False)"

definition parse_element :: "wchar \<Rightarrow> nat \<Rightarrow> wgetopter \<Rightarrow> (uchar option \<times> nat) w_result" where
  \<comment> \<open>the end of \<open>wgetopt_inner\<close>: the next option of the current element\<close>
  "parse_element W longopt_index w =
     (let short = obind (handle_short_opt W w) (\<lambda>(c, w). Ok ((Some c, longopt_index), w)) in
      obind (tries_long W w) (\<lambda>try_long.
        if try_long then
          obind (handle_long_opt W longopt_index w) (\<lambda>((retval, li), w').
            case retval of Some c \<Rightarrow> Ok ((Some c, li), w') | None \<Rightarrow> short)
        else short))"

definition wgetopt_inner :: "wchar \<Rightarrow> nat \<Rightarrow> wgetopter \<Rightarrow> (uchar option \<times> nat) w_result" where
  "wgetopt_inner W longopt_index w =
     obind (if initialized w then Ok w else initialize W w) (\<lambda>w.
       let w = w\<lparr>woptarg := None\<rparr> in
       if remaining_text w = [] then
         obind (next_argv W w) (\<lambda>(r, w).
           case r of
             UnpermutedNonOption \<Rightarrow> Ok ((Some NON_OPTION_CHAR, longopt_index), w)
           | Finished \<Rightarrow> Ok ((None, longopt_index), w)
           | FoundOption \<Rightarrow> parse_element W longopt_index w)
       else parse_element W longopt_index w)"

definition next_opt :: "wchar \<Rightarrow> wgetopter \<Rightarrow> uchar option w_result" where
  "next_opt W w =
     (if length (argv w) < wopt_index w then Panic
      else obind (wgetopt_inner W 0 w) (\<lambda>((c, _), w). Ok (c, w)))"

definition next_opt_indexed :: "wchar \<Rightarrow> wgetopter \<Rightarrow> (uchar \<times> nat option) option w_result" where
  \<comment> \<open>\<open>usize::MAX\<close> stands for no index\<close>
  "next_opt_indexed W w =
     obind (wgetopt_inner W (usize_limit - 1) w) (\<lambda>((c, li), w).
       Ok (map_option (\<lambda>c. (c, if li \<noteq> usize_limit - 1 then Some li else None)) c, w))"

end
