(* ===== verification/Wgetopt_Safe.thy ===== *)
theory Wgetopt_Safe
  imports Wgetopt_Scan
begin

text \<open>
  When the scan of \<open>wgetopt.rs\<close> makes progress and when it panics: every call of \<open>next_opt\<close>
  from a state with its indexes in order returns, and each one that yields an option leaves
  less of the arguments to read.  The one way into a panic is an unrecognized short option
  with text after it.
\<close>

section \<open>Progress and absence of panics\<close>

definition text_ok :: "wgetopter \<Rightarrow> bool" where
  \<comment> \<open>unread text belongs to the current element, which is longer than a lone dash\<close>
  "text_ok w \<longleftrightarrow> (remaining_text w \<noteq> [] \<longrightarrow>
     initialized w \<and> wopt_index w < length (argv w) \<and> 2 \<le> length (argv w ! wopt_index w))"

definition scan_good :: "ustring list \<Rightarrow> wgetopter \<Rightarrow> bool" where
  "scan_good args w \<longleftrightarrow> scan_inv args w \<and> wopt_index w \<le> length (argv w) \<and>
     (initialized w \<or> wopt_index w = 0) \<and> text_ok w"

definition left_over :: "wgetopter \<Rightarrow> nat" where
  "left_over w = length (remaining_text w) +
     sum_list (map (\<lambda>a. Suc (length a))
       (drop (if remaining_text w = [] then wopt_index w else Suc (wopt_index w)) (argv w)))"

lemma char_at_total:
  "wchar_laws W \<Longrightarrow> i \<le> length s \<Longrightarrow> char_at W s i = Ok (if i < length s then s ! i else 0)"
  by (cases "i = length s") (auto simp: wchar_laws_def)

lemma is_nonoption_total:
  "wchar_laws W \<Longrightarrow> is_nonoption W a = Ok ((if a \<noteq> [] then a ! 0 else 0) \<noteq> 45 \<or> length a = 1)"
  by (cases a) (simp_all add: is_nonoption_def char_at_total)

lemma skip_nonoptions_total: "wchar_laws W \<Longrightarrow> \<exists>j. skip_nonoptions W as i = Ok j"
  by (induction as arbitrary: i) (auto simp: is_nonoption_total)

lemma initialize_total:
  assumes "wchar_laws W"
  shows "\<exists>w'. initialize W w = Ok w'"
proof -
  have c: "char_at W s 0 = Ok (if s \<noteq> [] then s ! 0 else 0)" for s
    using char_at_total [OF assms, of 0 s] by auto
  have sl: "\<exists>t. slice_from s (Suc 0) = Ok t" if "s \<noteq> []" for s
    using that by (cases s) (simp_all add: slice_from_def)
  have sc: "slice_from (a # s) (Suc 0) = Ok s" for a s by (simp add: slice_from_def)
  show ?thesis
    by (cases "shortopts w") (auto simp: initialize_def Let_def c sc dest: sl)
qed

lemma exchange_total:
  "first_nonopt w \<le> last_nonopt w \<Longrightarrow> last_nonopt w \<le> wopt_index w \<Longrightarrow>
     wopt_index w \<le> length (argv w) \<Longrightarrow> \<exists>w'. exchange w = Ok w'"
  by (simp add: exchange_def Let_def)

lemma shortopt_tail_hd: "shortopt_tail opts c \<noteq> [] \<Longrightarrow> \<exists>s. shortopt_tail opts c = c # s"
  unfolding shortopt_tail_def
  by (metis (mono_tags, lifting) dropWhile_eq_Cons_conv list.exhaust)

lemma take_short_arg_total:
  assumes "wchar_laws W" "2 \<le> length temp" "wopt_index w \<le> length (argv w)"
  shows "\<exists>c' w'. take_short_arg W c temp w = Ok (c', w') \<and> moved w w' \<and> remaining_text w' = [] \<and>
    (remaining_text w = [] \<longrightarrow> wopt_index w' \<le> length (argv w)) \<and>
    (remaining_text w \<noteq> [] \<longrightarrow> wopt_index w' = wopt_index w + 1)"
proof -
  have "\<exists>a. arg_at (argv w) (wopt_index w) = Ok a" if "wopt_index w \<noteq> length (argv w)"
    using that assms(3) by (simp add: arg_at_def)
  then show ?thesis
    using assms char_at_total [OF assms(1,2)]
    by (auto simp: take_short_arg_def moved_def)
qed

lemma handle_short_opt_total:
  assumes "wchar_laws W" "remaining_text w = c0 # rest" "wopt_index w < length (argv w)"
  shows "\<exists>c w'. handle_short_opt W w = Ok (c, w') \<and>
    length (remaining_text w') < length (remaining_text w) \<and>
    (remaining_text w' = [] \<longrightarrow> wopt_index w < wopt_index w' \<and> wopt_index w' \<le> length (argv w)) \<and>
    (remaining_text w' \<noteq> [] \<longrightarrow> c = 63 \<or> wopt_index w' = wopt_index w)"
proof -
  let ?v = "if rest = [] then w\<lparr>remaining_text := rest, wopt_index := wopt_index w + 1\<rparr>
      else w\<lparr>remaining_text := rest\<rparr>"
  let ?temp = "shortopt_tail (shortopts w) c0"
  have r: "char_at W (remaining_text w) 0 = Ok c0" "slice_from (remaining_text w) 1 = Ok rest"
    using assms(2) char_at_total [OF assms(1), of 0 "remaining_text w"]
    by (simp_all add: slice_from_def)
  have eq: "handle_short_opt W w =
      (if ?temp = [] \<or> c0 = 58 then
         Ok (63, if rest \<noteq> [] then ?v\<lparr>unrecognized_opt := c0, wopt_index := wopt_index ?v + 1\<rparr>
                 else ?v\<lparr>unrecognized_opt := c0\<rparr>)
       else obind (char_at W ?temp 1) (\<lambda>c1.
              if c1 \<noteq> 58 then Ok (c0, ?v) else take_short_arg W c0 ?temp ?v))"
    using r by (cases "rest = []") (simp_all add: handle_short_opt_def Let_def cong: if_cong)
  show ?thesis
  proof (cases "?temp = [] \<or> c0 = 58")
    case True
    then show ?thesis unfolding eq if_P [OF True] using assms(2,3) by auto
  next
    case False
    then have one: "1 \<le> length ?temp" by (cases ?temp) auto
    show ?thesis
    proof (cases "1 < length ?temp \<and> ?temp ! 1 = 58")
      case no: False
      then show ?thesis unfolding eq if_not_P [OF False] char_at_total [OF assms(1) one]
        using assms(2,3) by auto
    next
      case True
      have "wopt_index ?v \<le> length (argv ?v)" using assms(3) by auto
      from take_short_arg_total [OF assms(1) _ this, of ?temp c0] True show ?thesis
        unfolding eq if_not_P [OF False] char_at_total [OF assms(1) one]
        using assms(2,3) by (cases "rest = []") (auto simp: moved_def)
    qed
  qed
qed

lemma update_long_opt_total:
  assumes "wchar_laws W" "e \<le> length (remaining_text w)"
    and "e < length (remaining_text w) \<Longrightarrow> remaining_text w ! e = 61"
    and "wopt_index w < length (argv w)"
  shows "\<exists>c li' w'. update_long_opt W opt e li i w = Ok ((c, li'), w') \<and> remaining_text w' = [] \<and>
    wopt_index w < wopt_index w' \<and> wopt_index w' \<le> length (argv w)"
proof (cases "e < length (remaining_text w)")
  case True
  with assms have "char_at W (remaining_text w) e = Ok 61" by (simp add: char_at_total)
  with True assms(4) show ?thesis by (simp add: update_long_opt_def Let_def slice_from_def)
next
  case False
  with assms(2) char_at_total [OF assms(1,2)] have "char_at W (remaining_text w) e = Ok 0" by simp
  with assms(4) show ?thesis by (auto simp: update_long_opt_def Let_def arg_at_def)
qed

lemma handle_long_opt_total:
  assumes "wchar_laws W" "remaining_text w \<noteq> []" "wopt_index w < length (argv w)"
    and "2 \<le> length (argv w ! wopt_index w)"
  shows "handle_long_opt W li w = Ok ((None, li), w) \<or>
    (\<exists>c li' w'. handle_long_opt W li w = Ok ((Some c, li'), w') \<and> remaining_text w' = [] \<and>
      wopt_index w < wopt_index w' \<and> wopt_index w' \<le> length (argv w))"
proof -
  define e where "e = (case find_char W (remaining_text w) 61 of
      Some index \<Rightarrow> index | None \<Rightarrow> length (remaining_text w))"
  have e: "e \<le> length (remaining_text w)" "e < length (remaining_text w) \<Longrightarrow> remaining_text w ! e = 61"
  proof -
    have "e = length (takeWhile (\<lambda>x. x \<noteq> 61) (remaining_text w))"
    proof (cases "61 \<in> set (remaining_text w)")
      case True
      with assms(1) show ?thesis by (simp add: e_def wchar_laws_def)
    next
      case False
      then have "takeWhile (\<lambda>x. x \<noteq> 61) (remaining_text w) = remaining_text w"
        by (auto simp: takeWhile_eq_all_conv)
      with False assms(1) show ?thesis
        by (simp add: e_def wchar_laws_def del: takeWhile_eq_all_conv)
    qed
    then show "e \<le> length (remaining_text w)"
      "e < length (remaining_text w) \<Longrightarrow> remaining_text w ! e = 61"
      using nth_length_takeWhile [of "\<lambda>x. x \<noteq> 61" "remaining_text w"]
      by (auto simp: length_takeWhile_le)
  qed
  obtain m where m: "find_matching_long_opt W e w = Ok m"
    using e(1) by (cases "longopts w = []") (auto simp: find_matching_long_opt_def slice_until_def)
  have a: "arg_at (argv w) (wopt_index w) = Ok (argv w ! wopt_index w)"
    using assms(3) by (simp add: arg_at_def)
  have c1: "\<exists>c. char_at W (argv w ! wopt_index w) 1 = Ok c"
    using char_at_total [OF assms(1), of 1] assms(4) by simp
  have c0: "\<exists>c. char_at W (remaining_text w) 0 = Ok c"
    using char_at_total [OF assms(1), of 0] by simp
  note up = update_long_opt_total [OF assms(1) e(1) e(2) assms(3)]
  show ?thesis
  proof (cases m)
    case (ExactMatch opt i)
    with m up [of opt li i] show ?thesis
      by (auto simp: handle_long_opt_def Let_def simp flip: e_def)
  next
    case (NonExactMatch opt i)
    with m up [of opt li i] show ?thesis
      by (auto simp: handle_long_opt_def Let_def simp flip: e_def)
  next
    case AmbiguousMatch
    with m assms(3) show ?thesis by (auto simp: handle_long_opt_def Let_def simp flip: e_def)
  next
    case NoMatch
    from c0 c1 obtain x y where xy: "char_at W (argv w ! wopt_index w) 1 = Ok x"
      "char_at W (remaining_text w) 0 = Ok y" by blast
    have "handle_long_opt W li w =
      (if x = 45 \<or> y \<notin> set (shortopts w)
       then Ok ((Some 63, li), w\<lparr>remaining_text := [], wopt_index := wopt_index w + 1\<rparr>)
       else Ok ((None, li), w))"
      using m a xy NoMatch by (simp add: handle_long_opt_def Let_def flip: e_def)
    with assms(3) show ?thesis by auto
  qed
qed

lemma tries_long_total:
  assumes "wchar_laws W" "wopt_index w < length (argv w)" "2 \<le> length (argv w ! wopt_index w)"
  shows "\<exists>b. tries_long W w = Ok b"
proof -
  have "\<exists>x. char_at W (argv w ! wopt_index w) 0 = Ok x"
    using char_at_total [OF assms(1), of 0] by simp
  moreover have "\<exists>x. char_at W (argv w ! wopt_index w) 1 = Ok x"
    using char_at_total [OF assms(1), of 1] assms(3) by simp
  ultimately show ?thesis using assms(2) by (auto simp: tries_long_def arg_at_def)
qed

lemma parse_element_total:
  assumes "wchar_laws W" "remaining_text w \<noteq> []" "wopt_index w < length (argv w)"
    and "2 \<le> length (argv w ! wopt_index w)"
  shows "\<exists>c li' w'. parse_element W li w = Ok ((Some c, li'), w') \<and> moved w w' \<and>
    length (remaining_text w') < length (remaining_text w) \<and>
    (remaining_text w' = [] \<longrightarrow> wopt_index w < wopt_index w' \<and> wopt_index w' \<le> length (argv w)) \<and>
    (remaining_text w' \<noteq> [] \<longrightarrow> c = 63 \<or> wopt_index w' = wopt_index w)"
proof -
  obtain b where b: "tries_long W w = Ok b" using tries_long_total [OF assms(1,3,4)] by blast
  obtain c0 rest where rt: "remaining_text w = c0 # rest" using assms(2) by (cases "remaining_text w") auto
  from handle_short_opt_total [OF assms(1) rt assms(3)] obtain c w' where
    s: "handle_short_opt W w = Ok (c, w')" and
    sp: "length (remaining_text w') < length (remaining_text w)"
      "remaining_text w' = [] \<longrightarrow> wopt_index w < wopt_index w' \<and> wopt_index w' \<le> length (argv w)"
      "remaining_text w' \<noteq> [] \<longrightarrow> c = 63 \<or> wopt_index w' = wopt_index w" by blast
  have ms: "moved w w'" using handle_short_opt_moved [OF s] .
  show ?thesis
  proof (cases b)
    case False
    with b s sp ms show ?thesis by (simp add: parse_element_def Let_def)
  next
    case True
    from handle_long_opt_total [OF assms, of li] show ?thesis
    proof
      assume "handle_long_opt W li w = Ok ((None, li), w)"
      with True b s sp ms show ?thesis by (simp add: parse_element_def Let_def)
    next
      assume "\<exists>c li' w'. handle_long_opt W li w = Ok ((Some c, li'), w') \<and> remaining_text w' = [] \<and>
        wopt_index w < wopt_index w' \<and> wopt_index w' \<le> length (argv w)"
      then obtain c li' v where v: "handle_long_opt W li w = Ok ((Some c, li'), v)"
        "remaining_text v = []" "wopt_index w < wopt_index v" "wopt_index v \<le> length (argv w)" by blast
      from handle_long_opt_moved [OF v(1)] v True b assms(2) show ?thesis
        by (simp add: parse_element_def Let_def)
    qed
  qed
qed

lemma permute_args_total:
  assumes "wchar_laws W" "regions_of args w" "wopt_index w \<le> length (argv w)"
  shows "\<exists>w'. permute_args W w = Ok w'"
proof -
  have "\<exists>w'. exchange w = Ok w'"
    using assms(2,3) by (intro exchange_total) (auto simp: regions_def)
  then obtain v where v: "(if last_nonopt w \<noteq> wopt_index w then
      (if first_nonopt w = last_nonopt w then Ok (w\<lparr>first_nonopt := wopt_index w\<rparr>) else exchange w)
      else Ok w) = Ok v" by fastforce
  obtain j where "skip_nonoptions W (drop (wopt_index v) (argv v)) (wopt_index v) = Ok j"
    using skip_nonoptions_total [OF assms(1)] by blast
  with v show ?thesis by (simp add: permute_args_def)
qed

lemma skip_double_dash_total:
  assumes "regions_of args w" "wopt_index w \<le> length (argv w)"
  shows "\<exists>w'. skip_double_dash w = Ok w'"
proof (cases "wopt_index w = length (argv w)")
  case False
  have "\<exists>w'. exchange (w\<lparr>wopt_index := wopt_index w + 1\<rparr>) = Ok w'"
    using assms False by (intro exchange_total) (auto simp: regions_def)
  with False assms(2) show ?thesis by (auto simp: skip_double_dash_def Let_def arg_at_def)
qed (simp add: skip_double_dash_def)

definition unread :: "wgetopter \<Rightarrow> nat" where
  "unread w = sum_list (map (\<lambda>a. Suc (length a)) (drop (wopt_index w) (argv w)))"

lemma unread_Suc:
  "wopt_index w < length (argv w) \<Longrightarrow> unread w = Suc (length (argv w ! wopt_index w)) +
     sum_list (map (\<lambda>a. Suc (length a)) (drop (Suc (wopt_index w)) (argv w)))"
  by (simp add: unread_def flip: Cons_nth_drop_Suc)

lemma sum_drop_mono:
  fixes f :: "'a \<Rightarrow> nat"
  assumes "i \<le> j"
  shows "sum_list (map f (drop j xs)) \<le> sum_list (map f (drop i xs))"
proof -
  have "drop j xs = drop (j - i) (drop i xs)" using assms by simp
  then show ?thesis
    by (metis append_take_drop_id le_add2 map_append sum_list_append)
qed

lemma parse_element_progress:
  assumes "moved w w'" "length (remaining_text w') < length (remaining_text w)"
    "remaining_text w' = [] \<longrightarrow> wopt_index w < wopt_index w'"
  shows "left_over w' < left_over w"
proof -
  let ?f = "\<lambda>a. Suc (length a)"
  let ?i = "\<lambda>w. if remaining_text w = [] then wopt_index w else Suc (wopt_index w)"
  have "remaining_text w \<noteq> []" using assms(2) by auto
  then have "?i w \<le> ?i w'" using assms(1,3) by (auto simp: moved_def)
  then have "sum_list (map ?f (drop (?i w') (argv w))) \<le> sum_list (map ?f (drop (?i w) (argv w)))"
    by (rule sum_drop_mono)
  with assms(1,2) show ?thesis by (simp add: left_over_def moved_def)
qed

lemma take_element_total:
  assumes "wchar_laws W" "wopt_index w < length (argv w)" "argv w ! wopt_index w \<noteq> [45, 45]"
    and "remaining_text w = []"
  shows "\<exists>r w'. take_element W w = Ok (r, w') \<and>
    (r = UnpermutedNonOption \<longrightarrow> moved w w' \<and> remaining_text w' = [] \<and> left_over w' < left_over w \<and>
      wopt_index w' \<le> length (argv w)) \<and>
    (r = FoundOption \<longrightarrow> moved w w' \<and> wopt_index w' = wopt_index w \<and> remaining_text w' \<noteq> [] \<and>
      2 \<le> length (argv w ! wopt_index w) \<and> left_over w' < left_over w)"
proof -
  let ?arg = "argv w ! wopt_index w"
  let ?nonopt = "(if ?arg \<noteq> [] then ?arg ! 0 else 0) \<noteq> 45 \<or> length ?arg = 1"
  have a: "arg_at (argv w) (wopt_index w) = Ok ?arg" using assms(2) by (simp add: arg_at_def)
  have n: "is_nonoption W ?arg = Ok ?nonopt" using is_nonoption_total [OF assms(1)] .
  have lo: "left_over w = unread w" using assms(4) by (simp add: left_over_def unread_def)
  note us = unread_Suc [OF assms(2)]
  show ?thesis
  proof (cases ?nonopt)
    case True
    then show ?thesis
      unfolding take_element_def a n obind.simps if_P [OF True]
      using assms(2,4) lo us by (auto simp: moved_def left_over_def)
  next
    case False
    then obtain x y rest where arg: "?arg = x # y # rest"
      by (cases ?arg; cases "tl ?arg") (auto split: if_splits)
    have x: "x = 45" using False arg by simp
    have c1: "char_at W ?arg 1 = Ok y"
      using char_at_total [OF assms(1), of 1 ?arg] arg by simp
    define k :: nat where "k = (if longopts w \<noteq> [] \<and> y = 45 then 2 else 1)"
    have sl: "slice_from ?arg k = Ok (drop k ?arg)" using arg by (simp add: slice_from_def k_def)
    have "drop k ?arg \<noteq> []" "length (drop k ?arg) \<le> length ?arg - 1"
      using arg x assms(3) by (auto simp: k_def)
    moreover have "take_element W w = Ok (FoundOption, w\<lparr>remaining_text := drop k ?arg\<rparr>)"
      unfolding take_element_def a n obind.simps if_not_P [OF False] c1
      using sl by (cases "longopts w = []"; cases "y = 45") (simp_all add: k_def)
    ultimately show ?thesis
      using lo us arg by (simp add: moved_def left_over_def)
  qed
qed

lemma next_argv_total:
  assumes W: "wchar_laws W" and w: "regions_of args w" "order_ok w" "wopt_index w \<le> length (argv w)"
    and t: "remaining_text w = []"
  shows "\<exists>r w'. next_argv W w = Ok (r, w') \<and> (r \<noteq> Finished \<longrightarrow> wopt_index w' \<le> length (argv w')) \<and>
    (r = UnpermutedNonOption \<longrightarrow> remaining_text w' = [] \<and> left_over w' < left_over w) \<and>
    (r = FoundOption \<longrightarrow> remaining_text w' \<noteq> [] \<and> wopt_index w' < length (argv w') \<and>
      2 \<le> length (argv w' ! wopt_index w') \<and> left_over w' < left_over w)"
proof -
  obtain v where pv: "permute_args W w = Ok v" using permute_args_total [OF W w(1,3)] by blast
  note v = permute_args_Ok [OF pv w]
  obtain u where su: "skip_double_dash v = Ok u"
    using skip_double_dash_total [of args v] v by blast
  note eq = next_argv_eq [OF pv su]
  have le: "left_over v \<le> left_over w"
  proof -
    have "drop (wopt_index v) (argv v) = drop (wopt_index v - wopt_index w) (drop (wopt_index w) (argv w))"
      using v by (metis drop_drop le_add_diff_inverse2)
    then show ?thesis
      using v t sum_drop_mono [of 0 "wopt_index v - wopt_index w" "\<lambda>a. Suc (length a)"
          "drop (wopt_index w) (argv w)"]
      by (simp add: left_over_def)
  qed
  show ?thesis
  proof (cases "wopt_index u = length (argv u)")
    case True
    with eq show ?thesis by simp
  next
    case False
    have vp: "ordering v = Permute \<longrightarrow> last_nonopt v = wopt_index v" using v by simp
    from False skip_double_dash_Ok [OF su _ _ _ vp, of args] v have uv: "u = v"
      and nd: "wopt_index v < length (argv v) \<longrightarrow> argv v ! wopt_index v \<noteq> [45, 45]" by blast+
    from False uv v have lt: "wopt_index v < length (argv v)" by simp
    with nd have "argv v ! wopt_index v \<noteq> [45, 45]" by simp
    from take_element_total [OF W lt this] v t obtain r w' where
      te: "take_element W v = Ok (r, w')" and
      un: "r = UnpermutedNonOption \<longrightarrow> moved v w' \<and> remaining_text w' = [] \<and>
        left_over w' < left_over v \<and> wopt_index w' \<le> length (argv v)" and
      fo: "r = FoundOption \<longrightarrow> moved v w' \<and> wopt_index w' = wopt_index v \<and> remaining_text w' \<noteq> [] \<and>
        2 \<le> length (argv v ! wopt_index v) \<and> left_over w' < left_over v" by auto
    have "next_argv W w = Ok (r, w')" using eq False uv te by simp
    moreover have "argv w' = argv v" if "r \<noteq> Finished"
      using that un fo by (cases r) (auto simp: moved_def)
    ultimately show ?thesis using un fo le lt by (cases r) auto
  qed
qed

lemma scan_start_good: "scan_good args (wgetopter_new short long args)"
  by (simp add: scan_good_def scan_inv_def text_ok_def wgetopter_new_def)

text \<open>The state after an option, and how the call may leave the range of the text.\<close>

lemma parse_element_good:
  assumes W: "wchar_laws W" and w: "regions_of args w" "order_ok w" "initialized w"
    and t: "remaining_text w \<noteq> []" "wopt_index w < length (argv w)" "2 \<le> length (argv w ! wopt_index w)"
  shows "\<exists>c li' w'. parse_element W li w = Ok ((Some c, li'), w') \<and> left_over w' < left_over w \<and>
    (scan_good args w' \<or> c = 63 \<and> remaining_text w' \<noteq> [])"
proof -
  from parse_element_total [OF W t, of li] obtain c li' w' where
    p: "parse_element W li w = Ok ((Some c, li'), w')" and m: "moved w w'" and
    l: "length (remaining_text w') < length (remaining_text w)" and
    e: "remaining_text w' = [] \<longrightarrow> wopt_index w < wopt_index w' \<and> wopt_index w' \<le> length (argv w)" and
    n: "remaining_text w' \<noteq> [] \<longrightarrow> c = 63 \<or> wopt_index w' = wopt_index w" by blast
  have "left_over w' < left_over w" using parse_element_progress [OF m l] e by blast
  moreover have "scan_good args w'" if "\<not> (c = 63 \<and> remaining_text w' \<noteq> [])"
    using that moved_regions [OF w(1) m] m e n t w(2,3)
    by (cases "remaining_text w' = []")
      (auto simp: scan_good_def scan_inv_def text_ok_def moved_def order_ok_def)
  ultimately show ?thesis using p by blast
qed

lemma wgetopt_inner_total:
  assumes W: "wchar_laws W" and w: "scan_good args w" "args \<noteq> []"
  shows "\<exists>r li' w'. wgetopt_inner W li w = Ok ((r, li'), w') \<and>
    (r \<noteq> None \<longrightarrow> left_over w' < left_over w) \<and>
    (r = None \<or> scan_good args w' \<or> r = Some 63 \<and> remaining_text w' \<noteq> [])"
proof -
  obtain v0 where v0: "(if initialized w then Ok w else initialize W w) = Ok v0"
    using initialize_total [OF W, of w] by (cases "initialized w") auto
  define v where "v = v0\<lparr>woptarg := None\<rparr>"
  have v: "regions_of args v" "order_ok v" "initialized v" "wopt_index v \<le> length (argv v)" "text_ok v"
    and lo: "left_over v \<le> left_over w"
  proof -
    have "regions_of args v \<and> order_ok v \<and> initialized v \<and> wopt_index v \<le> length (argv v) \<and>
      text_ok v \<and> left_over v \<le> left_over w"
    proof (cases "initialized w")
      case True
      with v0 have "v = w\<lparr>woptarg := None\<rparr>" by (simp add: v_def)
      then have same: "argv v = argv w" "first_nonopt v = first_nonopt w" "last_nonopt v = last_nonopt w"
        "wopt_index v = wopt_index w" "ordering v = ordering w" "remaining_text v = remaining_text w"
        "initialized v = initialized w" by simp_all
      from True w(1) have "regions_of args w" "order_ok w" "wopt_index w \<le> length (argv w)" "text_ok w"
        by (simp_all only: scan_inv_def scan_good_def if_True simp_thms)
      with True show ?thesis
        unfolding same order_ok_def text_ok_def left_over_def by blast
    next
      case False
      with v0 w(1) have i: "initialize W w = Ok v0" and a: "argv w = args" "remaining_text w = []"
        "wopt_index w = 0" by (simp_all add: scan_good_def scan_inv_def)
      note i' = initialize_Ok [OF i]
      have one: "1 \<le> length args" using w(2) by (cases args) simp_all
      have "regions args args 1 1 1" using one by (simp add: regions_def)
      moreover have "left_over v \<le> left_over w"
        using i' a sum_drop_mono [of 0 1 "\<lambda>a. Suc (length a)" args] by (simp add: left_over_def v_def)
      ultimately show ?thesis
        using i' a one by (simp add: v_def order_ok_def text_ok_def)
    qed
    then show "regions_of args v" "order_ok v" "initialized v" "wopt_index v \<le> length (argv v)"
      "text_ok v" "left_over v \<le> left_over w" by blast+
  qed
  have inner: "wgetopt_inner W li w = (if remaining_text v = [] then
         obind (next_argv W v) (\<lambda>(r, w).
           case r of
             UnpermutedNonOption \<Rightarrow> Ok ((Some NON_OPTION_CHAR, li), w)
           | Finished \<Rightarrow> Ok ((None, li), w)
           | FoundOption \<Rightarrow> parse_element W li w)
       else parse_element W li v)"
    unfolding wgetopt_inner_def v0 obind.simps Let_def v_def ..
  show ?thesis
  proof (cases "remaining_text v = []")
    case False
    with v(5) have "wopt_index v < length (argv v)" "2 \<le> length (argv v ! wopt_index v)"
      by (simp_all add: text_ok_def)
    from parse_element_good [OF W v(1-3) False this, of li] False lo show ?thesis
      unfolding inner by fastforce
  next
    case True
    from next_argv_total [OF W v(1,2,4) True] obtain r u where
      na: "next_argv W v = Ok (r, u)" and
      le: "r \<noteq> Finished \<longrightarrow> wopt_index u \<le> length (argv u)" and
      un: "r = UnpermutedNonOption \<longrightarrow> remaining_text u = [] \<and> left_over u < left_over v" and
      fo: "r = FoundOption \<longrightarrow> remaining_text u \<noteq> [] \<and> wopt_index u < length (argv u) \<and>
        2 \<le> length (argv u ! wopt_index u) \<and> left_over u < left_over v" by blast
    note ok = next_argv_Ok [OF na v(1,2,4,3)]
    show ?thesis
    proof (cases r)
      case Finished
      with na True show ?thesis unfolding inner by simp
    next
      case UnpermutedNonOption
      with ok le un have "scan_good args u" by (simp add: scan_good_def scan_inv_def text_ok_def)
      with UnpermutedNonOption na True un lo show ?thesis unfolding inner by simp
    next
      case FoundOption
      with ok have "regions_of args u" "order_ok u" "initialized u" by simp_all
      from parse_element_good [OF W this, of li] FoundOption fo obtain c li' w' where
        "parse_element W li u = Ok ((Some c, li'), w')" "left_over w' < left_over u"
        "scan_good args w' \<or> c = 63 \<and> remaining_text w' \<noteq> []" by blast
      with FoundOption na True fo lo show ?thesis unfolding inner by fastforce
    qed
  qed
qed

end
