(* ===== verification/Wgetopt_Facts.thy ===== *)
theory Wgetopt_Facts
  imports Wgetopt_Safe
begin

text \<open>
  The properties of \<open>wgetopt.rs\<close>: a finished scan separates the options from the rest and keeps
  both in order, the usual loop of a caller ends without a panic, a long option is found by an
  exact name or a unique prefix, and an unrecognized short option followed by text runs the index
  past the arguments.
\<close>

definition wchar_ref :: wchar where
  \<comment> \<open>the documented behaviour, with a panic beyond the end\<close>
  "wchar_ref =
     \<lparr>char_at = (\<lambda>s i. if i < length s then Ok (s ! i) else if i = length s then Ok 0 else Panic),
      starts_with = (\<lambda>s t. take (length t) s = t),
      find_char = (\<lambda>s c. if c \<in> set s then Some (length (takeWhile (\<lambda>x. x \<noteq> c) s)) else None)\<rparr>"

lemma wchar_ref_laws: "wchar_laws wchar_ref"
  by (auto simp: wchar_laws_def wchar_ref_def prefix_def) (metis append_take_drop_id)

section \<open>A finished scan\<close>

lemma finished_split:
  assumes "args \<noteq> []" "scanning W args w" "next_opt W w = Ok (None, w')"
  shows "split_result args w' \<and> mset (argv w') = mset args"
proof -
  from next_opt_Ok [OF assms(3)] obtain li' where
    "wopt_index w \<le> length (argv w)" "wgetopt_inner W 0 w = Ok ((None, li'), w')" by blast
  with wgetopt_inner_Ok [OF _ scanning_inv [OF assms(1,2)] assms(1)] have s: "split_result args w'"
    by fastforce
  from s have "mset args = mset (take (wopt_index w') (argv w')) + mset (drop (wopt_index w') (argv w'))"
    unfolding split_result_def by (rule mset_shuffles)
  also have "\<dots> = mset (argv w')" by (simp flip: mset_append)
  finally show ?thesis using s by simp
qed

text \<open>
  C17. Permutation.  When the calls of \<open>next_opt\<close> on a list of arguments reach the end of the
  options, the arguments before the final index and those from it on are two sequences that
  merge to the original list: no argument is lost, doubled or changed, the options (with their
  values) keep their order, and so do the arguments that are not options.
\<close>

theorem wgetopt_permutes:
  "args \<noteq> [] \<Longrightarrow> scanning W args w \<Longrightarrow> next_opt W w = Ok (None, w') \<Longrightarrow>
     args \<in> shuffles (take (wopt_index w') (argv w')) (drop (wopt_index w') (argv w')) \<and>
     mset (argv w') = mset args"
  using finished_split by (simp add: split_result_def)

section \<open>The loop of a caller\<close>

fun scan_options :: "nat \<Rightarrow> wchar \<Rightarrow> wgetopter \<Rightarrow> uchar list w_result" where
  \<comment> \<open>\<open>while let Some(c) = w.next_opt()\<close>, left at an unrecognized option\<close>
  "scan_options 0 W w = Diverge"
| "scan_options (Suc n) W w =
     obind (next_opt W w) (\<lambda>(r, w).
       case r of
         None \<Rightarrow> Ok ([], w)
       | Some c \<Rightarrow> if c = 63 then Ok ([c], w)
                   else obind (scan_options n W w) (\<lambda>(cs, w). Ok (c # cs, w)))"

lemma next_opt_total:
  assumes "wchar_laws W" "scan_good args w" "args \<noteq> []"
  shows "\<exists>r w'. next_opt W w = Ok (r, w') \<and>
    (r = None \<longrightarrow> split_result args w') \<and>
    (r \<noteq> None \<and> r \<noteq> Some 63 \<longrightarrow> left_over w' < left_over w \<and> scan_good args w')"
proof -
  from wgetopt_inner_total [OF assms, of 0] obtain r li' w' where
    i: "wgetopt_inner W 0 w = Ok ((r, li'), w')" "r \<noteq> None \<longrightarrow> left_over w' < left_over w"
      "r = None \<or> scan_good args w' \<or> r = Some 63 \<and> remaining_text w' \<noteq> []" by blast
  have w: "scan_inv args w" "wopt_index w \<le> length (argv w)" using assms(2) by (simp_all add: scan_good_def)
  have "next_opt W w = Ok (r, w')" using i(1) w(2) by (simp add: next_opt_def)
  with i wgetopt_inner_Ok [OF i(1) w(1) assms(3) w(2)] show ?thesis by fastforce
qed

lemma scan_options_total:
  assumes "wchar_laws W" "scan_good args w" "args \<noteq> []" "left_over w < n"
  shows "\<exists>cs w'. scan_options n W w = Ok (cs, w') \<and> (63 \<in> set cs \<or> split_result args w')"
  using assms(2,4)
proof (induction n arbitrary: w)
  case (Suc n)
  from next_opt_total [OF assms(1) Suc.prems(1) assms(3)] obtain r w' where
    n: "next_opt W w = Ok (r, w')" "r = None \<longrightarrow> split_result args w'"
      "r \<noteq> None \<and> r \<noteq> Some 63 \<longrightarrow> left_over w' < left_over w \<and> scan_good args w'" by blast
  show ?case
  proof (cases "r = None \<or> r = Some 63")
    case True
    with n show ?thesis by auto
  next
    case False
    then obtain c where r: "r = Some c" "c \<noteq> 63" by auto
    with n have "left_over w' < left_over w" "scan_good args w'" by simp_all
    with Suc.IH [of w'] Suc.prems(2) obtain cs u where
      "scan_options n W w' = Ok (cs, u)" "63 \<in> set cs \<or> split_result args u" by auto
    with n(1) r show ?thesis by auto
  qed
qed simp

text \<open>
  C18. The loop ends.  A caller that asks for options until there are none, and gives up at an
  unrecognized one, is never stuck and never sees a panic, whatever the arguments and the option
  tables: the number of calls is at most the number of characters and arguments.  It ends at an
  unrecognized option or with the arguments separated.
\<close>

theorem wgetopt_loop_ends:
  "wchar_laws W \<Longrightarrow> args \<noteq> [] \<Longrightarrow> sum_list (map (\<lambda>a. Suc (length a)) args) < n \<Longrightarrow>
     \<exists>cs w'. scan_options n W (wgetopter_new short long args) = Ok (cs, w') \<and>
       (63 \<in> set cs \<or> split_result args w')"
  by (rule scan_options_total [OF _ scan_start_good])
    (simp_all add: left_over_def wgetopter_new_def)

theorem wgetopt_loop_ends_witness:
  "\<exists>cs w'. scan_options 20 wchar_ref (wgetopter_new [97, 58] [] [[99], [102], [45, 97, 98], [45, 97]])
       = Ok (cs, w') \<and>
     (63 \<in> set cs \<or> split_result [[99], [102], [45, 97, 98], [45, 97]] w')"
  by (rule wgetopt_loop_ends [OF wchar_ref_laws]) simp_all

text \<open>The same arguments, scanned to the end: the option with its value comes before the file name.\<close>

definition demo_start :: wgetopter where
  "demo_start = wgetopter_new [97] [] [[99], [102], [45, 97]]"

definition demo_next :: wgetopter where
  "demo_next = demo_start\<lparr>wopt_index := 3, first_nonopt := 1, last_nonopt := 2, initialized := True\<rparr>"

lemma demo_step: "next_opt wchar_ref demo_start = Ok (Some 97, demo_next)"
  by code_simp

lemma demo_end: "next_opt wchar_ref demo_next = Ok (None,
    demo_next\<lparr>argv := [[99], [45, 97], [102]], first_nonopt := 2, last_nonopt := 3, wopt_index := 2\<rparr>)"
  by code_simp

theorem wgetopt_permutes_witness:
  "[[99], [102], [45, 97]] \<in> shuffles [[99], [45, 97]] [[102 :: uchar]] \<and>
   mset [[99], [45, 97], [102 :: uchar]] = mset [[99], [102], [45, 97]]"
proof -
  have "scanning wchar_ref [[99], [102], [45, 97]] demo_start"
    unfolding demo_start_def by (rule scan_start)
  from wgetopt_permutes [OF _ scan_next [OF this demo_step] demo_end] show ?thesis by simp
qed

section \<open>Long options\<close>

definition long_candidates :: "ustring \<Rightarrow> woption list \<Rightarrow> nat \<Rightarrow> (woption \<times> nat) list" where
  "long_candidates name opts i = filter (\<lambda>(opt, _). prefix name (wo_name opt)) (zip opts [i..<i + length opts])"

definition long_spec :: "ustring \<Rightarrow> woption list \<Rightarrow> nat \<Rightarrow> long_opt_match" where
  \<comment> \<open>the first option of that name, else the only option whose name begins with it\<close>
  "long_spec name opts i =
     (case find (\<lambda>(opt, _). wo_name opt = name) (zip opts [i..<i + length opts]) of
        Some (opt, index) \<Rightarrow> ExactMatch opt index
      | None \<Rightarrow> (case long_candidates name opts i of
                  [] \<Rightarrow> NoMatch
                | [(opt, index)] \<Rightarrow> NonExactMatch opt index
                | _ \<Rightarrow> AmbiguousMatch))"

definition long_step :: "ustring \<Rightarrow> woption list \<Rightarrow> nat \<Rightarrow> (woption \<times> nat) option \<Rightarrow> bool \<Rightarrow> long_opt_match" where
  "long_step name opts i found ambiguous =
     (case find (\<lambda>(opt, _). wo_name opt = name) (zip opts [i..<i + length opts]) of
        Some (opt, index) \<Rightarrow> ExactMatch opt index
      | None \<Rightarrow> (case found of
            None \<Rightarrow> (case long_candidates name opts i of
                  [] \<Rightarrow> NoMatch
                | (opt, index) # rest \<Rightarrow>
                    if ambiguous \<or> rest \<noteq> [] then AmbiguousMatch else NonExactMatch opt index)
          | Some (opt, index) \<Rightarrow>
              if ambiguous \<or> long_candidates name opts i \<noteq> [] then AmbiguousMatch
              else NonExactMatch opt index))"

lemma zip_upt_Cons: "zip (x # xs) [i..<i + length (x # xs)] = (x, i) # zip xs [Suc i..<Suc i + length xs]"
  by (simp add: upt_conv_Cons del: upt_Suc)

lemma match_long_opts_step:
  assumes "wchar_laws W"
  shows "match_long_opts W name opts i found ambiguous = long_step name opts i found ambiguous"
proof (induction opts arbitrary: i found ambiguous)
  case Nil
  show ?case by (auto simp: long_step_def long_candidates_def split: option.splits)
next
  case (Cons opt opts)
  have sw: "starts_with W (wo_name opt) name = prefix name (wo_name opt)"
    using assms by (simp add: wchar_laws_def)
  have ex: "prefix name (wo_name opt) \<and> length name = length (wo_name opt) \<longleftrightarrow> wo_name opt = name"
    by (auto simp: prefix_def)
  show ?case
    unfolding match_long_opts.simps sw Cons.IH long_step_def long_candidates_def zip_upt_Cons
    using ex by (auto split: option.splits list.splits)
qed

text \<open>
  C19. Long option names.  The loop of \<open>find_matching_long_opt\<close> picks the first option whose name is
  the given one, wherever it stands and however many others begin with it; failing that, the one
  option whose name begins with it, and it reports an ambiguity exactly when there are several.
\<close>

theorem wgetopt_long_match:
  "wchar_laws W \<Longrightarrow> match_long_opts W name opts 0 None False = long_spec name opts 0"
  unfolding match_long_opts_step long_step_def long_spec_def
  by (auto split: option.splits list.splits)

theorem wgetopt_long_match_witness:
  "match_long_opts wchar_ref [97]
     [\<lparr>wo_name = [97, 98], wo_arg_type = NoArgument, wo_val = 1\<rparr>,
      \<lparr>wo_name = [97], wo_arg_type = NoArgument, wo_val = 2\<rparr>] 0 None False =
   ExactMatch \<lparr>wo_name = [97], wo_arg_type = NoArgument, wo_val = 2\<rparr> 1"
  using wgetopt_long_match [OF wchar_ref_laws, of "[97]"
    "[\<lparr>wo_name = [97, 98], wo_arg_type = NoArgument, wo_val = 1\<rparr>,
      \<lparr>wo_name = [97], wo_arg_type = NoArgument, wo_val = 2\<rparr>]"]
  by (simp add: long_spec_def long_candidates_def)

section \<open>Unrecognized short options\<close>

fun scan_on :: "nat \<Rightarrow> wchar \<Rightarrow> wgetopter \<Rightarrow> uchar list w_result" where
  \<comment> \<open>\<open>while let Some(c) = w.next_opt()\<close>, going on after an unrecognized option\<close>
  "scan_on 0 W w = Diverge"
| "scan_on (Suc n) W w =
     obind (next_opt W w) (\<lambda>(r, w).
       case r of
         None \<Rightarrow> Ok ([], w)
       | Some c \<Rightarrow> obind (scan_on n W w) (\<lambda>(cs, w). Ok (c # cs, w)))"

definition current_element :: "wchar \<Rightarrow> wgetopter \<Rightarrow> (unit, wgetopter option) outcome" where
  \<comment> \<open>the state in which a call of \<open>next_opt\<close> reads an option, if it finds an element with options\<close>
  "current_element W w =
     obind (if initialized w then Ok w else initialize W w) (\<lambda>w.
       let w = w\<lparr>woptarg := None\<rparr> in
       if remaining_text w = []
       then obind (next_argv W w) (\<lambda>(r, w). Ok (if r = FoundOption then Some w else None))
       else Ok (Some w))"

lemma inner_current_element:
  assumes "current_element W w = Ok (Some e)"
  shows "wgetopt_inner W li w = parse_element W li e"
  using assms by (auto simp: current_element_def wgetopt_inner_def obind_Ok_iff Let_def split: if_splits)

lemma exchange_initialized: "exchange w = Ok w' \<Longrightarrow> initialized w' = initialized w"
  by (auto simp: exchange_def Let_def split: if_splits)

lemma permute_args_initialized: "permute_args W w = Ok w' \<Longrightarrow> initialized w' = initialized w"
  by (auto simp: permute_args_def obind_Ok_iff exchange_initialized split: if_splits)

lemma skip_double_dash_initialized: "skip_double_dash w = Ok w' \<Longrightarrow> initialized w' = initialized w"
  by (auto simp: skip_double_dash_def obind_Ok_iff exchange_initialized Let_def split: if_splits
      dest!: exchange_initialized)

lemma next_argv_initialized:
  assumes "next_argv W w = Ok (r, w')"
  shows "initialized w' = initialized w"
proof -
  from assms obtain u v where u: "permute_args W w = Ok u" and v: "skip_double_dash u = Ok v"
    and w': "w' = v \<or> w' = v\<lparr>wopt_index := first_nonopt v\<rparr> \<or> (\<exists>a i. w' = v\<lparr>woptarg := a, wopt_index := i\<rparr>) \<or>
      (\<exists>t. w' = v\<lparr>remaining_text := t\<rparr>)"
    unfolding next_argv_def obind_Ok_iff by (fastforce simp: obind_Ok_iff split: if_splits)
  then show ?thesis using permute_args_initialized [OF u] skip_double_dash_initialized [OF v] by auto
qed

lemma current_element_initialized: "current_element W w = Ok (Some e) \<Longrightarrow> initialized e"
  by (auto simp: current_element_def obind_Ok_iff Let_def split: if_splits
      dest!: next_argv_initialized initialize_Ok)

lemma short_unknown:
  \<comment> \<open>an unrecognized letter with letters left moves the index but keeps the text\<close>
  assumes "wchar_laws W" "remaining_text e = y # z # rest" "y \<notin> set (shortopts e) \<or> y = 58"
  shows "handle_short_opt W e = Ok (63,
    e\<lparr>remaining_text := z # rest, unrecognized_opt := y, wopt_index := wopt_index e + 1\<rparr>)"
proof -
  have c: "char_at W (y # z # rest) 0 = Ok y" using assms(1) by (simp add: char_at_total)
  have d: "y \<noteq> 58 \<Longrightarrow> dropWhile (\<lambda>sc. sc \<noteq> y) (shortopts e) = []" using assms(3) by auto
  show ?thesis
    using assms(2) c d by (auto simp: handle_short_opt_def shortopt_tail_def slice_from_def Let_def)
qed

lemma handle_short_past_end:
  \<comment> \<open>a letter read with the index behind the last argument: a panic, an index that makes the next
    call panic, or the same situation with fewer letters\<close>
  assumes W: "wchar_laws W" and w: "remaining_text w = x # text" "wopt_index w = length (argv w)"
  obtains "handle_short_opt W w = Panic"
  | c w' where "handle_short_opt W w = Ok (c, w')" "length (argv w') < wopt_index w'"
  | c w' where "handle_short_opt W w = Ok (c, w')" "initialized w' = initialized w" "text \<noteq> []"
      "remaining_text w' = text" "wopt_index w' = length (argv w')"
proof -
  let ?t = "shortopt_tail (shortopts w) x"
  have c0: "char_at W (x # text) 0 = Ok x" using W by (simp add: char_at_total)
  have c1: "?t \<noteq> [] \<Longrightarrow> char_at W ?t (Suc 0) = Ok (if 1 < length ?t then ?t ! 1 else 0)"
    using W by (cases ?t) (simp_all add: char_at_total)
  have c2: "1 < length ?t \<Longrightarrow> char_at W ?t 2 = Ok (if 2 < length ?t then ?t ! 2 else 0)"
    using W by (simp add: char_at_total)
  consider "?t = [] \<or> x = 58" | "?t \<noteq> []" "x \<noteq> 58" "\<not> (1 < length ?t \<and> ?t ! 1 = 58)"
    | "?t \<noteq> []" "x \<noteq> 58" "1 < length ?t" "?t ! 1 = 58" by blast
  then show thesis
  proof cases
    case 1
    with w c0 show thesis
      by (intro that(2)) (auto simp: handle_short_opt_def slice_from_def Let_def)
  next
    case 2
    then have eq: "handle_short_opt W w = Ok (x, if text = [] then w\<lparr>remaining_text := [], wopt_index := wopt_index w + 1\<rparr>
        else w\<lparr>remaining_text := text\<rparr>)"
      using w(1) c0 c1 by (auto simp: handle_short_opt_def slice_from_def Let_def)
    show thesis
    proof (cases "text = []")
      case True
      with eq w(2) show thesis by (intro that(2) [of x "w\<lparr>remaining_text := [], wopt_index := wopt_index w + 1\<rparr>"]) simp_all
    next
      case False
      with eq w(2) show thesis by (intro that(3) [of x "w\<lparr>remaining_text := text\<rparr>"]) simp_all
    qed
  next
    case 3
    then have eq: "handle_short_opt W w = take_short_arg W x ?t
        (if text = [] then w\<lparr>remaining_text := [], wopt_index := wopt_index w + 1\<rparr> else w\<lparr>remaining_text := text\<rparr>)"
      using w(1) c0 c1 by (auto simp: handle_short_opt_def slice_from_def Let_def)
    show thesis
    proof (cases "text = []")
      case True
      show thesis
      proof (cases "2 < length ?t \<and> ?t ! 2 = 58")
        case opt: True
        with eq True w(2) c2 3(3) show thesis
          by (intro that(2) [of x "w\<lparr>remaining_text := [], wopt_index := wopt_index w + 1, woptarg := None\<rparr>"])
            (simp_all add: take_short_arg_def)
      next
        case False
        with eq True w(2) c2 3(3) show thesis
          by (intro that(1)) (auto simp: take_short_arg_def arg_at_def)
      qed
    next
      case False
      with eq w(2) c2 3(3) show thesis
        by (intro that(2) [of x "w\<lparr>remaining_text := [], woptarg := Some text, wopt_index := wopt_index w + 1\<rparr>"])
          (simp_all add: take_short_arg_def)
    qed
  qed
qed

lemma past_end_panics:
  assumes W: "wchar_laws W"
  shows "initialized w \<Longrightarrow> remaining_text w \<noteq> [] \<Longrightarrow> wopt_index w = length (argv w) \<Longrightarrow>
    length (remaining_text w) < n \<Longrightarrow> scan_on n W w = Panic"
proof (induction n arbitrary: w)
  case (Suc n)
  from Suc.prems(2) obtain x ys where t: "remaining_text (w\<lparr>woptarg := None\<rparr>) = x # ys"
    by (cases "remaining_text w") auto
  have i: "wopt_index (w\<lparr>woptarg := None\<rparr>) = length (argv (w\<lparr>woptarg := None\<rparr>))"
    using Suc.prems(3) by simp
  have call: "next_opt W w = obind (handle_short_opt W (w\<lparr>woptarg := None\<rparr>)) (\<lambda>(c, w). Ok (Some c, w))"
    using Suc.prems(1-3)
    by (cases "handle_short_opt W (w\<lparr>woptarg := None\<rparr>)")
      (auto simp: next_opt_def wgetopt_inner_def parse_element_def tries_long_def Let_def)
  from Suc.prems(2,4) have "0 < n" by (cases "remaining_text w") auto
  then obtain m where m: "n = Suc m" by (cases n) auto
  show ?case
  proof (rule handle_short_past_end [OF W t i])
    fix c w' assume "handle_short_opt W (w\<lparr>woptarg := None\<rparr>) = Ok (c, w')" "length (argv w') < wopt_index w'"
    with call m show ?case by (simp add: next_opt_def)
  next
    fix c w'
    assume "handle_short_opt W (w\<lparr>woptarg := None\<rparr>) = Ok (c, w')" "initialized w' = initialized (w\<lparr>woptarg := None\<rparr>)"
      "ys \<noteq> []" "remaining_text w' = ys" "wopt_index w' = length (argv w')"
    with call Suc.IH [of w'] Suc.prems t show ?case by simp
  qed (simp add: call)
qed simp

text \<open>
  C20. A panic after an unrecognized option, whatever the option tables and the state of the scan.
  When a call of \<open>next_opt\<close> reads the last argument, not as a long option, and finds an unrecognized
  letter with letters left behind it, it gives \<open>?\<close> and moves the index to the end of the arguments
  although letters are left.  A caller that goes on, as the original allows, then never sees the end
  of the options: within as many calls as letters are left, and one, a call panics (in its assertion
  that the index is not beyond the arguments, or when it takes the argument of an option).
\<close>

theorem wgetopt_unknown_panics:
  assumes "wchar_laws W" and "wopt_index w \<le> length (argv w)"
    and "current_element W w = Ok (Some e)" and "tries_long W e = Ok False"
    and "remaining_text e = y # z # rest" and "y \<notin> set (shortopts e) \<or> y = 58"
    and "Suc (wopt_index e) = length (argv e)"
  shows "\<exists>w'. next_opt W w = Ok (Some 63, w') \<and> remaining_text w' = z # rest \<and>
    scan_on (length (z # rest) + 1) W w' = Panic"
proof -
  let ?w = "e\<lparr>remaining_text := z # rest, unrecognized_opt := y, wopt_index := wopt_index e + 1\<rparr>"
  have "next_opt W w = Ok (Some 63, ?w)"
    using assms(2,4) short_unknown [OF assms(1,5,6)] inner_current_element [OF assms(3), of 0]
    by (simp add: next_opt_def parse_element_def)
  moreover have "scan_on (length (z # rest) + 1) W ?w = Panic"
    using current_element_initialized [OF assms(3)] assms(7) by (intro past_end_panics [OF assms(1)]) simp_all
  ultimately show ?thesis by (intro exI [of _ ?w]) simp
qed

text \<open>
  \<open>cmd -axyz\<close> with the only option \<open>-a\<close>, after the call that read \<open>a\<close>: \<open>x\<close> gives \<open>?\<close>, and the
  caller that goes on panics.
\<close>

theorem wgetopt_unknown_panics_witness:
  "\<exists>w w'. next_opt wchar_ref (wgetopter_new [97] [] [[99], [45, 97, 120, 121, 122]]) = Ok (Some 97, w) \<and>
     next_opt wchar_ref w = Ok (Some 63, w') \<and> scan_on 3 wchar_ref w' = Panic"
proof -
  let ?w = "(wgetopter_new [97] [] [[99], [45, 97, 120, 121, 122]])
    \<lparr>remaining_text := [120, 121, 122], wopt_index := 1, first_nonopt := 1, last_nonopt := 1, initialized := True\<rparr>"
  have 1: "next_opt wchar_ref (wgetopter_new [97] [] [[99], [45, 97, 120, 121, 122]]) = Ok (Some 97, ?w)"
    by code_simp
  have "current_element wchar_ref ?w = Ok (Some ?w)"
    by (simp add: current_element_def wgetopter_new_def)
  from wgetopt_unknown_panics [OF wchar_ref_laws _ this, of 120 121 "[122]"] 1 show ?thesis
    by (auto simp: wgetopter_new_def tries_long_def numeral_3_eq_3)
qed

end
