(* ===== verification/Fish_Color.thy ===== *)
theory Fish_Color
  imports Prelude "HOL-Library.List_Lexorder"
begin

text \<open>
  The colors of fish (\<open>src/04-fish-shell/rust-rewrite/color/color.rs\<close>): parsing of special names, of the
  table of named colors by binary search, and of hexadecimal colors; and the conversion to the
  palettes of 16 and 256 colors. A \<open>wstr\<close> is a list of code points. The operations of the
  bitflags crate are a parameter.
\<close>

section \<open>Colors\<close>

record color24 =
  c24_r :: u8
  c24_g :: u8
  c24_b :: u8

definition from_bits :: "u32 \<Rightarrow> (unit, color24) outcome" where
  "from_bits bits =
     (if drop_bit 24 bits \<noteq> 0 then Panic
      else Ok \<lparr>c24_r = ucast (drop_bit 16 bits), c24_g = ucast (drop_bit 8 bits), c24_b = ucast bits\<rparr>)"

datatype color_type = TypeNone | Named u8 | Rgb color24 | Normal | Reset

definition DEFAULT :: u8 where "DEFAULT = 0"
definition BOLD :: u8 where "BOLD = push_bit 0 1"
definition UNDERLINE :: u8 where "UNDERLINE = push_bit 1 1"
definition ITALICS :: u8 where "ITALICS = push_bit 2 1"
definition DIM :: u8 where "DIM = push_bit 3 1"
definition REVERSE :: u8 where "REVERSE = push_bit 4 1"

record rgb_color =
  rgb_typ :: color_type
  rgb_flags :: u8

definition plain_color :: "color_type \<Rightarrow> rgb_color" where
  "plain_color t = \<lparr>rgb_typ = t, rgb_flags = DEFAULT\<rparr>"

definition WHITE :: rgb_color where "WHITE = plain_color (Named 7)"
definition BLACK :: rgb_color where "BLACK = plain_color (Named 0)"
definition RESET :: rgb_color where "RESET = plain_color Reset"
definition NORMAL :: rgb_color where "NORMAL = plain_color Normal"
definition NONE :: rgb_color where "NONE = plain_color TypeNone"

definition from_rgb :: "u8 \<Rightarrow> u8 \<Rightarrow> u8 \<Rightarrow> rgb_color" where
  "from_rgb r g b = plain_color (Rgb \<lparr>c24_r = r, c24_g = g, c24_b = b\<rparr>)"

definition is_normal :: "rgb_color \<Rightarrow> bool" where "is_normal c = (rgb_typ c = Normal)"
definition is_reset :: "rgb_color \<Rightarrow> bool" where "is_reset c = (rgb_typ c = Reset)"
definition is_none :: "rgb_color \<Rightarrow> bool" where "is_none c = (rgb_typ c = TypeNone)"
definition is_named :: "rgb_color \<Rightarrow> bool" where "is_named c = (case rgb_typ c of Named _ \<Rightarrow> True | _ \<Rightarrow> False)"
definition is_rgb :: "rgb_color \<Rightarrow> bool" where "is_rgb c = (case rgb_typ c of Rgb _ \<Rightarrow> True | _ \<Rightarrow> False)"
definition is_special :: "rgb_color \<Rightarrow> bool" where "is_special c = (\<not> is_named c \<and> \<not> is_rgb c)"

record bitflags = \<comment> \<open>\<open>contains\<close> and \<open>set\<close> of the bitflags crate\<close>
  flags_contains :: "u8 \<Rightarrow> u8 \<Rightarrow> bool"
  flags_set :: "u8 \<Rightarrow> u8 \<Rightarrow> bool \<Rightarrow> u8"

definition is_bold :: "bitflags \<Rightarrow> rgb_color \<Rightarrow> bool" where "is_bold B c = flags_contains B (rgb_flags c) BOLD"
definition is_underline :: "bitflags \<Rightarrow> rgb_color \<Rightarrow> bool" where "is_underline B c = flags_contains B (rgb_flags c) UNDERLINE"
definition is_italics :: "bitflags \<Rightarrow> rgb_color \<Rightarrow> bool" where "is_italics B c = flags_contains B (rgb_flags c) ITALICS"
definition is_dim :: "bitflags \<Rightarrow> rgb_color \<Rightarrow> bool" where "is_dim B c = flags_contains B (rgb_flags c) DIM"
definition is_reverse :: "bitflags \<Rightarrow> rgb_color \<Rightarrow> bool" where "is_reverse B c = flags_contains B (rgb_flags c) REVERSE"

definition set_bold :: "bitflags \<Rightarrow> bool \<Rightarrow> rgb_color \<Rightarrow> rgb_color" where
  "set_bold B b c = c\<lparr>rgb_flags := flags_set B (rgb_flags c) BOLD b\<rparr>"
definition set_underline :: "bitflags \<Rightarrow> bool \<Rightarrow> rgb_color \<Rightarrow> rgb_color" where
  "set_underline B b c = c\<lparr>rgb_flags := flags_set B (rgb_flags c) UNDERLINE b\<rparr>"
definition set_italics :: "bitflags \<Rightarrow> bool \<Rightarrow> rgb_color \<Rightarrow> rgb_color" where
  "set_italics B b c = c\<lparr>rgb_flags := flags_set B (rgb_flags c) ITALICS b\<rparr>"
definition set_dim :: "bitflags \<Rightarrow> bool \<Rightarrow> rgb_color \<Rightarrow> rgb_color" where
  "set_dim B b c = c\<lparr>rgb_flags := flags_set B (rgb_flags c) DIM b\<rparr>"
definition set_reverse :: "bitflags \<Rightarrow> bool \<Rightarrow> rgb_color \<Rightarrow> rgb_color" where
  "set_reverse B b c = c\<lparr>rgb_flags := flags_set B (rgb_flags c) REVERSE b\<rparr>"

section \<open>Names\<close>

datatype cmp = Less | Equal | Greater

instantiation cmp :: linorder
begin

definition less_eq_cmp :: "cmp \<Rightarrow> cmp \<Rightarrow> bool" where
  \<comment> \<open>\<open>Ordering\<close> is itself ordered, as its variants are declared\<close>
  "less_eq_cmp a b \<longleftrightarrow> a = Less \<or> b = Greater \<or> a = b"

definition less_cmp :: "cmp \<Rightarrow> cmp \<Rightarrow> bool" where
  "less_cmp a b \<longleftrightarrow> a \<le> b \<and> \<not> b \<le> (a :: cmp)"

instance
proof
  fix a b c :: cmp
  show "a \<le> b \<Longrightarrow> b \<le> c \<Longrightarrow> a \<le> c" "a \<le> b \<or> b \<le> a"
    by (cases a; cases b; cases c; simp add: less_eq_cmp_def)+
qed (auto simp: less_eq_cmp_def less_cmp_def)

end

definition to_ascii_lowercase :: "uchar \<Rightarrow> uchar" where
  "to_ascii_lowercase c = (if 65 \<le> c \<and> c \<le> 90 then c + 32 else c)"

fun iter_cmp :: "uchar list \<Rightarrow> uchar list \<Rightarrow> cmp" where
  \<comment> \<open>\<open>Iterator::cmp\<close>\<close>
  "iter_cmp [] [] = Equal"
| "iter_cmp [] (_ # _) = Less"
| "iter_cmp (_ # _) [] = Greater"
| "iter_cmp (x # xs) (y # ys) = (if x < y then Less else if y < x then Greater else iter_cmp xs ys)"

definition simple_icase_compare :: "ustring \<Rightarrow> ustring \<Rightarrow> cmp" where
  "simple_icase_compare s1 s2 = iter_cmp (map to_ascii_lowercase s1) (map to_ascii_lowercase s2)"

record named_color =
  nc_name :: ustring
  nc_idx :: u8
  nc_rgb :: "u8 list"
  nc_hidden :: bool

definition NAMED_COLORS :: "named_color list" where
  "NAMED_COLORS =
     (let nc = (\<lambda>n i c h. \<lparr>nc_name = ustr n, nc_idx = i, nc_rgb = c, nc_hidden = h\<rparr>) in
     [nc ''black'' 0 [0, 0, 0] False,
      nc ''blue'' 4 [0, 0, 128] False,
      nc ''brblack'' 8 [128, 128, 128] False,
      nc ''brblue'' 12 [0, 0, 255] False,
      nc ''brbrown'' 11 [255, 255, 0] True,
      nc ''brcyan'' 14 [0, 255, 255] False,
      nc ''brgreen'' 10 [0, 255, 0] False,
      nc ''brgrey'' 8 [85, 85, 85] True,
      nc ''brmagenta'' 13 [255, 0, 255] False,
      nc ''brown'' 3 [114, 80, 0] True,
      nc ''brpurple'' 13 [255, 0, 255] True,
      nc ''brred'' 9 [255, 0, 0] False,
      nc ''brwhite'' 15 [255, 255, 255] False,
      nc ''bryellow'' 11 [255, 255, 0] False,
      nc ''cyan'' 6 [0, 128, 128] False,
      nc ''green'' 2 [0, 128, 0] False,
      nc ''grey'' 7 [229, 229, 229] True,
      nc ''magenta'' 5 [128, 0, 128] False,
      nc ''purple'' 5 [128, 0, 128] True,
      nc ''red'' 1 [128, 0, 0] False,
      nc ''white'' 7 [192, 192, 192] False,
      nc ''yellow'' 3 [128, 128, 0] False])"

function halving_search :: "('a \<Rightarrow> cmp) \<Rightarrow> 'a list \<Rightarrow> nat \<Rightarrow> nat \<Rightarrow> nat" where
  \<comment> \<open>the loop of \<open>slice::binary_search_by\<close>\<close>
  "halving_search f xs base n =
     (if 1 < n then
        (let half = n div 2; mid = base + half in
         halving_search f xs (if f (xs ! mid) = Greater then base else mid) (n - half))
      else base)"
  by pat_completeness auto
termination by (relation "measure (\<lambda>(f, xs, base, n). n)") auto

declare halving_search.simps [simp del]

definition binary_search_by :: "('a \<Rightarrow> cmp) \<Rightarrow> 'a list \<Rightarrow> nat option" where
  "binary_search_by f xs =
     (if xs = [] then None
      else let base = halving_search f xs 0 (length xs) in
        if f (xs ! base) = Equal then Some base else None)"

definition try_parse_special :: "ustring \<Rightarrow> rgb_color option" where
  "try_parse_special special =
     (if simple_icase_compare special (ustr ''normal'') = Equal then Some \<lparr>rgb_typ = Normal, rgb_flags = 0\<rparr>
      else if simple_icase_compare special (ustr ''reset'') = Equal then Some \<lparr>rgb_typ = Reset, rgb_flags = 0\<rparr>
      else None)"

definition try_parse_named :: "ustring \<Rightarrow> rgb_color option" where
  "try_parse_named name =
     (case binary_search_by (\<lambda>c. simple_icase_compare (nc_name c) name) NAMED_COLORS of
        None \<Rightarrow> None
      | Some i \<Rightarrow> Some \<lparr>rgb_typ = Named (nc_idx (NAMED_COLORS ! i)), rgb_flags = 0\<rparr>)"

definition named_color_names :: "ustring list" where
  "named_color_names = map nc_name (filter (\<lambda>c. \<not> nc_hidden c) NAMED_COLORS) @ [ustr ''normal'']"

section \<open>Hexadecimal colors\<close>

fun hex_digits :: "ustring \<Rightarrow> u8 list" where
  \<comment> \<open>\<open>map_while\<close> of \<open>to_digit(16)\<close>\<close>
  "hex_digits [] = []"
| "hex_digits (c # cs) = (case digit_val 16 c of None \<Rightarrow> [] | Some d \<Rightarrow> of_nat d # hex_digits cs)"

definition try_parse_rgb :: "ustring \<Rightarrow> rgb_color option" where
  "try_parse_rgb s =
     (case s of
        [] \<Rightarrow> None
      | c # cs \<Rightarrow>
          let s = (if c = 35 then cs else s); hex = hex_digits s in
          if length s = 3 then
            (case hex of r # g # b # _ \<Rightarrow> Some (from_rgb (r * 16 + r) (g * 16 + g) (b * 16 + b)) | _ \<Rightarrow> None)
          else if length s = 6 then
            (case hex of
               r1 # r0 # g1 # g0 # b1 # b0 # _ \<Rightarrow> Some (from_rgb (r1 * 16 + r0) (g1 * 16 + g0) (b1 * 16 + b0))
             | _ \<Rightarrow> None)
          else None)"

definition from_wstr :: "ustring \<Rightarrow> rgb_color option" where
  "from_wstr s =
     (case try_parse_special s of
        Some c \<Rightarrow> Some c
      | None \<Rightarrow> (case try_parse_named s of Some c \<Rightarrow> Some c | None \<Rightarrow> try_parse_rgb s))"

section \<open>Palettes\<close>

definition squared_difference :: "u8 \<Rightarrow> u8 \<Rightarrow> u32" where
  "squared_difference a b =
     (let a = ucast a :: u32; b = ucast b :: u32; d = (if a < b then b - a else a - b) in d * d)"

definition color_distance :: "color24 \<Rightarrow> color24 \<Rightarrow> u32" where
  "color_distance c color =
     squared_difference (c24_r c) (c24_r color) + squared_difference (c24_g c) (c24_g color) +
     squared_difference (c24_b c) (c24_b color)"

fun min_by_distance :: "color24 \<Rightarrow> nat \<Rightarrow> (nat \<times> u32) option \<Rightarrow> u32 list \<Rightarrow> (unit, nat) outcome" where
  \<comment> \<open>\<open>min_by_key\<close> over the enumerated colors: the first of the minimal ones\<close>
  "min_by_distance color i best [] = (case best of None \<Rightarrow> Panic | Some (j, _) \<Rightarrow> Ok j)"
| "min_by_distance color i best (x # xs) =
     obind (from_bits x) (\<lambda>c.
       let d = color_distance c color in
       min_by_distance color (Suc i)
         (case best of None \<Rightarrow> Some (i, d) | Some (j, e) \<Rightarrow> if d < e then Some (i, d) else Some (j, e)) xs)"

definition convert_color :: "color24 \<Rightarrow> u32 list \<Rightarrow> (unit, nat) outcome" where
  "convert_color color colors = min_by_distance color 0 None colors"

definition index_u8 :: "nat \<Rightarrow> (unit, u8) outcome" where
  \<comment> \<open>\<open>try_into().unwrap()\<close>\<close>
  "index_u8 n = (if n < 256 then Ok (of_nat n) else Panic)"

definition COLORS16 :: "u32 list" where
  "COLORS16 =
     [0x000000, 0x800000, 0x008000, 0x808000, 0x000080, 0x800080, 0x008080, 0xC0C0C0,
      0x808080, 0xFF0000, 0x00FF00, 0xFFFF00, 0x0000FF, 0xFF00FF, 0x00FFFF, 0xFFFFFF]"

definition term16_color_for_rgb :: "color24 \<Rightarrow> (unit, u8) outcome" where
  "term16_color_for_rgb color = obind (convert_color color COLORS16) index_u8"

definition COLORS256 :: "u32 list" where
  "COLORS256 =
     [0x000000, 0x00005F, 0x000087, 0x0000AF, 0x0000D7, 0x0000FF, 0x005F00, 0x005F5F, 0x005F87, 0x005FAF, 0x005FD7, 0x005FFF,
      0x008700, 0x00875F, 0x008787, 0x0087AF, 0x0087D7, 0x0087FF, 0x00AF00, 0x00AF5F, 0x00AF87, 0x00AFAF, 0x00AFD7, 0x00AFFF,
      0x00D700, 0x00D75F, 0x00D787, 0x00D7AF, 0x00D7D7, 0x00D7FF, 0x00FF00, 0x00FF5F, 0x00FF87, 0x00FFAF, 0x00FFD7, 0x00FFFF,
      0x5F0000, 0x5F005F, 0x5F0087, 0x5F00AF, 0x5F00D7, 0x5F00FF, 0x5F5F00, 0x5F5F5F, 0x5F5F87, 0x5F5FAF, 0x5F5FD7, 0x5F5FFF,
      0x5F8700, 0x5F875F, 0x5F8787, 0x5F87AF, 0x5F87D7, 0x5F87FF, 0x5FAF00, 0x5FAF5F, 0x5FAF87, 0x5FAFAF, 0x5FAFD7, 0x5FAFFF,
      0x5FD700, 0x5FD75F, 0x5FD787, 0x5FD7AF, 0x5FD7D7, 0x5FD7FF, 0x5FFF00, 0x5FFF5F, 0x5FFF87, 0x5FFFAF, 0x5FFFD7, 0x5FFFFF,
      0x870000, 0x87005F, 0x870087, 0x8700AF, 0x8700D7, 0x8700FF, 0x875F00, 0x875F5F, 0x875F87, 0x875FAF, 0x875FD7, 0x875FFF,
      0x878700, 0x87875F, 0x878787, 0x8787AF, 0x8787D7, 0x8787FF, 0x87AF00, 0x87AF5F, 0x87AF87, 0x87AFAF, 0x87AFD7, 0x87AFFF,
      0x87D700, 0x87D75F, 0x87D787, 0x87D7AF, 0x87D7D7, 0x87D7FF, 0x87FF00, 0x87FF5F, 0x87FF87, 0x87FFAF, 0x87FFD7, 0x87FFFF,
      0xAF0000, 0xAF005F, 0xAF0087, 0xAF00AF, 0xAF00D7, 0xAF00FF, 0xAF5F00, 0xAF5F5F, 0xAF5F87, 0xAF5FAF, 0xAF5FD7, 0xAF5FFF,
      0xAF8700, 0xAF875F, 0xAF8787, 0xAF87AF, 0xAF87D7, 0xAF87FF, 0xAFAF00, 0xAFAF5F, 0xAFAF87, 0xAFAFAF, 0xAFAFD7, 0xAFAFFF,
      0xAFD700, 0xAFD75F, 0xAFD787, 0xAFD7AF, 0xAFD7D7, 0xAFD7FF, 0xAFFF00, 0xAFFF5F, 0xAFFF87, 0xAFFFAF, 0xAFFFD7, 0xAFFFFF,
      0xD70000, 0xD7005F, 0xD70087, 0xD700AF, 0xD700D7, 0xD700FF, 0xD75F00, 0xD75F5F, 0xD75F87, 0xD75FAF, 0xD75FD7, 0xD75FFF,
      0xD78700, 0xD7875F, 0xD78787, 0xD787AF, 0xD787D7, 0xD787FF, 0xD7AF00, 0xD7AF5F, 0xD7AF87, 0xD7AFAF, 0xD7AFD7, 0xD7AFFF,
      0xD7D700, 0xD7D75F, 0xD7D787, 0xD7D7AF, 0xD7D7D7, 0xD7D7FF, 0xD7FF00, 0xD7FF5F, 0xD7FF87, 0xD7FFAF, 0xD7FFD7, 0xD7FFFF,
      0xFF0000, 0xFF005F, 0xFF0087, 0xFF00AF, 0xFF00D7, 0xFF00FF, 0xFF5F00, 0xFF5F5F, 0xFF5F87, 0xFF5FAF, 0xFF5FD7, 0xFF5FFF,
      0xFF8700, 0xFF875F, 0xFF8787, 0xFF87AF, 0xFF87D7, 0xFF87FF, 0xFFAF00, 0xFFAF5F, 0xFFAF87, 0xFFAFAF, 0xFFAFD7, 0xFFAFFF,
      0xFFD700, 0xFFD75F, 0xFFD787, 0xFFD7AF, 0xFFD7D7, 0xFFD7FF, 0xFFFF00, 0xFFFF5F, 0xFFFF87, 0xFFFFAF, 0xFFFFD7, 0xFFFFFF,
      0x080808, 0x121212, 0x1C1C1C, 0x262626, 0x303030, 0x3A3A3A, 0x444444, 0x4E4E4E, 0x585858, 0x626262, 0x6C6C6C, 0x767676,
      0x808080, 0x8A8A8A, 0x949494, 0x9E9E9E, 0xA8A8A8, 0xB2B2B2, 0xBCBCBC, 0xC6C6C6, 0xD0D0D0, 0xDADADA, 0xE4E4E4, 0xEEEEEE]"

definition term256_color_for_rgb :: "color24 \<Rightarrow> (unit, u8) outcome" where
  "term256_color_for_rgb color = obind (convert_color color COLORS256) (\<lambda>i. index_u8 (16 + i))"

definition to_name_index :: "rgb_color \<Rightarrow> (unit, u8) outcome" where
  "to_name_index c = (case rgb_typ c of Named i \<Rightarrow> Ok i | Rgb c \<Rightarrow> term16_color_for_rgb c | _ \<Rightarrow> Panic)"

definition to_term256_index :: "rgb_color \<Rightarrow> (unit, u8) outcome" where
  "to_term256_index c = (case rgb_typ c of Rgb c \<Rightarrow> term256_color_for_rgb c | _ \<Rightarrow> Panic)"

definition to_color24 :: "rgb_color \<Rightarrow> (unit, color24) outcome" where
  "to_color24 c = (case rgb_typ c of Rgb c \<Rightarrow> Ok c | _ \<Rightarrow> Panic)"

end
