(* ===== verification/Fish_Color_Facts.thy ===== *)
theory Fish_Color_Facts
  imports Fish_Color
begin

text \<open>
  What the color module of fish does: the binary search finds the names of the table in any case, the
  hexadecimal colors are read back as they are printed, and the palettes give the first nearest color.
\<close>

section \<open>Comparison and search\<close>

lemma iter_cmp_order: "iter_cmp a b = (if a < b then Less else if a = b then Equal else Greater)"
  by (induction a b rule: iter_cmp.induct) auto

lemma sorted_cmp_nth:
  assumes "sorted (map f xs)" and "i \<le> j" and "j < length xs"
  shows "f (xs ! j) = Less \<Longrightarrow> f (xs ! i) = Less" "f (xs ! i) = Greater \<Longrightarrow> f (xs ! j) = Greater"
  using sorted_nth_mono [OF assms(1,2)] assms(2,3) by (auto simp: less_eq_cmp_def)

lemma halving_search_bound: "base + n \<le> length xs \<Longrightarrow> 0 < n \<Longrightarrow> halving_search f xs base n < length xs"
proof (induction n arbitrary: base rule: less_induct)
  case (less n)
  show ?case
  proof (cases "1 < n")
    case True
    then have "n - n div 2 < n" "0 < n - n div 2" by auto
    with less True show ?thesis by (subst halving_search.simps) (simp add: Let_def)
  qed (use less.prems in \<open>subst halving_search.simps, simp\<close>)
qed

lemma halving_search_finds:
  assumes f: "sorted (map f xs)" and j: "j < length xs" "f (xs ! j) = Equal"
  shows "base + n \<le> length xs \<Longrightarrow> 0 < n \<Longrightarrow> base = 0 \<or> f (xs ! base) \<noteq> Greater \<Longrightarrow> j < base + n \<Longrightarrow>
    halving_search f xs base n < length xs \<and> f (xs ! halving_search f xs base n) = Equal"
proof (induction n arbitrary: base rule: less_induct)
  case (less n)
  show ?case
  proof (cases "1 < n")
    case True
    let ?m = "base + n div 2"
    have m: "?m < length xs" and h: "n - n div 2 < n" "0 < n - n div 2" using True less.prems by auto
    show ?thesis
    proof (cases "f (xs ! ?m) = Greater")
      case g: True
      have "j < ?m"
      proof (rule ccontr)
        assume "\<not> j < ?m"
        with sorted_cmp_nth(2) [OF f _ j(1) g] j(2) show False by simp
      qed
      then have "j < base + (n - n div 2)" by linarith
      with less.IH [OF h(1), of base] less.prems h True g show ?thesis
        by (subst (1 2) halving_search.simps) (simp add: Let_def)
    next
      case False
      with less.IH [OF h(1), of ?m] less.prems h True show ?thesis
        by (subst (1 2) halving_search.simps) (simp add: Let_def)
    qed
  next
    case False
    with less.prems have n: "n = 1" by simp
    with less.prems have "j \<le> base" "base < length xs" by simp_all
    moreover have "f (xs ! base) \<noteq> Greater" using less.prems(3,4) n j(2) by auto
    moreover have "f (xs ! base) \<noteq> Less"
    proof
      assume "f (xs ! base) = Less"
      from sorted_cmp_nth(1) [OF f \<open>j \<le> base\<close> \<open>base < length xs\<close> this] j(2) show False by simp
    qed
    ultimately show ?thesis unfolding n by (subst (1 2) halving_search.simps) (cases "f (xs ! base)"; simp)
  qed
qed

lemma binary_search_by_finds:
  assumes "sorted (map f xs)" and "\<exists>x\<in>set xs. f x = Equal"
  shows "\<exists>i < length xs. binary_search_by f xs = Some i \<and> f (xs ! i) = Equal"
proof -
  from assms(2) obtain j where j: "j < length xs" "f (xs ! j) = Equal" by (auto simp: in_set_conv_nth)
  with halving_search_finds [OF assms(1) j, of 0 "length xs"] show ?thesis
    by (auto simp: binary_search_by_def Let_def)
qed

lemma binary_search_by_fails:
  assumes "\<forall>x\<in>set xs. f x \<noteq> Equal"
  shows "binary_search_by f xs = None"
  using assms halving_search_bound [of 0 "length xs" xs f] by (auto simp: binary_search_by_def Let_def)

section \<open>Named colors\<close>

definition lower :: "ustring \<Rightarrow> ustring" where
  "lower s = map to_ascii_lowercase s"

lemma icase_order:
  "simple_icase_compare a b = (if lower a < lower b then Less else if lower a = lower b then Equal else Greater)"
  by (simp add: simple_icase_compare_def lower_def iter_cmp_order)

lemma names_sorted: "sorted_wrt (\<lambda>a b. lower (nc_name a) < lower (nc_name b)) NAMED_COLORS"
  by code_simp

lemma names_lower: "list_all (\<lambda>c. lower (nc_name c) = nc_name c) NAMED_COLORS"
  by code_simp

definition color_table :: "(ustring \<times> u8) list" where
  \<comment> \<open>the names and their indices\<close>
  "color_table = map (\<lambda>c. (nc_name c, nc_idx c)) NAMED_COLORS"

lemma try_parse_named_eq:
  "try_parse_named s = map_option (\<lambda>i. \<lparr>rgb_typ = Named i, rgb_flags = 0\<rparr>) (map_of color_table (lower s))"
proof -
  let ?f = "\<lambda>c. simple_icase_compare (nc_name c) s"
  have eq: "?f c = Equal \<longleftrightarrow> nc_name c = lower s" if "c \<in> set NAMED_COLORS" for c
    using that names_lower by (auto simp: icase_order list_all_iff)
  have sorted: "sorted (map ?f NAMED_COLORS)" unfolding sorted_map
    by (rule sorted_wrt_mono_rel [OF _ names_sorted]) (auto simp: icase_order less_eq_cmp_def)
  have dist: "distinct (map fst color_table)"
  proof -
    have "sorted_wrt (<) (map nc_name NAMED_COLORS)"
      unfolding sorted_wrt_map by (rule sorted_wrt_mono_rel [OF _ names_sorted]) (use names_lower in \<open>auto simp: list_all_iff\<close>)
    then show ?thesis by (simp add: color_table_def o_def strict_sorted_iff)
  qed
  show ?thesis
  proof (cases "\<exists>c\<in>set NAMED_COLORS. nc_name c = lower s")
    case True
    with eq have "\<exists>c\<in>set NAMED_COLORS. ?f c = Equal" by auto
    from binary_search_by_finds [OF sorted this] obtain i where
      i: "i < length NAMED_COLORS" "binary_search_by ?f NAMED_COLORS = Some i" "?f (NAMED_COLORS ! i) = Equal" by auto
    then have "nc_name (NAMED_COLORS ! i) = lower s" using eq by simp
    with i(1) have "(lower s, nc_idx (NAMED_COLORS ! i)) \<in> set color_table"
      by (force simp: color_table_def in_set_conv_nth)
    with dist have "map_of color_table (lower s) = Some (nc_idx (NAMED_COLORS ! i))" by simp
    with i(2) show ?thesis by (simp add: try_parse_named_def)
  next
    case False
    then have "map_of color_table (lower s) = None" by (auto simp: map_of_eq_None_iff color_table_def)
    moreover have "binary_search_by ?f NAMED_COLORS = None"
      by (rule binary_search_by_fails) (use False eq in auto)
    ultimately show ?thesis by (simp add: try_parse_named_def)
  qed
qed

section \<open>Hexadecimal colors\<close>

definition hex_char :: "uchar \<Rightarrow> bool" where
  "hex_char c \<longleftrightarrow> digit_val 16 c \<noteq> None"

definition hex_val :: "uchar \<Rightarrow> u8" where
  "hex_val c = (case digit_val 16 c of Some d \<Rightarrow> of_nat d | None \<Rightarrow> 0)"

lemma hex_digits_eq: "hex_digits s = map hex_val (takeWhile hex_char s)"
  by (induction s) (auto simp: hex_char_def hex_val_def)

definition rgb_text :: "ustring \<Rightarrow> color24 option" where
  \<comment> \<open>the hexadecimal colors: three or six digits, after an optional number sign\<close>
  "rgb_text s =
     (let t = (if s \<noteq> [] \<and> hd s = 35 then tl s else s) in
      if \<not> list_all hex_char t then None
      else case t of
        [r, g, b] \<Rightarrow> Some \<lparr>c24_r = hex_val r * 17, c24_g = hex_val g * 17, c24_b = hex_val b * 17\<rparr>
      | [r1, r0, g1, g0, b1, b0] \<Rightarrow>
          Some \<lparr>c24_r = hex_val r1 * 16 + hex_val r0, c24_g = hex_val g1 * 16 + hex_val g0, c24_b = hex_val b1 * 16 + hex_val b0\<rparr>
      | _ \<Rightarrow> None)"

lemma length_3: "length s = 3 \<longleftrightarrow> (\<exists>a b c. s = [a, b, c])"
  by (auto simp: numeral_3_eq_3 length_Suc_conv)

lemma length_6: "length s = 6 \<longleftrightarrow> (\<exists>a b c d e f. s = [a, b, c, d, e, f])"
  by (auto simp: eval_nat_numeral length_Suc_conv)

lemma try_parse_rgb_eq: "try_parse_rgb s = map_option (\<lambda>c. plain_color (Rgb c)) (rgb_text s)"
proof (cases s)
  case (Cons c cs)
  let ?t = "if c = 35 then cs else s"
  have t: "(if s \<noteq> [] \<and> hd s = 35 then tl s else s) = ?t" using Cons by simp
  have w: "d * 16 + d = d * 17" for d :: u8 by simp
  consider (three) "length ?t = 3" | (six) "length ?t = 6" | (other) "length ?t \<noteq> 3" "length ?t \<noteq> 6" by blast
  then show ?thesis
  proof cases
    case three
    then obtain x y z where e: "?t = [x, y, z]" unfolding length_3 by blast
    then have "try_parse_rgb s =
        (case hex_digits [x, y, z] of r # g # b # _ \<Rightarrow> Some (from_rgb (r * 16 + r) (g * 16 + g) (b * 16 + b)) | _ \<Rightarrow> None)"
      unfolding try_parse_rgb_def Cons by (simp add: Let_def Cons)
    then show ?thesis unfolding rgb_text_def Let_def t e by (simp add: hex_digits_eq from_rgb_def w)
  next
    case six
    then obtain u v x y z w where e: "?t = [u, v, x, y, z, w]" unfolding length_6 by blast
    then have "try_parse_rgb s =
        (case hex_digits [u, v, x, y, z, w] of
           r1 # r0 # g1 # g0 # b1 # b0 # _ \<Rightarrow> Some (from_rgb (r1 * 16 + r0) (g1 * 16 + g0) (b1 * 16 + b0))
         | _ \<Rightarrow> None)"
      unfolding try_parse_rgb_def Cons by (simp add: Let_def Cons)
    then show ?thesis unfolding rgb_text_def Let_def t e by (simp add: hex_digits_eq from_rgb_def)
  next
    case other
    then have "try_parse_rgb s = None" by (cases "c = 35") (simp_all add: try_parse_rgb_def Cons Let_def)
    with other show ?thesis unfolding rgb_text_def Let_def t by (auto split: list.splits)
  qed
qed (simp add: try_parse_rgb_def rgb_text_def)

definition color_text :: "ustring \<Rightarrow> rgb_color option" where
  \<comment> \<open>the colors that texts denote\<close>
  "color_text s =
     (if lower s = ustr ''normal'' then Some NORMAL
      else if lower s = ustr ''reset'' then Some RESET
      else case map_of color_table (lower s) of
        Some i \<Rightarrow> Some (plain_color (Named i))
      | None \<Rightarrow> map_option (\<lambda>c. plain_color (Rgb c)) (rgb_text s))"

lemma try_parse_special_eq:
  "try_parse_special s = (if lower s = ustr ''normal'' then Some NORMAL else if lower s = ustr ''reset'' then Some RESET else None)"
proof -
  have "lower (ustr ''normal'') = ustr ''normal''" "lower (ustr ''reset'') = ustr ''reset''" by code_simp+
  then show ?thesis by (simp add: try_parse_special_def icase_order NORMAL_def RESET_def plain_color_def DEFAULT_def)
qed

text \<open>
  C30. Which texts are colors. \<open>from_wstr\<close> accepts in any case exactly the two special names, the names of
  the table, which its binary search finds with their index, and three or six hexadecimal digits
  after an optional number sign, each single digit standing for itself twice.
\<close>

theorem color_from_wstr: "from_wstr s = color_text s"
  by (simp add: from_wstr_def color_text_def try_parse_special_eq try_parse_named_eq try_parse_rgb_eq plain_color_def
      DEFAULT_def split: option.splits)

section \<open>Printing\<close>

definition hex2 :: "u8 \<Rightarrow> ustring" where
  \<comment> \<open>\<open>{:02x}\<close>\<close>
  "hex2 b = (let d = (\<lambda>n :: nat. if n < 10 then 48 + n else 87 + n) in [d (unat b div 16), d (unat b mod 16)])"

lemma hex2_digits:
  "list_all hex_char (hex2 b)" "\<exists>x y. hex2 b = [x, y] \<and> hex_val x * 16 + hex_val y = b"
proof -
  have b: "unat b div 16 < 16" "unat b mod 16 < 16" using unat_u8_less [of b] by simp_all
  let ?d = "\<lambda>n :: nat. if n < 10 then 48 + n else 87 + n"
  have d: "digit_val 16 (?d n) = Some n" if "n < 16" for n using that by (simp add: digit_val_def)
  have h: "hex2 b = [?d (unat b div 16), ?d (unat b mod 16)]" by (simp add: hex2_def)
  show "list_all hex_char (hex2 b)" unfolding h using d [OF b(1)] d [OF b(2)] by (simp add: hex_char_def)
  have "of_nat (unat b div 16 * 16 + unat b mod 16) = b" unfolding div_mult_mod_eq by simp
  then have "(of_nat (unat b div 16) :: u8) * 16 + of_nat (unat b mod 16) = b"
    by (simp only: of_nat_add of_nat_mult of_nat_numeral)
  then show "\<exists>x y. hex2 b = [x, y] \<and> hex_val x * 16 + hex_val y = b"
    unfolding h hex_val_def using d [OF b(1)] d [OF b(2)] by auto
qed

lemma hex_not_named:
  assumes "list_all hex_char s"
  shows "lower s \<noteq> ustr ''normal''" "lower s \<noteq> ustr ''reset''" "map_of color_table (lower s) = None"
proof -
  have hex: "hex_char (to_ascii_lowercase c) = hex_char c" for c
    by (auto simp: hex_char_def digit_val_def to_ascii_lowercase_def)
  then have l: "list_all hex_char (lower s)" using assms by (simp add: lower_def list_all_length)
  have "\<not> list_all hex_char (ustr ''normal'')" "\<not> list_all hex_char (ustr ''reset'')" by code_simp+
  with l show "lower s \<noteq> ustr ''normal''" "lower s \<noteq> ustr ''reset''" by metis+
  have "list_all (\<lambda>n. \<not> list_all hex_char (fst n)) color_table" by code_simp
  with l show "map_of color_table (lower s) = None" by (force simp: map_of_eq_None_iff list_all_iff [of _ color_table])
qed

lemma hash_not_named: "map_of color_table (35 # t) = None"
proof (rule ccontr)
  assume "map_of color_table (35 # t) \<noteq> None"
  then obtain v where "(35 # t, v) \<in> set color_table" by (auto dest: map_of_SomeD)
  moreover have "list_all (\<lambda>n. hd (fst n) \<noteq> 35) color_table" by code_simp
  ultimately show False by (auto simp: list_all_iff)
qed

lemma upper_hex:
  assumes "hex_char c"
  shows "hex_char (if 97 \<le> c then c - 32 else c)" "hex_val (if 97 \<le> c then c - 32 else c) = hex_val c"
proof -
  from assms consider "c \<le> 70" | "97 \<le> c" "c \<le> 102" by (auto simp: hex_char_def digit_val_def split: if_splits)
  then have "digit_val 16 (if 97 \<le> c then c - 32 else c) = digit_val 16 c"
  proof cases
    case 2
    then obtain d where "c = 97 + d" "d \<le> 5" using le_Suc_ex [of 97 c] by auto
    then show ?thesis by (simp add: digit_val_def)
  qed simp
  with assms show "hex_char (if 97 \<le> c then c - 32 else c)" "hex_val (if 97 \<le> c then c - 32 else c) = hex_val c"
    by (simp_all only: hex_char_def hex_val_def not_False_eq_True)
qed

lemma rgb_text_6:
  assumes "hex_char r1" "hex_char r0" "hex_char g1" "hex_char g0" "hex_char b1" "hex_char b0"
  shows "rgb_text [r1, r0, g1, g0, b1, b0] = Some \<lparr>c24_r = hex_val r1 * 16 + hex_val r0,
      c24_g = hex_val g1 * 16 + hex_val g0, c24_b = hex_val b1 * 16 + hex_val b0\<rparr>" (is ?one)
    and "rgb_text (35 # [r1, r0, g1, g0, b1, b0]) = Some \<lparr>c24_r = hex_val r1 * 16 + hex_val r0,
      c24_g = hex_val g1 * 16 + hex_val g0, c24_b = hex_val b1 * 16 + hex_val b0\<rparr>" (is ?two)
proof -
  have "r1 \<noteq> 35" using assms(1) by (auto simp: hex_char_def digit_val_def)
  with assms show ?one ?two by (simp_all add: rgb_text_def)
qed

text \<open>
  Printed colors are read back.  The six hexadecimal digits of any RGB color, with or without a
  number sign, in lower or upper case, parse as that color: no name of the table gets in the way
  and no digit is lost.
\<close>

theorem color_hex_roundtrip:
  "from_wstr (hex2 r @ hex2 g @ hex2 b) = Some (from_rgb r g b) \<and>
   from_wstr (35 # hex2 r @ hex2 g @ hex2 b) = Some (from_rgb r g b) \<and>
   from_wstr (map (\<lambda>c. if 97 \<le> c then c - 32 else c) (hex2 r @ hex2 g @ hex2 b)) = Some (from_rgb r g b)"
proof -
  let ?up = "\<lambda>c :: nat. if 97 \<le> c then c - 32 else c"
  obtain r1 r0 g1 g0 b1 b0 where t: "hex2 r = [r1, r0]" "hex2 g = [g1, g0]" "hex2 b = [b1, b0]"
    "hex_val r1 * 16 + hex_val r0 = r" "hex_val g1 * 16 + hex_val g0 = g" "hex_val b1 * 16 + hex_val b0 = b"
    using hex2_digits(2) by metis
  let ?s = "[r1, r0, g1, g0, b1, b0]"
  have h: "list_all hex_char ?s" using hex2_digits(1) [of r] hex2_digits(1) [of g] hex2_digits(1) [of b] t by simp
  have s: "hex2 r @ hex2 g @ hex2 b = ?s" using t by simp
  have hs: "hex_char r1" "hex_char r0" "hex_char g1" "hex_char g0" "hex_char b1" "hex_char b0" using h by simp_all
  have U: "list_all hex_char (map ?up ?s)" using hs by (simp only: upper_hex(1) list.map list.pred_inject simp_thms)
  note 1 = rgb_text_6 [OF hs, unfolded t(4-6)]
  have 2: "rgb_text (map ?up ?s) = Some \<lparr>c24_r = r, c24_g = g, c24_b = b\<rparr>"
    using rgb_text_6(1) [of "?up r1" "?up r0" "?up g1" "?up g0" "?up b1" "?up b0"] hs t(4-6)
    by (simp only: upper_hex list.map)
  have 3: "lower (35 # ?s) \<noteq> ustr ''normal''" "lower (35 # ?s) \<noteq> ustr ''reset''" "map_of color_table (lower (35 # ?s)) = None"
    by (simp_all add: lower_def to_ascii_lowercase_def hash_not_named)
  have c: "color_text x = Some (from_rgb r g b)"
    if "lower x \<noteq> ustr ''normal''" "lower x \<noteq> ustr ''reset''" "map_of color_table (lower x) = None"
      "rgb_text x = Some \<lparr>c24_r = r, c24_g = g, c24_b = b\<rparr>" for x
    using that by (simp only: color_text_def from_rgb_def if_False option.case option.map)
  show ?thesis unfolding s color_from_wstr
    using c [OF hex_not_named [OF h] 1(1)] c [OF 3 1(2)] c [OF hex_not_named [OF U] 2] by blast
qed

section \<open>Palettes\<close>

definition sqdiff :: "u8 \<Rightarrow> u8 \<Rightarrow> nat" where
  "sqdiff a b = (if unat a < unat b then unat b - unat a else unat a - unat b) ^ 2"

definition distance :: "color24 \<Rightarrow> color24 \<Rightarrow> nat" where
  \<comment> \<open>the square of the Euclidean distance\<close>
  "distance c d = sqdiff (c24_r c) (c24_r d) + sqdiff (c24_g c) (c24_g d) + sqdiff (c24_b c) (c24_b d)"

lemma sqdiff_bound: "sqdiff a b \<le> 255 ^ 2"
  unfolding sqdiff_def by (rule power_mono) (use unat_u8_less [of a] unat_u8_less [of b] in auto)

lemma unat_squared_difference: "unat (squared_difference a b) = sqdiff a b"
proof -
  let ?a = "ucast a :: u32" and ?b = "ucast b :: u32"
  define d where "d = (if ?a < ?b then ?b - ?a else ?a - ?b)"
  have u: "unat ?a = unat a" "unat ?b = unat b" 
    using unat_u8_less [of a] unat_u8_less [of b] by (simp_all add: unsigned_ucast_eq take_bit_nat_eq_self)
  have d: "unat d = (if unat a < unat b then unat b - unat a else unat a - unat b)"
    using u by (auto simp: d_def word_less_nat_alt unat_sub word_le_nat_alt)
  then have e: "unat d * unat d = sqdiff a b" by (simp add: sqdiff_def power2_eq_square)
  have "unat d * unat d < 2 ^ 32" unfolding e using sqdiff_bound [of a b] by simp
  then have "unat (d * d) = unat d * unat d" by (simp add: unat_word_ariths)
  then show ?thesis unfolding e by (simp add: squared_difference_def Let_def d_def)
qed

lemma unat_color_distance: "unat (color_distance c d) = distance c d"
proof -
  let ?r = "squared_difference (c24_r c) (c24_r d)" and ?g = "squared_difference (c24_g c) (c24_g d)"
    and ?b = "squared_difference (c24_b c) (c24_b d)"
  have b: "unat (squared_difference x y) \<le> 65025" for x y
    unfolding unat_squared_difference using sqdiff_bound [of x y] by simp
  have s: "unat ?r + unat ?g + unat ?b < 2 ^ 32"
    using b [of "c24_r c" "c24_r d"] b [of "c24_g c" "c24_g d"] b [of "c24_b c" "c24_b d"] by simp
  then have "unat (?r + ?g) = unat ?r + unat ?g" by (simp add: unat_word_ariths)
  with s have "unat (?r + ?g + ?b) = unat ?r + unat ?g + unat ?b" by (simp add: unat_word_ariths)
  then show ?thesis by (simp add: color_distance_def distance_def unat_squared_difference)
qed

lemma distance_0: "distance c d = 0 \<longleftrightarrow> c = d"
proof -
  have "sqdiff a b = 0 \<longleftrightarrow> a = b" for a b by (auto simp: sqdiff_def word_unat_eq_iff split: if_splits)
  then show ?thesis by (cases c; cases d) (auto simp: distance_def)
qed

definition color_of :: "u32 \<Rightarrow> color24" where
  "color_of x = \<lparr>c24_r = ucast (drop_bit 16 x), c24_g = ucast (drop_bit 8 x), c24_b = ucast x\<rparr>"

lemma color_of_inj:
  assumes "drop_bit 24 x = (0 :: u32)" and "drop_bit 24 y = 0" and "color_of x = color_of y"
  shows "x = y"
proof (rule bit_word_eqI)
  fix n assume "n < LENGTH(32)"
  have r: "bit (ucast (drop_bit k z) :: u8) j = bit z (k + j)" if "j < 8" for k j and z :: u32
    using that by (simp add: bit_ucast_iff bit_drop_bit_eq)
  have hi: "bit z n = bit (drop_bit 24 z) (n - 24)" if "24 \<le> n" for z :: u32
    using that by (simp add: bit_drop_bit_eq)
  from assms(3) have e: "(ucast (drop_bit 16 x) :: u8) = ucast (drop_bit 16 y)"
    "(ucast (drop_bit 8 x) :: u8) = ucast (drop_bit 8 y)" "(ucast (drop_bit 0 x) :: u8) = ucast (drop_bit 0 y)"
    by (simp_all add: color_of_def)
  consider "n < 8" | "8 \<le> n" "n < 16" | "16 \<le> n" "n < 24" | "24 \<le> n" by linarith
  then show "bit x n = bit y n"
  proof cases
    case 1
    then show ?thesis using r [where j = n and k = 0 and z = x] r [where j = n and k = 0 and z = y] e(3) by simp
  next
    case 2
    then show ?thesis using r [where j = "n - 8" and k = 8 and z = x] r [where j = "n - 8" and k = 8 and z = y] e(2) by simp
  next
    case 3
    then show ?thesis using r [where j = "n - 16" and k = 16 and z = x] r [where j = "n - 16" and k = 16 and z = y] e(1) by simp
  next
    case 4
    then show ?thesis using hi [of x] hi [of y] assms(1,2) by simp
  qed
qed

definition first_nearest :: "color24 \<Rightarrow> u32 list \<Rightarrow> nat \<Rightarrow> bool" where
  "first_nearest c xs k \<longleftrightarrow>
     k < length xs \<and> (\<forall>j<length xs. distance (color_of (xs ! k)) c \<le> distance (color_of (xs ! j)) c) \<and>
     (\<forall>j<k. distance (color_of (xs ! k)) c < distance (color_of (xs ! j)) c)"

lemma first_nearest_snoc:
  assumes "first_nearest c ys j"
  shows "first_nearest c (ys @ [x])
    (if distance (color_of x) c < distance (color_of (ys ! j)) c then length ys else j)"
  using assms by (auto simp: first_nearest_def nth_append less_Suc_eq intro: less_le_trans)

lemma min_by_distance_nearest:
  assumes "list_all (\<lambda>x. drop_bit 24 x = 0) xs" and "first_nearest c ys j"
  shows "\<exists>k. min_by_distance c (length ys) (Some (j, color_distance (color_of (ys ! j)) c)) xs = Ok k \<and>
    first_nearest c (ys @ xs) k"
  using assms
proof (induction xs arbitrary: ys j)
  case (Cons x xs)
  let ?d = "color_distance (color_of x) c" and ?e = "color_distance (color_of (ys ! j)) c"
  let ?j = "if ?d < ?e then length ys else j"
  have f: "from_bits x = Ok (color_of x)" using Cons.prems by (simp add: from_bits_def color_of_def)
  have lt: "?d < ?e \<longleftrightarrow> distance (color_of x) c < distance (color_of (ys ! j)) c"
    by (simp add: word_less_nat_alt unat_color_distance)
  have s: "first_nearest c (ys @ [x]) ?j" unfolding lt by (rule first_nearest_snoc [OF Cons.prems(2)])
  have "j < length ys" using Cons.prems(2) by (simp add: first_nearest_def)
  then have b: "(if ?d < ?e then Some (length ys, ?d) else Some (j, ?e)) =
      Some (?j, color_distance (color_of ((ys @ [x]) ! ?j)) c)" by (simp add: nth_append)
  from Cons.IH [OF _ s] Cons.prems(1) show ?case by (simp add: f Let_def b del: if_split cong del: if_cong)
qed simp

lemma convert_color_nearest:
  assumes "list_all (\<lambda>x. drop_bit 24 x = 0) xs" and "xs \<noteq> []"
  shows "\<exists>k. convert_color c xs = Ok k \<and> first_nearest c xs k"
proof (cases xs)
  case (Cons x ys)
  have "first_nearest c [x] 0" by (simp add: first_nearest_def)
  from min_by_distance_nearest [OF _ this, of ys] assms(1) Cons show ?thesis
    by (auto simp: convert_color_def from_bits_def color_of_def)
qed (use assms in simp)

lemma palettes_ok: "list_all (\<lambda>x. drop_bit 24 x = 0) COLORS16" "list_all (\<lambda>x. drop_bit 24 x = 0) COLORS256"
  by code_simp+

lemma length_palettes: "length COLORS16 = 16" "length COLORS256 = 240"
  by code_simp+

fun ascending :: "u32 list \<Rightarrow> bool" where
  "ascending (x # y # zs) = (x < y \<and> ascending (y # zs))"
| "ascending _ = True"

lemma ascending_distinct: "ascending xs \<Longrightarrow> distinct xs"
proof -
  assume "ascending xs"
  then have "sorted_wrt (<) xs"
    by (induction xs rule: ascending.induct) (auto intro: order.strict_trans)
  then show ?thesis by (simp add: strict_sorted_iff)
qed

text \<open>The last 24 colors of the large palette are shades of grey that are not in the cube before them.\<close>

lemma distinct_palettes: "distinct COLORS16" "distinct COLORS256"
proof -
  let ?cube = "take 216 COLORS256" and ?grey = "drop 216 COLORS256"
  have "list_all (\<lambda>x. x mod 256 mod 5 = 0) ?cube" "list_all (\<lambda>x. x mod 256 mod 5 = 3) ?grey" by code_simp+
  then have "x \<noteq> y" if "x \<in> set ?cube" "y \<in> set ?grey" for x y
    using that unfolding list_all_iff by fastforce
  moreover have "ascending ?cube" "ascending ?grey" by code_simp+
  ultimately have "distinct (?cube @ ?grey)"
    unfolding distinct_append by (blast dest: ascending_distinct)
  then show "distinct COLORS256" by simp
qed code_simp

lemma index_u8_Ok: "n < 256 \<Longrightarrow> index_u8 n = Ok (of_nat n)"
  by (simp add: index_u8_def)

lemma term16_nearest:
  "\<exists>k. term16_color_for_rgb c = Ok (of_nat k) \<and> first_nearest c COLORS16 k"
proof -
  have "COLORS16 \<noteq> []" using length_palettes by auto
  from convert_color_nearest [OF palettes_ok(1) this] obtain k where
    k: "convert_color c COLORS16 = Ok k" "first_nearest c COLORS16 k" by blast
  then have "k < 256" using length_palettes(1) by (simp add: first_nearest_def)
  from index_u8_Ok [OF this] k show ?thesis by (auto simp: term16_color_for_rgb_def)
qed

lemma term256_nearest:
  "\<exists>k. term256_color_for_rgb c = Ok (of_nat (16 + k)) \<and> first_nearest c COLORS256 k"
proof -
  have "COLORS256 \<noteq> []" using length_palettes by auto
  from convert_color_nearest [OF palettes_ok(2) this] obtain k where
    k: "convert_color c COLORS256 = Ok k" "first_nearest c COLORS256 k" by blast
  then have "16 + k < 256" using length_palettes(2) by (simp add: first_nearest_def)
  from index_u8_Ok [OF this] k show ?thesis by (auto simp: term256_color_for_rgb_def)
qed

lemma nearest_self:
  assumes "first_nearest (color_of (xs ! i)) xs k" and "i < length xs"
    and "list_all (\<lambda>x. drop_bit 24 x = 0) xs" and "distinct xs"
  shows "k = i"
proof -
  have k: "k < length xs" "distance (color_of (xs ! k)) (color_of (xs ! i)) = 0"
  proof -
    have "distance (color_of (xs ! i)) (color_of (xs ! i)) = 0" by (simp only: distance_0)
    with assms(1,2) show "k < length xs" "distance (color_of (xs ! k)) (color_of (xs ! i)) = 0"
      unfolding first_nearest_def by force+
  qed
  have z: "drop_bit 24 (xs ! j) = 0" if "j < length xs" for j using assms(3) that by (simp add: list_all_length)
  have "color_of (xs ! k) = color_of (xs ! i)" using k(2) by (simp only: distance_0)
  from color_of_inj [OF z [OF k(1)] z [OF assms(2)] this] show ?thesis using assms(2,4) k(1) by (simp add: nth_eq_iff_index_eq)
qed

text \<open>
  C31. The conversions to the palettes never panic and give the nearest color: the index of the first
  color of the 16, or of the 240 behind the first 16, whose squared distance, computed without
  overflow, is minimal.
\<close>

theorem color_nearest:
  "(\<exists>k. to_name_index (from_rgb r g b) = Ok (of_nat k) \<and> first_nearest \<lparr>c24_r = r, c24_g = g, c24_b = b\<rparr> COLORS16 k) \<and>
   (\<exists>k. to_term256_index (from_rgb r g b) = Ok (of_nat (16 + k)) \<and>
     first_nearest \<lparr>c24_r = r, c24_g = g, c24_b = b\<rparr> COLORS256 k)"
  using term16_nearest term256_nearest
  by (simp add: to_name_index_def to_term256_index_def from_rgb_def plain_color_def)

text \<open>
  A color of a palette is converted to itself: no two indices share a color.
\<close>

theorem color_palette_fixed:
  assumes "i < 240"
  shows "to_term256_index (plain_color (Rgb (color_of (COLORS256 ! i)))) = Ok (of_nat (16 + i)) \<and>
    (i < 16 \<longrightarrow> to_name_index (plain_color (Rgb (color_of (COLORS16 ! i)))) = Ok (of_nat i))"
proof -
  note self = nearest_self [OF _ _ palettes_ok(1) distinct_palettes(1)] nearest_self [OF _ _ palettes_ok(2) distinct_palettes(2)]
  have "term256_color_for_rgb (color_of (COLORS256 ! i)) = Ok (of_nat (16 + i))"
    using term256_nearest [of "color_of (COLORS256 ! i)"] self(2) assms length_palettes(2) by metis
  moreover have "term16_color_for_rgb (color_of (COLORS16 ! i)) = Ok (of_nat i)" if "i < 16"
    using term16_nearest [of "color_of (COLORS16 ! i)"] self(1) that length_palettes(1) by metis
  ultimately show ?thesis by (simp add: to_term256_index_def to_name_index_def plain_color_def)
qed

theorem color_palette_fixed_witness:
  "to_term256_index (from_rgb 0 95 175) = Ok 25"
proof -
  have "color_of (COLORS256 ! 9) = \<lparr>c24_r = 0, c24_g = 95, c24_b = 175\<rparr>" by code_simp
  with color_palette_fixed [of 9] show ?thesis by (simp add: from_rgb_def)
qed

end
