(* ===== verification/Fish_Timer.thy ===== *)
theory Fish_Timer
  imports Io_Writer
begin

text \<open>
  The \<open>time\<close> decorator of fish (\<open>src/04-fish-shell/rust-rewrite/timer/timer.rs\<close>): the difference of two
  snapshots of the clocks as a text, and the guard that prints it when it is dropped. Durations and
  instants are nanoseconds. The conversion of a \<open>timeval\<close> (\<open>crate::nix\<close>) and the texts of floating point
  values (\<open>{:6.2}\<close> of \<open>convert_micros\<close>) are parameters.
\<close>

section \<open>Durations\<close>

type_synonym duration = nat
type_synonym i64 = int

definition duration_limit :: nat where
  \<comment> \<open>\<open>Duration::MAX\<close> and one nanosecond\<close>
  "duration_limit = 2 ^ 64 * 10 ^ 9"

definition duration_sub :: "duration \<Rightarrow> duration \<Rightarrow> (unit, duration) outcome" where
  "duration_sub a b = (if a < b then Panic else Ok (a - b))"

definition duration_add :: "duration \<Rightarrow> duration \<Rightarrow> (unit, duration) outcome" where
  "duration_add a b = (if a + b < duration_limit then Ok (a + b) else Panic)"

definition micros :: "duration \<Rightarrow> i64" where
  \<comment> \<open>\<open>as_micros() as i64\<close>\<close>
  "micros d = sint (of_nat (d div 1000) :: 64 word)"

section \<open>Units\<close>

datatype timer_unit = Minutes | Seconds | Millis | Micros

definition for_micros :: "i64 \<Rightarrow> timer_unit" where
  "for_micros n =
     (if 900000001 \<le> n then Minutes else if 999995 \<le> n then Seconds else if 1000 \<le> n then Millis else Micros)"

definition short_name :: "timer_unit \<Rightarrow> ustring" where
  "short_name u = (case u of Minutes \<Rightarrow> ustr ''mins'' | Seconds \<Rightarrow> ustr ''secs''
     | Millis \<Rightarrow> ustr ''millis'' | Micros \<Rightarrow> ustr ''micros'')"

definition long_name :: "timer_unit \<Rightarrow> ustring" where
  "long_name u = (case u of Minutes \<Rightarrow> ustr ''minutes'' | Seconds \<Rightarrow> ustr ''seconds''
     | Millis \<Rightarrow> ustr ''milliseconds'' | Micros \<Rightarrow> ustr ''microseconds'')"

definition unit_micros :: "timer_unit \<Rightarrow> int" where
  \<comment> \<open>the divisor of \<open>convert_micros\<close>\<close>
  "unit_micros u = (case u of Minutes \<Rightarrow> 60000000 | Seconds \<Rightarrow> 1000000 | Millis \<Rightarrow> 1000 | Micros \<Rightarrow> 1)"

section \<open>Snapshots\<close>

record timeval =
  tv_sec :: int
  tv_usec :: int

record rusage =
  ru_utime :: timeval
  ru_stime :: timeval

datatype rusage_who = RSelf | RChildren

definition getrusage :: "(rusage_who \<Rightarrow> int \<times> rusage) \<Rightarrow> rusage_who \<Rightarrow> rusage" where
  \<comment> \<open>the system call gives its result and what it wrote\<close>
  "getrusage sys resource =
     (case sys resource of (result, r) \<Rightarrow>
        if result = 0 then r
        else (let z = \<lparr>tv_sec = 0, tv_usec = 0\<rparr> in \<lparr>ru_utime = z, ru_stime = z\<rparr>))"

record timer_snapshot =
  wall_time :: nat
  cpu_fish :: rusage
  cpu_children :: rusage

definition snapshot_take :: "(rusage_who \<Rightarrow> int \<times> rusage) \<Rightarrow> nat \<Rightarrow> timer_snapshot" where
  \<comment> \<open>at the instant \<open>now\<close>\<close>
  "snapshot_take sys now =
     \<lparr>wall_time = now, cpu_fish = getrusage sys RSelf, cpu_children = getrusage sys RChildren\<rparr>"

section \<open>The difference\<close>

definition pad_to :: "nat \<Rightarrow> ustring \<Rightarrow> ustring" where
  \<comment> \<open>\<open>{:<width$}\<close>\<close>
  "pad_to width s = s @ replicate (width - length s) 32"

record cpu_times =
  fish_sys :: duration
  fish_usr :: duration
  child_sys :: duration
  child_usr :: duration

definition cpu_difference ::
  "(timeval \<Rightarrow> duration) \<Rightarrow> timer_snapshot \<Rightarrow> timer_snapshot \<Rightarrow> (unit, cpu_times) outcome" where
  \<comment> \<open>the subtractions, and the comparison with zero after them\<close>
  "cpu_difference conv t1 t2 =
     obind (duration_sub (conv (ru_stime (cpu_fish t2))) (conv (ru_stime (cpu_fish t1)))) (\<lambda>fs.
     obind (duration_sub (conv (ru_utime (cpu_fish t2))) (conv (ru_utime (cpu_fish t1)))) (\<lambda>fu.
     obind (duration_sub (conv (ru_stime (cpu_children t2))) (conv (ru_stime (cpu_children t1)))) (\<lambda>cs.
     obind (duration_sub (conv (ru_utime (cpu_children t2))) (conv (ru_utime (cpu_children t1)))) (\<lambda>cu.
       Ok \<lparr>fish_sys = max fs 0, fish_usr = max fu 0, child_sys = max cs 0, child_usr = max cu 0\<rparr>))))"

definition brief_text :: "(timer_unit \<Rightarrow> i64 \<Rightarrow> ustring) \<Rightarrow> i64 \<Rightarrow> i64 \<Rightarrow> i64 \<Rightarrow> ustring" where
  "brief_text shown wall sys usr =
     (let wall_unit = for_micros wall; cpu_unit = for_micros (max sys usr) in
      [10] @ replicate 31 95 @
      [10] @ ustr ''Executed in  '' @ shown wall_unit wall @ [32] @ long_name wall_unit @
      [10] @ ustr ''   usr time  '' @ shown cpu_unit usr @ [32] @ long_name cpu_unit @
      [10] @ ustr ''   sys time  '' @ shown cpu_unit sys @ [32] @ long_name cpu_unit)"

definition cpu_line ::
  "(timer_unit \<Rightarrow> i64 \<Rightarrow> ustring) \<Rightarrow> ustring \<Rightarrow> nat \<Rightarrow> timer_unit \<times> i64 \<Rightarrow> timer_unit \<times> i64 \<Rightarrow> timer_unit \<times> i64 \<Rightarrow> ustring" where
  "cpu_line shown label width cpu fish child =
     label @ shown (fst cpu) (snd cpu) @ [32] @ pad_to width (short_name (fst cpu)) @ [32, 32] @
     shown (fst fish) (snd fish) @ [32] @ short_name (fst fish) @ [32, 32] @
     shown (fst child) (snd child) @ [32] @ short_name (fst child)"

definition verbose_lines ::
  "(timer_unit \<Rightarrow> i64 \<Rightarrow> ustring) \<Rightarrow> i64 \<Rightarrow> i64 \<Rightarrow> i64 \<Rightarrow> cpu_times \<Rightarrow> ustring list" where
  "verbose_lines shown wall sys usr c =
     (let wall_unit = for_micros wall; cpu_unit = for_micros (max sys usr);
          fish_unit = for_micros (micros (max (fish_sys c) (fish_usr c)));
          child_unit = for_micros (micros (max (child_sys c) (child_usr c)));
          w = max (length (short_name wall_unit)) (length (short_name cpu_unit)) in
      [replicate 56 95,
       ustr ''Executed in  '' @ shown wall_unit wall @ [32] @ pad_to w (short_name wall_unit) @ replicate 4 32 @
         pad_to (length (short_name fish_unit) + 7) (ustr ''fish'') @ [32, 32] @ ustr ''external'',
       cpu_line shown (ustr ''   usr time  '') w (cpu_unit, usr)
         (fish_unit, micros (fish_usr c)) (child_unit, micros (child_usr c)),
       cpu_line shown (ustr ''   sys time  '') w (cpu_unit, sys)
         (fish_unit, micros (fish_sys c)) (child_unit, micros (child_sys c))])"

definition get_delta ::
  "(timeval \<Rightarrow> duration) \<Rightarrow> (timer_unit \<Rightarrow> i64 \<Rightarrow> ustring) \<Rightarrow> timer_snapshot \<Rightarrow> timer_snapshot \<Rightarrow> bool
     \<Rightarrow> (unit, ustring) outcome" where
  \<comment> \<open>the difference of instants saturates at zero\<close>
  "get_delta conv shown t1 t2 verbose =
     obind (cpu_difference conv t1 t2) (\<lambda>c.
     obind (duration_add (fish_sys c) (child_sys c)) (\<lambda>net_sys.
     obind (duration_add (fish_usr c) (child_usr c)) (\<lambda>net_usr.
       let wall = micros (wall_time t2 - wall_time t1); sys = micros net_sys; usr = micros net_usr in
       Ok ((if \<not> verbose then brief_text shown wall sys usr
            else concat (map (\<lambda>l. 10 # l) (verbose_lines shown wall sys usr c))) @ [10]))))"

section \<open>The guard\<close>

record print_elapsed_on_drop =
  start :: timer_snapshot

definition push_timer :: "(rusage_who \<Rightarrow> int \<times> rusage) \<Rightarrow> nat \<Rightarrow> print_elapsed_on_drop" where
  "push_timer sys now = \<lparr>start = snapshot_take sys now\<rparr>"

definition timer_drop ::
  "(timeval \<Rightarrow> duration) \<Rightarrow> (timer_unit \<Rightarrow> i64 \<Rightarrow> ustring) \<Rightarrow> 'w writer \<Rightarrow> (ustring \<Rightarrow> bytes) \<Rightarrow>
   (rusage_who \<Rightarrow> int \<times> rusage) \<Rightarrow> nat \<Rightarrow> print_elapsed_on_drop \<Rightarrow> 'w \<Rightarrow> 'w \<times> (unit, unit) outcome" where
  \<comment> \<open>with \<open>as_bytes\<close> of a string; failures to write are ignored\<close>
  "timer_drop conv shown W as_bytes sys now g w =
     (case get_delta conv shown (start g) (snapshot_take sys now) True of
        Ok text \<Rightarrow> (fst (write_all W (fst (write_all W w (as_bytes text))) [10]), Ok ())
      | Panic \<Rightarrow> (w, Panic) | Err e \<Rightarrow> (w, Err e) | Diverge \<Rightarrow> (w, Diverge))"

section \<open>What the texts show\<close>

definition backwards :: "(timeval \<Rightarrow> duration) \<Rightarrow> rusage \<Rightarrow> rusage \<Rightarrow> bool" where
  \<comment> \<open>a processor time of the second measurement is less than in the first\<close>
  "backwards conv r1 r2 \<longleftrightarrow> conv (ru_stime r2) < conv (ru_stime r1) \<or> conv (ru_utime r2) < conv (ru_utime r1)"

definition cpu_total :: "(timeval \<Rightarrow> duration) \<Rightarrow> (rusage \<Rightarrow> timeval) \<Rightarrow> timer_snapshot \<Rightarrow> timer_snapshot \<Rightarrow> duration" where
  "cpu_total conv field t1 t2 =
     (conv (field (cpu_fish t2)) - conv (field (cpu_fish t1))) +
     (conv (field (cpu_children t2)) - conv (field (cpu_children t1)))"

lemma cpu_difference_eq:
  "cpu_difference conv t1 t2 =
     (if backwards conv (cpu_fish t1) (cpu_fish t2) \<or> backwards conv (cpu_children t1) (cpu_children t2) then Panic
      else Ok \<lparr>fish_sys = conv (ru_stime (cpu_fish t2)) - conv (ru_stime (cpu_fish t1)),
               fish_usr = conv (ru_utime (cpu_fish t2)) - conv (ru_utime (cpu_fish t1)),
               child_sys = conv (ru_stime (cpu_children t2)) - conv (ru_stime (cpu_children t1)),
               child_usr = conv (ru_utime (cpu_children t2)) - conv (ru_utime (cpu_children t1))\<rparr>)"
  by (simp add: cpu_difference_def duration_sub_def backwards_def)

text \<open>
  C32. When the timer panics.  The subtraction of durations panics before the result could be compared with
  zero: \<open>get_delta\<close> panics exactly when a processor time went backwards or a sum exceeds the range
  of a duration, in both formats.
\<close>

theorem timer_backwards_panics:
  "get_delta conv shown t1 t2 verbose = Panic \<longleftrightarrow>
     backwards conv (cpu_fish t1) (cpu_fish t2) \<or> backwards conv (cpu_children t1) (cpu_children t2) \<or>
     duration_limit \<le> cpu_total conv ru_stime t1 t2 \<or> duration_limit \<le> cpu_total conv ru_utime t1 t2"
  by (auto simp: get_delta_def cpu_difference_eq duration_add_def cpu_total_def Let_def)

text \<open>
  The unit of a time.  A time of less than 999.995 minutes is shown in a unit in which it is below
  999.995, so that two decimals fit six columns, and, unless the unit is the smallest, at least
  0.99999, so that it is not shown as less than one.
\<close>

theorem timer_unit_fits:
  assumes "0 \<le> n" and "n < 59999700000"
  shows "1000 * n < 999995 * unit_micros (for_micros n) \<and>
    (for_micros n = Micros \<or> 99999 * unit_micros (for_micros n) \<le> 100000 * n)"
  using assms by (simp add: for_micros_def unit_micros_def)

theorem timer_unit_fits_witness:
  "for_micros 999994 = Millis \<and> for_micros 999995 = Seconds \<and> 1000 * 999994 < 999995 * unit_micros Millis"
  using timer_unit_fits [of 999994] by (simp add: for_micros_def)

end
