(* ===== verification/Hexyl_Byte.thy ===== *)
theory Hexyl_Byte
  imports Prelude
begin

text \<open>
  The bytes of \<open>hexyl\<close> and how they are shown (\<open>lib.rs\<close>, \<open>colors.rs\<close>): categories, the character
  tables, the terminal codes of the colours and the elements of the borders. The colours taken from
  the environment by \<open>owo_colors\<close>, and the gradients, which are computed with floating point numbers,
  are a parameter.
\<close>

section \<open>Characters\<close>

definition encode_utf8 :: "uchar \<Rightarrow> bytes" where
  \<comment> \<open>\<open>char::encode_utf8\<close> of the standard library\<close>
  "encode_utf8 c =
     (if c < 128 then [of_nat c]
      else if c < 2048 then [of_nat (192 + c div 64), of_nat (128 + c mod 64)]
      else if c < 65536 then
        [of_nat (224 + c div 4096), of_nat (128 + c div 64 mod 64), of_nat (128 + c mod 64)]
      else [of_nat (240 + c div 262144), of_nat (128 + c div 4096 mod 64),
            of_nat (128 + c div 64 mod 64), of_nat (128 + c mod 64)])"

definition utf8 :: "ustring \<Rightarrow> bytes" where
  "utf8 s = concat (map encode_utf8 s)"

section \<open>Options\<close>

datatype base = Binary | Octal | Decimal | Hexadecimal

datatype byte_category = CatNull | AsciiPrintable | AsciiWhitespace | AsciiOther | NonAscii

datatype include_mode = IncludeFile ustring | IncludeStdin | IncludeSlice | IncludeOff

datatype character_table = TableDefault | TableAscii | TableCP1047 | TableCP437 | Braille

datatype color_scheme = SchemeDefault | Gradient

datatype endianness = Little | Big

datatype squeezer = SqPrint | SqDelete | SqIgnore | SqDisabled

datatype border_style = BorderUnicode | BorderAscii | BorderNone

record border_elements =
  left_corner :: uchar
  horizontal_line :: uchar
  column_separator :: uchar
  right_corner :: uchar

definition header_elems :: "border_style \<Rightarrow> border_elements option" where
  "header_elems st =
     (case st of
        BorderUnicode \<Rightarrow> Some \<lparr>left_corner = 9484, horizontal_line = 9472, column_separator = 9516, right_corner = 9488\<rparr>
      | BorderAscii \<Rightarrow> Some \<lparr>left_corner = 43, horizontal_line = 45, column_separator = 43, right_corner = 43\<rparr>
      | BorderNone \<Rightarrow> None)"

definition footer_elems :: "border_style \<Rightarrow> border_elements option" where
  "footer_elems st =
     (case st of
        BorderUnicode \<Rightarrow> Some \<lparr>left_corner = 9492, horizontal_line = 9472, column_separator = 9524, right_corner = 9496\<rparr>
      | BorderAscii \<Rightarrow> Some \<lparr>left_corner = 43, horizontal_line = 45, column_separator = 43, right_corner = 43\<rparr>
      | BorderNone \<Rightarrow> None)"

definition outer_sep :: "border_style \<Rightarrow> uchar" where
  "outer_sep st = (case st of BorderUnicode \<Rightarrow> 9474 | BorderAscii \<Rightarrow> 124 | BorderNone \<Rightarrow> 32)"

definition inner_sep :: "border_style \<Rightarrow> uchar" where
  "inner_sep st = (case st of BorderUnicode \<Rightarrow> 9482 | BorderAscii \<Rightarrow> 124 | BorderNone \<Rightarrow> 32)"

section \<open>Bytes\<close>

definition is_ascii_graphic :: "u8 \<Rightarrow> bool" where
  "is_ascii_graphic b \<longleftrightarrow> 33 \<le> b \<and> b \<le> 126"

definition is_ascii_whitespace :: "u8 \<Rightarrow> bool" where
  \<comment> \<open>of the standard library: tab, line feed, form feed, carriage return, space\<close>
  "is_ascii_whitespace b \<longleftrightarrow> b \<in> {9, 10, 12, 13, 32}"

definition category :: "u8 \<Rightarrow> byte_category" where
  "category b =
     (if b = 0 then CatNull
      else if is_ascii_graphic b then AsciiPrintable
      else if is_ascii_whitespace b then AsciiWhitespace
      else if b < 128 then AsciiOther
      else NonAscii)"

definition CP437 :: "uchar list" where
  "CP437 =
    [8900, 9786, 9787, 9829, 9830, 9827, 9824, 8226, 9688, 9675, 9689, 9794, 9792, 9834, 9835, 9788,
     9658, 9668, 8597, 8252, 182, 167, 9644, 8616, 8593, 8595, 8594, 8592, 8735, 8596, 9650, 9660,
     32, 33, 34, 35, 36, 37, 38, 39, 40, 41, 42, 43, 44, 45, 46, 47,
     48, 49, 50, 51, 52, 53, 54, 55, 56, 57, 58, 59, 60, 61, 62, 63,
     64, 65, 66, 67, 68, 69, 70, 71, 72, 73, 74, 75, 76, 77, 78, 79,
     80, 81, 82, 83, 84, 85, 86, 87, 88, 89, 90, 91, 92, 93, 94, 95,
     96, 97, 98, 99, 100, 101, 102, 103, 104, 105, 106, 107, 108, 109, 110, 111,
     112, 113, 114, 115, 116, 117, 118, 119, 120, 121, 122, 123, 124, 125, 126, 8962,
     199, 252, 233, 226, 228, 224, 229, 231, 234, 235, 232, 239, 238, 236, 196, 197,
     201, 230, 198, 244, 246, 242, 251, 249, 255, 214, 220, 162, 163, 165, 8359, 402,
     225, 237, 243, 250, 241, 209, 170, 186, 191, 8976, 172, 189, 188, 161, 171, 187,
     9617, 9618, 9619, 9474, 9508, 9569, 9570, 9558, 9557, 9571, 9553, 9559, 9565, 9564, 9563, 9488,
     9492, 9524, 9516, 9500, 9472, 9532, 9566, 9567, 9562, 9556, 9577, 9574, 9568, 9552, 9580, 9575,
     9576, 9572, 9573, 9561, 9560, 9554, 9555, 9579, 9578, 9496, 9484, 9608, 9604, 9612, 9616, 9600,
     945, 223, 915, 960, 931, 963, 181, 964, 934, 920, 937, 948, 8734, 966, 949, 8745,
     8801, 177, 8805, 8804, 8992, 8993, 247, 8776, 176, 8729, 183, 8730, 8319, 178, 9632, 64256]"

definition CP1047 :: "uchar list" where
  "CP1047 =
    [46, 46, 46, 46, 46, 46, 46, 46, 46, 46, 46, 46, 46, 46, 46, 46,
     46, 46, 46, 46, 46, 46, 46, 46, 46, 46, 46, 46, 46, 46, 46, 46,
     46, 46, 46, 46, 46, 46, 46, 46, 46, 46, 46, 46, 46, 46, 46, 46,
     46, 46, 46, 46, 46, 46, 46, 46, 46, 46, 46, 46, 46, 46, 46, 46,
     32, 46, 46, 46, 46, 46, 46, 46, 46, 46, 36, 46, 60, 40, 43, 124,
     38, 46, 46, 46, 46, 46, 46, 46, 46, 46, 33, 36, 42, 41, 59, 46,
     45, 47, 46, 46, 46, 46, 46, 46, 46, 46, 46, 44, 37, 95, 62, 63,
     46, 46, 46, 46, 46, 46, 46, 46, 46, 46, 58, 35, 64, 39, 61, 46,
     46, 97, 98, 99, 100, 101, 102, 103, 104, 105, 46, 123, 46, 40, 43, 46,
     46, 106, 107, 108, 109, 110, 111, 112, 113, 114, 46, 125, 46, 41, 46, 46,
     46, 126, 115, 116, 117, 118, 119, 120, 121, 122, 46, 46, 46, 46, 46, 46,
     46, 46, 46, 46, 46, 46, 46, 46, 46, 46, 91, 93, 46, 46, 46, 45,
     123, 65, 66, 67, 68, 69, 70, 71, 72, 73, 46, 46, 46, 46, 46, 46,
     125, 74, 75, 76, 77, 78, 79, 80, 81, 82, 46, 46, 46, 46, 46, 46,
     46, 46, 83, 84, 85, 86, 87, 88, 89, 90, 46, 46, 46, 46, 46, 46,
     48, 49, 50, 51, 52, 53, 54, 55, 56, 57, 46, 46, 46, 46, 46, 46]"

definition braille_moves :: "(nat \<times> nat) list" where
  "braille_moves = zip [0..<8] [0, 3, 1, 4, 2, 5, 6, 7]"

definition to_braille_bits :: "u8 \<Rightarrow> u8" where
  "to_braille_bits byte = fold (\<lambda>(from, to) out. or out (push_bit to (and (drop_bit from byte) 1))) braille_moves 0"

definition as_char :: "u8 \<Rightarrow> character_table \<Rightarrow> uchar" where
  "as_char b table =
     (case table of
        TableDefault \<Rightarrow>
          (case category b of
             CatNull \<Rightarrow> 8900
           | AsciiPrintable \<Rightarrow> unat b
           | AsciiWhitespace \<Rightarrow> if b = 32 then 32 else 95
           | AsciiOther \<Rightarrow> 8226
           | NonAscii \<Rightarrow> 215)
      | TableAscii \<Rightarrow>
          (case category b of
             AsciiPrintable \<Rightarrow> unat b
           | AsciiWhitespace \<Rightarrow> if b = 32 then 32 else 46
           | _ \<Rightarrow> 46)
      | TableCP1047 \<Rightarrow> CP1047 ! unat b
      | TableCP437 \<Rightarrow> CP437 ! unat b
      | Braille \<Rightarrow>
          (case category b of
             CatNull \<Rightarrow> 8900
           | AsciiPrintable \<Rightarrow> unat b
           | AsciiWhitespace \<Rightarrow>
               if b = 32 then 32 else if b = 9 then 8594 else if b = 10 then 8629 else if b = 13 then 8592
               else 10240 + unat (to_braille_bits b)
           | _ \<Rightarrow> 10240 + unat (to_braille_bits b)))"

section \<open>Colours\<close>

definition as_dec :: "u8 \<Rightarrow> bytes" where
  "as_dec byte = [48 + byte div 100, 48 + byte mod 100 div 10, 48 + byte mod 10]"

definition rgb_bytes :: "u8 \<Rightarrow> u8 \<Rightarrow> u8 \<Rightarrow> bytes" where
  \<comment> \<open>the template with the three numbers put in their places\<close>
  "rgb_bytes r g b = [27] @ bstr ''[38;2;'' @ as_dec r @ bstr '';'' @ as_dec g @ bstr '';'' @ as_dec b @ bstr ''m''"

definition COLOR_NULL_RGB :: bytes where
  "COLOR_NULL_RGB = rgb_bytes 100 100 100"

definition COLOR_DEL :: bytes where
  "COLOR_DEL = rgb_bytes 64 128 0"

record palette =
  color_null :: bytes
  color_offset :: bytes
  color_ascii_printable :: bytes
  color_ascii_whitespace :: bytes
  color_ascii_other :: bytes
  color_nonascii :: bytes
  color_reset :: bytes
  gradient_nonascii :: "bytes list" \<comment> \<open>128 codes\<close>
  gradient_nonprintable :: "bytes list" \<comment> \<open>31 codes\<close>
  gradient_printable :: "bytes list" \<comment> \<open>95 codes\<close>

definition palette_ok :: "palette \<Rightarrow> bool" where
  "palette_ok pal \<longleftrightarrow> length (gradient_nonascii pal) = 128 \<and> length (gradient_nonprintable pal) = 31 \<and>
     length (gradient_printable pal) = 95"

definition code_at :: "bytes list \<Rightarrow> nat \<Rightarrow> ('e, bytes) outcome" where
  "code_at xs i = (if i < length xs then Ok (xs ! i) else Panic)"

definition color :: "palette \<Rightarrow> u8 \<Rightarrow> color_scheme \<Rightarrow> ('e, bytes) outcome" where
  "color pal b scheme =
     (case scheme of
        SchemeDefault \<Rightarrow>
          Ok (case category b of
                CatNull \<Rightarrow> color_null pal
              | AsciiPrintable \<Rightarrow> color_ascii_printable pal
              | AsciiWhitespace \<Rightarrow> color_ascii_whitespace pal
              | AsciiOther \<Rightarrow> color_ascii_other pal
              | NonAscii \<Rightarrow> color_nonascii pal)
      | Gradient \<Rightarrow>
          (case category b of
             CatNull \<Rightarrow> Ok COLOR_NULL_RGB
           | AsciiPrintable \<Rightarrow> code_at (gradient_printable pal) (unat (b - 32))
           | NonAscii \<Rightarrow> code_at (gradient_nonascii pal) (unat (b - 128))
           | c \<Rightarrow>
               if c = AsciiWhitespace \<and> b = 32 then code_at (gradient_printable pal) 0
               else if b = 127 then Ok COLOR_DEL
               else code_at (gradient_nonprintable pal) (unat b - 1)))"

lemma category_cases:
  "category b = CatNull \<longleftrightarrow> unat b = 0"
  "category b = AsciiPrintable \<longleftrightarrow> 33 \<le> unat b \<and> unat b \<le> 126"
  "category b = AsciiWhitespace \<longleftrightarrow> unat b \<in> {9, 10, 12, 13, 32}"
  "category b = NonAscii \<longleftrightarrow> 128 \<le> unat b"
  "category b = AsciiOther \<longleftrightarrow>
     unat b \<noteq> 0 \<and> (unat b < 33 \<or> unat b = 127) \<and> unat b \<notin> {9, 10, 12, 13, 32}"
  by (auto simp: category_def is_ascii_graphic_def is_ascii_whitespace_def word_le_nat_alt word_less_nat_alt
      word_unat_eq_iff)

lemma color_Ok:
  assumes "palette_ok pal"
  shows "\<exists>c. color pal b scheme = Ok c"
proof (cases scheme)
  case Gradient
  have "unat b < 256" by (rule unat_u8_less)
  with Gradient assms category_cases [of b] show ?thesis
    by (cases "category b")
      (auto simp: color_def code_at_def palette_ok_def unat_sub_if_size word_unat_eq_iff)
qed (simp add: color_def)

end
