(* ===== verification/Hexyl_Palette.thy ===== *)
theory Hexyl_Palette
  imports Hexyl_Byte
begin

text \<open>
  The colors that hexyl takes from the environment (\<open>init_color\<close> in \<open>colors.rs\<close>). The crate
  \<open>owo_colors\<close> is a record of functions: parsing a color, the color of an ANSI name, and painting a text.
\<close>

datatype ansi_color = BrightBlack | Cyan | Green | Yellow

record 'c color_lib =
  env_var :: "string \<Rightarrow> bytes option" \<comment> \<open>\<open>std::env::var\<close>, \<open>None\<close> when unset or not Unicode\<close>
  dyn_color :: "bytes \<Rightarrow> 'c option" \<comment> \<open>\<open>DynColors::from_str\<close>\<close>
  ansi_code :: "ansi_color \<Rightarrow> 'c"
  painted :: "'c \<Rightarrow> bytes \<Rightarrow> bytes" \<comment> \<open>the text of \<open>s.color(c)\<close>\<close>

fun split_once :: "u8 \<Rightarrow> bytes \<Rightarrow> (bytes \<times> bytes) option" where
  "split_once x [] = None"
| "split_once x (b # bs) =
     (if b = x then Some ([], bs) else map_option (\<lambda>(l, r). (b # l, r)) (split_once x bs))"

definition init_color :: "'c color_lib \<Rightarrow> string \<Rightarrow> ansi_color \<Rightarrow> ('e, bytes) outcome" where
  "init_color C name default_ansi =
     (let color =
        (case env_var C (''HEXYL_COLOR_'' @ name) of
           Some text \<Rightarrow> (case dyn_color C text of Some c \<Rightarrow> c | None \<Rightarrow> ansi_code C default_ansi)
         | None \<Rightarrow> ansi_code C default_ansi)
      in case split_once 124 (painted C color [124]) of
           Some (l, _) \<Rightarrow> Ok l
         | None \<Rightarrow> Panic)"

definition environment_palette ::
  "'c color_lib \<Rightarrow> bytes \<Rightarrow> bytes list \<Rightarrow> bytes list \<Rightarrow> bytes list \<Rightarrow> ('e, palette) outcome" where
  \<comment> \<open>the statics of \<open>colors.rs\<close>; the gradients are given\<close>
  "environment_palette C reset nonascii nonprintable printable =
     obind (init_color C ''NULL'' BrightBlack) (\<lambda>null.
     obind (init_color C ''OFFSET'' BrightBlack) (\<lambda>offset.
     obind (init_color C ''ASCII_PRINTABLE'' Cyan) (\<lambda>print.
     obind (init_color C ''ASCII_WHITESPACE'' Green) (\<lambda>white.
     obind (init_color C ''ASCII_OTHER'' Green) (\<lambda>other.
     obind (init_color C ''NONASCII'' Yellow) (\<lambda>high.
       Ok \<lparr>color_null = null, color_offset = offset, color_ascii_printable = print, color_ascii_whitespace = white,
          color_ascii_other = other, color_nonascii = high, color_reset = reset,
          gradient_nonascii = nonascii, gradient_nonprintable = nonprintable, gradient_printable = printable\<rparr>))))))"

definition paint_law :: "'c color_lib \<Rightarrow> ('c \<Rightarrow> bytes) \<Rightarrow> bool" where
  \<comment> \<open>a painted text is the code of the color, which has no vertical bar, the text, and a reset\<close>
  "paint_law C code \<longleftrightarrow> (\<forall>c s. \<exists>reset. painted C c s = code c @ s @ reset \<and> 124 \<notin> set (code c))"

lemma split_once_append: "x \<notin> set l \<Longrightarrow> split_once x (l @ x # r) = Some (l, r)"
  by (induction l) auto

lemma init_color_code:
  assumes "paint_law C code"
  shows "init_color C name d = Ok (code
    (case Option.bind (env_var C (''HEXYL_COLOR_'' @ name)) (dyn_color C) of Some c \<Rightarrow> c | None \<Rightarrow> ansi_code C d))"
proof -
  have code: "(case split_once 124 (painted C c [124]) of Some (l, _) \<Rightarrow> Ok l | None \<Rightarrow> Panic) = Ok (code c)" for c
  proof -
    obtain reset where "painted C c [124] = code c @ [124] @ reset" "124 \<notin> set (code c)"
      using assms unfolding paint_law_def by blast
    then show ?thesis by (simp add: split_once_append)
  qed
  show ?thesis unfolding init_color_def Let_def code
    by (cases "env_var C (''HEXYL_COLOR_'' @ name)") simp_all
qed

lemma environment_palette_ok:
  assumes "paint_law C code" and "length nonascii = 128" "length nonprintable = 31" "length printable = 95"
  shows "\<exists>pal. environment_palette C reset nonascii nonprintable printable = Ok pal \<and> palette_ok pal"
  using assms(2-4) by (simp add: environment_palette_def init_color_code [OF assms(1)] palette_ok_def)

end
