(* ===== verification/Hexyl_Args.thy ===== *)
theory Hexyl_Args
  imports Prelude
begin

text \<open>
  The command line of \<open>hexyl\<close> (\<open>main.rs\<close>): offsets and counts with signs, hexadecimal numbers and
  units, the base, and the number of panels that fit a terminal. A string is a list of code points.
\<close>

section \<open>Parsing of integers by the standard library\<close>

datatype int_error_kind = IntEmpty | InvalidDigit | PosOverflow | NegOverflow

definition i64_limit :: int where
  "i64_limit = 2 ^ 63"

fun parse_digits :: "nat \<Rightarrow> bool \<Rightarrow> int \<Rightarrow> ustring \<Rightarrow> (int_error_kind, int) outcome" where
  \<comment> \<open>the loop of \<open>i64::from_str_radix\<close>; the flag is set after a minus sign\<close>
  "parse_digits radix neg acc [] = Ok acc"
| "parse_digits radix neg acc (c # cs) =
     (case digit_val radix c of
        None \<Rightarrow> Err InvalidDigit
      | Some d \<Rightarrow>
          let v = (if neg then acc * int radix - int d else acc * int radix + int d) in
          if i64_limit \<le> v then Err PosOverflow
          else if v < - i64_limit then Err NegOverflow
          else parse_digits radix neg v cs)"

definition parse_i64 :: "nat \<Rightarrow> ustring \<Rightarrow> (int_error_kind, int) outcome" where
  \<comment> \<open>\<open>i64::from_str_radix\<close>\<close>
  "parse_i64 radix s =
     (case s of
        [] \<Rightarrow> Err IntEmpty
      | c # cs \<Rightarrow>
          if (c = 43 \<or> c = 45) \<and> cs = [] then Err InvalidDigit
          else if c = 43 then parse_digits radix False 0 cs
          else if c = 45 then parse_digits radix True 0 cs
          else parse_digits radix False 0 s)"

definition checked_mul :: "int \<Rightarrow> int \<Rightarrow> int option" where
  "checked_mul a b = (if - i64_limit \<le> a * b \<and> a * b < i64_limit then Some (a * b) else None)"

definition to_lowercase :: "ustring \<Rightarrow> ustring" where
  \<comment> \<open>exact where the result is ASCII: besides the capitals only the Kelvin sign becomes a letter\<close>
  "to_lowercase s = map (\<lambda>c. if 65 \<le> c \<and> c \<le> 90 then c + 32 else if c = 8490 then 107 else c) s"

section \<open>Offsets\<close>

datatype unit_of =
  UByte | Kilobyte | Megabyte | Gigabyte | Terabyte | Kibibyte | Mebibyte | Gibibyte | Tebibyte
  | Block "int option"

definition DEFAULT_BLOCK_SIZE :: int where
  "DEFAULT_BLOCK_SIZE = 512"

fun get_multiplier :: "unit_of \<Rightarrow> int" where
  "get_multiplier UByte = 1"
| "get_multiplier Kilobyte = 1000"
| "get_multiplier Megabyte = 1000000"
| "get_multiplier Gigabyte = 1000000000"
| "get_multiplier Terabyte = 1000000000000"
| "get_multiplier Kibibyte = 2 ^ 10"
| "get_multiplier Mebibyte = 2 ^ 20"
| "get_multiplier Gibibyte = 2 ^ 30"
| "get_multiplier Tebibyte = 2 ^ 40"
| "get_multiplier (Block (Some sz)) = sz"
| "get_multiplier (Block None) = DEFAULT_BLOCK_SIZE"

datatype byte_offset_kind = ForwardFromBeginning | ForwardFromLastOffset | BackwardFromEnd

record byte_offset =
  offset_value :: int
  offset_kind :: byte_offset_kind

datatype byte_offset_parse_error =
    EmptyInput
  | EmptyAfterSign
  | SignFoundAfterHexPrefix uchar
  | InvalidNumAndUnit ustring
  | EmptyWithUnit ustring
  | InvalidUnit ustring
  | ParseNum int_error_kind
  | UnitMultiplicationOverflow

type_synonym 'a bo_result = "(byte_offset_parse_error, 'a) outcome"

definition NonNegativeI64_new :: "int \<Rightarrow> int option" where
  "NonNegativeI64_new x = (if x < 0 then None else Some x)"

definition PositiveI64_new :: "int \<Rightarrow> int option" where
  "PositiveI64_new x = (if x < 1 then None else Some x)"

definition process_sign_of :: "ustring \<Rightarrow> (ustring \<times> byte_offset_kind) bo_result" where
  "process_sign_of n =
     (case n of
        [] \<Rightarrow> Err EmptyInput
      | c # cs \<Rightarrow>
          if c = 43 then (if cs = [] then Err EmptyAfterSign else Ok (cs, ForwardFromLastOffset))
          else if c = 45 then (if cs = [] then Err EmptyAfterSign else Ok (cs, BackwardFromEnd))
          else Ok (n, ForwardFromBeginning))"

definition try_parse_as_hex_number :: "ustring \<Rightarrow> int bo_result option" where
  "try_parse_as_hex_number n =
     (if prefix [48, 120] n then
        (let num = drop 2 n in
         Some (case num of
             c # cs \<Rightarrow>
               if c = 43 \<or> c = 45 then
                 (if cs = [] then Err EmptyAfterSign else Err (SignFoundAfterHexPrefix c))
               else omap_err ParseNum (parse_i64 16 num)
           | [] \<Rightarrow> omap_err ParseNum (parse_i64 16 num)))
      else None)"

definition is_ascii_digit :: "uchar \<Rightarrow> bool" where
  "is_ascii_digit c \<longleftrightarrow> 48 \<le> c \<and> c \<le> 57"

definition unit_of_name :: "ustring \<Rightarrow> unit_of option" where
  "unit_of_name s =
     (if s = [] then Some UByte
      else if s = ustr ''kb'' then Some Kilobyte
      else if s = ustr ''mb'' then Some Megabyte
      else if s = ustr ''gb'' then Some Gigabyte
      else if s = ustr ''tb'' then Some Terabyte
      else if s = ustr ''kib'' then Some Kibibyte
      else if s = ustr ''mib'' then Some Mebibyte
      else if s = ustr ''gib'' then Some Gibibyte
      else if s = ustr ''tib'' then Some Tebibyte
      else if s = ustr ''block'' \<or> s = ustr ''blocks'' then Some (Block None)
      else None)"

definition extract_num_and_unit_from :: "ustring \<Rightarrow> (int \<times> unit_of) bo_result" where
  "extract_num_and_unit_from n =
     (if n = [] then Err EmptyInput
      else if list_all is_ascii_digit n then
        obind (omap_err ParseNum (parse_i64 10 n)) (\<lambda>num. Ok (num, UByte))
      else
        (let num = takeWhile is_ascii_digit n; raw_unit = dropWhile is_ascii_digit n in
         case unit_of_name (to_lowercase raw_unit) of
           None \<Rightarrow> Err (if num = [] then InvalidNumAndUnit raw_unit else InvalidUnit raw_unit)
         | Some u \<Rightarrow>
             obind (omap_err (\<lambda>e. if num = [] then EmptyWithUnit raw_unit else ParseNum e) (parse_i64 10 num))
               (\<lambda>v. Ok (v, u))))"

definition into_byte_offset :: "byte_offset_kind \<Rightarrow> int \<Rightarrow> byte_offset bo_result" where
  \<comment> \<open>\<open>NonNegativeI64::new(value).unwrap()\<close>\<close>
  "into_byte_offset kind v =
     (case NonNegativeI64_new v of
        None \<Rightarrow> Panic
      | Some x \<Rightarrow> Ok \<lparr>offset_value = x, offset_kind = kind\<rparr>)"

definition parse_byte_offset :: "ustring \<Rightarrow> int \<Rightarrow> byte_offset bo_result" where
  "parse_byte_offset n block_size =
     obind (process_sign_of n) (\<lambda>(n, kind).
       case try_parse_as_hex_number n of
         Some hex_number \<Rightarrow> obind hex_number (into_byte_offset kind)
       | None \<Rightarrow>
           obind (extract_num_and_unit_from n) (\<lambda>(num, un).
             let un = (if un = Block None then Block (Some block_size) else un) in
             case checked_mul num (get_multiplier un) of
               None \<Rightarrow> Err UnitMultiplicationOverflow
             | Some v \<Rightarrow> into_byte_offset kind v))"

datatype hexyl_error =
    OffsetError byte_offset_parse_error
  | NegativeOffsetSpecified
  | BlockSizeNotPositive
  | BlockAsBlockSize
  | InvalidBase
  | InvalidPanels
  | SeekFailed
  | IsADirectory
  | HexylIo

definition assume_forward_offset_from_start :: "byte_offset \<Rightarrow> (hexyl_error, int) outcome" where
  "assume_forward_offset_from_start b =
     (case offset_kind b of
        BackwardFromEnd \<Rightarrow> Err NegativeOffsetSpecified
      | _ \<Rightarrow> Ok (offset_value b))"

definition parse_byte_count :: "ustring \<Rightarrow> int \<Rightarrow> (hexyl_error, int) outcome" where
  "parse_byte_count s block_size =
     obind (omap_err OffsetError (parse_byte_offset s block_size)) assume_forward_offset_from_start"

definition parse_block_size :: "ustring \<Rightarrow> (hexyl_error, int) outcome" where
  \<comment> \<open>a block size without the hexadecimal prefix\<close>
  "parse_block_size s =
     obind (omap_err OffsetError (extract_num_and_unit_from s)) (\<lambda>(num, un).
       case un of
         Block _ \<Rightarrow> Err BlockAsBlockSize
       | _ \<Rightarrow>
           (case checked_mul num (get_multiplier un) of
              None \<Rightarrow> Err (OffsetError UnitMultiplicationOverflow)
            | Some x \<Rightarrow> (case PositiveI64_new x of None \<Rightarrow> Err BlockSizeNotPositive | Some y \<Rightarrow> Ok y)))"

end
