(* ===== verification/Hexyl_Input.thy ===== *)
theory Hexyl_Input
  imports Hexyl_Args Io_Writer
begin

text \<open>
  The input of \<open>hexyl\<close> (\<open>input.rs\<close>): a reader is a function that gives the result of a \<open>read\<close> into a
  slice of a given length. \<open>Take\<close> and \<open>BufReader\<close> are those of the standard library; skipping reads the
  bytes away where the input cannot seek. The interface \<open>byte_reader\<close> is what a reader promises that
  does not fail: it delivers its bytes in order and reports the end of file only at the end.
\<close>

section \<open>Readers\<close>

type_synonym 'r read_op = "'r \<Rightarrow> nat \<Rightarrow> 'r \<times> read_event"

fun events_read :: "reader read_op" where
  \<comment> \<open>a stream that delivers its data in the given pieces\<close>
  "events_read [] k = ([], Chunk [])"
| "events_read (Chunk bs # es) k =
     (if length bs \<le> k then (es, Chunk bs) else (Chunk (drop k bs) # es, Chunk (take k bs)))"
| "events_read (e # es) k = (es, e)"

definition take_read :: "'r read_op \<Rightarrow> ('r \<times> nat) read_op" where
  \<comment> \<open>\<open>Read::take\<close>, with the number of bytes left\<close>
  "take_read rd st k =
     (case st of (r, limit) \<Rightarrow>
        if limit = 0 then ((r, 0), Chunk [])
        else (case rd r (min k limit) of
                (r, Chunk bs) \<Rightarrow> ((r, limit - length bs), Chunk bs)
              | (r, e) \<Rightarrow> ((r, limit), e)))"

definition DEFAULT_BUF_SIZE :: nat where
  "DEFAULT_BUF_SIZE = 8192"

definition buf_read :: "'r read_op \<Rightarrow> (bytes \<times> 'r) read_op" where
  \<comment> \<open>\<open>BufReader::new(_)\<close>, with the bytes it holds\<close>
  "buf_read rd st k =
     (case st of (buf, r) \<Rightarrow>
        if buf \<noteq> [] then ((drop k buf, r), Chunk (take k buf))
        else if DEFAULT_BUF_SIZE \<le> k then (case rd r k of (r, e) \<Rightarrow> (([], r), e))
        else (case rd r DEFAULT_BUF_SIZE of
                (r, Chunk bs) \<Rightarrow> ((drop k bs, r), Chunk (take k bs))
              | (r, e) \<Rightarrow> (([], r), e)))"

locale byte_reader =
  fixes rd :: "'r read_op" and remaining :: "'r \<Rightarrow> bytes" and sound :: "'r \<Rightarrow> bool"
  assumes read_law: "sound r \<Longrightarrow> 0 < k \<Longrightarrow>
    \<exists>r' bs. rd r k = (r', Chunk bs) \<and> length bs \<le> k \<and> remaining r = bs @ remaining r' \<and> sound r' \<and>
      (bs = [] \<longrightarrow> remaining r = [])"

fun all_chunks :: "reader \<Rightarrow> bool" where
  \<comment> \<open>a stream without failures and interruptions, that ends once\<close>
  "all_chunks [] = True"
| "all_chunks (Chunk bs # es) = (bs \<noteq> [] \<and> all_chunks es)"
| "all_chunks (e # es) = False"

interpretation events: byte_reader events_read stream_bytes all_chunks
proof
  fix r :: reader and k :: nat
  assume "all_chunks r" "0 < k"
  then show "\<exists>r' bs. events_read r k = (r', Chunk bs) \<and> length bs \<le> k \<and> stream_bytes r = bs @ stream_bytes r' \<and>
      all_chunks r' \<and> (bs = [] \<longrightarrow> stream_bytes r = [])"
    by (cases "(r, k)" rule: events_read.cases) auto
qed

lemma all_chunks_ok: "all_chunks es \<Longrightarrow> stream_ok es"
  by (induction es rule: all_chunks.induct) auto

context byte_reader
begin

definition take_remaining :: "'r \<times> nat \<Rightarrow> bytes" where
  "take_remaining st = take (snd st) (remaining (fst st))"

definition buf_remaining :: "bytes \<times> 'r \<Rightarrow> bytes" where
  "buf_remaining st = fst st @ remaining (snd st)"

lemma take_read_law:
  assumes "sound r" and k: "0 < k"
  shows "\<exists>r' limit' bs. take_read rd (r, limit) k = ((r', limit'), Chunk bs) \<and> length bs \<le> k \<and>
    take limit (remaining r) = bs @ take limit' (remaining r') \<and> sound r' \<and>
    (bs = [] \<longrightarrow> take limit (remaining r) = []) \<and> drop limit' (remaining r') = drop limit (remaining r)"
proof (cases "limit = 0")
  case False
  with read_law [of r "min k limit"] assms obtain r' bs where
    "rd r (min k limit) = (r', Chunk bs)" "length bs \<le> min k limit" "remaining r = bs @ remaining r'" "sound r'"
    "bs = [] \<longrightarrow> remaining r = []" by auto
  with False show ?thesis by (auto simp: take_read_def)
qed (use assms in \<open>simp add: take_read_def\<close>)

lemma take_reader: "byte_reader (take_read rd) take_remaining (sound \<circ> fst)"
proof
  fix st :: "'r \<times> nat" and k :: nat
  assume "(sound \<circ> fst) st" "0 < k"
  with take_read_law [of "fst st" k "snd st"]
  show "\<exists>st' bs. take_read rd st k = (st', Chunk bs) \<and> length bs \<le> k \<and> take_remaining st = bs @ take_remaining st' \<and>
      (sound \<circ> fst) st' \<and> (bs = [] \<longrightarrow> take_remaining st = [])"
    by (fastforce simp: take_remaining_def)
qed

lemma buf_reader: "byte_reader (buf_read rd) buf_remaining (sound \<circ> snd)"
proof
  fix st :: "bytes \<times> 'r" and k :: nat
  assume s: "(sound \<circ> snd) st" and k: "0 < k"
  obtain buf r where st: "st = (buf, r)" by (cases st)
  show "\<exists>st' bs. buf_read rd st k = (st', Chunk bs) \<and> length bs \<le> k \<and> buf_remaining st = bs @ buf_remaining st' \<and>
      (sound \<circ> snd) st' \<and> (bs = [] \<longrightarrow> buf_remaining st = [])"
  proof (cases "buf = []")
    case True
    let ?k = "if DEFAULT_BUF_SIZE \<le> k then k else DEFAULT_BUF_SIZE"
    have "0 < ?k" using k by (simp add: DEFAULT_BUF_SIZE_def)
    with read_law [of r ?k] s st obtain r' bs where
      "rd r ?k = (r', Chunk bs)" "length bs \<le> ?k" "remaining r = bs @ remaining r'" "sound r'"
      "bs = [] \<longrightarrow> remaining r = []" by auto
    with True st k show ?thesis by (auto simp: buf_read_def buf_remaining_def)
  qed (use s st k in \<open>auto simp: buf_read_def buf_remaining_def\<close>)
qed

end

section \<open>Skipping\<close>

datatype seek_from = SeekStart nat | SeekEnd int | SeekCurrent int

datatype seek_error = NotSeekable \<comment> \<open>\<open>ESPIPE\<close>\<close> | SeekError

record ('f, 'i) input_system = \<comment> \<open>what the system does with a file and with standard input\<close>
  file_read :: "'f read_op"
  file_seek :: "'f \<Rightarrow> seek_from \<Rightarrow> 'f \<times> (seek_error, nat) outcome"
  stdin_read :: "'i read_op"

datatype ('f, 'i) input = InputFile 'f | InputStdin 'i

definition input_read :: "('f, 'i) input_system \<Rightarrow> ('f, 'i) input read_op" where
  "input_read sys inp k =
     (case inp of
        InputFile f \<Rightarrow> (case file_read sys f k of (f, e) \<Rightarrow> (InputFile f, e))
      | InputStdin i \<Rightarrow> (case stdin_read sys i k of (i, e) \<Rightarrow> (InputStdin i, e)))"

definition copy_to_sink :: "'r read_op \<Rightarrow> nat \<times> 'r \<Rightarrow> (nat \<times> 'r) \<times> (seek_error, nat) outcome" where
  \<comment> \<open>\<open>copy(_, sink())\<close>: reads until the end of file, however often it is interrupted\<close>
  "copy_to_sink rd =
     repeat (\<lambda>(n, r).
       case rd r DEFAULT_BUF_SIZE of
         (r, Chunk bs) \<Rightarrow> ((n + length bs, r), Ok (if bs = [] then Some n else None))
       | (r, Interrupted) \<Rightarrow> ((n, r), Ok None)
       | (r, ReadFailed) \<Rightarrow> ((n, r), Err SeekError))"

definition try_skip :: "'r read_op \<Rightarrow> 'r \<Rightarrow> seek_from \<Rightarrow> 'r \<times> (seek_error, nat) outcome" where
  "try_skip rd r pos =
     (case pos of
        SeekCurrent off \<Rightarrow>
          if off < 0 then (r, Err SeekError)
          else (case copy_to_sink (take_read rd) (0, (r, nat off)) of ((_, (r, _)), res) \<Rightarrow> (r, res))
      | _ \<Rightarrow> (r, Err SeekError))"

definition input_seek ::
  "('f, 'i) input_system \<Rightarrow> ('f, 'i) input \<Rightarrow> seek_from \<Rightarrow> ('f, 'i) input \<times> (seek_error, nat) outcome" where
  "input_seek sys inp pos =
     (case inp of
        InputFile f \<Rightarrow>
          (case file_seek sys f pos of
             (f, Err NotSeekable) \<Rightarrow> (case try_skip (file_read sys) f pos of (f, r) \<Rightarrow> (InputFile f, r))
           | (f, r) \<Rightarrow> (InputFile f, r))
      | InputStdin i \<Rightarrow> (case try_skip (stdin_read sys) i pos of (i, r) \<Rightarrow> (InputStdin i, r)))"

context byte_reader
begin

lemma copy_to_sink_all:
  assumes "sound r" and "J r" and J: "\<And>r r' k bs. J r \<Longrightarrow> sound r \<Longrightarrow> 0 < k \<Longrightarrow> rd r k = (r', Chunk bs) \<Longrightarrow> J r'"
  shows "\<exists>r'. copy_to_sink rd (n, r) = ((n + length (remaining r), r'), Ok (n + length (remaining r))) \<and>
    sound r' \<and> remaining r' = [] \<and> J r'"
  using assms(1,2)
proof (induction "length (remaining r)" arbitrary: n r rule: less_induct)
  case less
  have k: "0 < DEFAULT_BUF_SIZE" by (simp add: DEFAULT_BUF_SIZE_def)
  from read_law [OF less.prems(1) this] obtain r' bs where r': "rd r DEFAULT_BUF_SIZE = (r', Chunk bs)"
    "remaining r = bs @ remaining r'" "sound r'" "bs = [] \<longrightarrow> remaining r = []" by blast
  have j: "J r'" by (rule J [OF less.prems(2,1) k r'(1)])
  show ?case
  proof (cases "bs = []")
    case True
    with r' j show ?thesis
      by (auto simp: copy_to_sink_def intro!: exI [of _ r'] repeat_break)
  next
    case False
    with r' less.hyps [of r' "n + length bs"] j obtain r'' where
      r'': "copy_to_sink rd (n + length bs, r') = ((n + length (remaining r), r''), Ok (n + length (remaining r)))"
      "sound r''" "remaining r'' = []" "J r''" by (auto simp: add.assoc)
    moreover have "copy_to_sink rd (n, r) = copy_to_sink rd (n + length bs, r')"
      unfolding copy_to_sink_def
      by (rule repeat_go_on) (use r' False r'' in \<open>simp_all add: copy_to_sink_def\<close>)
    ultimately show ?thesis by auto
  qed
qed

lemma try_skip_forward:
  \<comment> \<open>skipping an input that cannot seek leaves what comes after and tells how much was there\<close>
  assumes s: "sound r"
  shows "\<exists>r'. try_skip rd r (SeekCurrent (int n)) = (r', Ok (min n (length (remaining r)))) \<and> sound r' \<and>
    remaining r' = drop n (remaining r)"
proof -
  let ?J = "\<lambda>(r', limit). drop limit (remaining r') = drop n (remaining r)"
  have "\<exists>st. copy_to_sink (take_read rd) (0, (r, n)) =
        ((0 + length (take_remaining (r, n)), st), Ok (0 + length (take_remaining (r, n)))) \<and>
      (sound \<circ> fst) st \<and> take_remaining st = [] \<and> ?J st"
  proof (rule byte_reader.copy_to_sink_all [OF take_reader])
    fix st st' :: "'r \<times> nat" and k :: nat and bs
    assume a: "?J st" "(sound \<circ> fst) st" "0 < k" "take_read rd st k = (st', Chunk bs)"
    obtain r1 l1 where st: "st = (r1, l1)" by (cases st)
    from take_read_law [of r1 k l1] a st show "?J st'" by auto
  qed (use s in simp_all)
  then obtain r' limit where c: "copy_to_sink (take_read rd) (0, (r, n)) =
        ((min n (length (remaining r)), (r', limit)), Ok (min n (length (remaining r))))"
      "sound r'" "take limit (remaining r') = []" "drop limit (remaining r') = drop n (remaining r)"
    by (auto simp: take_remaining_def min.commute)
  from c(3,4) have "remaining r' = drop n (remaining r)"
    by (metis append_Nil append_take_drop_id)
  with c show ?thesis by (auto simp: try_skip_def)
qed

end

end
