(* ===== verification/Hexyl_Printer.thy ===== *)
theory Hexyl_Printer
  imports Hexyl_Input Hexyl_Byte
begin

text \<open>
  The printer of \<open>hexyl\<close> (\<open>lib.rs\<close>): its builder, its state, the operations that print the border, the
  position, a byte, a character and a line, the include style, and the loop of \<open>print_all\<close> with the
  squeezing of repeated lines. The state of an operation is the writer beside the printer. A
  \<open>write!\<close> is one \<open>write_all\<close> of the formatted text.
\<close>

section \<open>Builder and printer\<close>

record printer_builder =
  pb_show_color :: bool
  pb_show_char_panel :: bool
  pb_show_position_panel :: bool
  pb_border_style :: border_style
  pb_use_squeeze :: bool
  pb_panels :: u64
  pb_group_size :: u8
  pb_base :: base
  pb_endianness :: endianness
  pb_character_table :: character_table
  pb_include_mode :: include_mode
  pb_color_scheme :: color_scheme

definition printer_builder_new :: printer_builder where
  "printer_builder_new =
     \<lparr>pb_show_color = True, pb_show_char_panel = True, pb_show_position_panel = True,
      pb_border_style = BorderUnicode, pb_use_squeeze = True, pb_panels = 2, pb_group_size = 1,
      pb_base = Hexadecimal, pb_endianness = Big, pb_character_table = TableDefault,
      pb_include_mode = IncludeOff, pb_color_scheme = SchemeDefault\<rparr>"

definition builder_show_color :: "bool \<Rightarrow> printer_builder \<Rightarrow> printer_builder" where
  "builder_show_color x pb = pb\<lparr>pb_show_color := x\<rparr>"

definition builder_show_char_panel :: "bool \<Rightarrow> printer_builder \<Rightarrow> printer_builder" where
  "builder_show_char_panel x pb = pb\<lparr>pb_show_char_panel := x\<rparr>"

definition builder_show_position_panel :: "bool \<Rightarrow> printer_builder \<Rightarrow> printer_builder" where
  "builder_show_position_panel x pb = pb\<lparr>pb_show_position_panel := x\<rparr>"

definition with_border_style :: "border_style \<Rightarrow> printer_builder \<Rightarrow> printer_builder" where
  "with_border_style x pb = pb\<lparr>pb_border_style := x\<rparr>"

definition enable_squeezing :: "bool \<Rightarrow> printer_builder \<Rightarrow> printer_builder" where
  "enable_squeezing x pb = pb\<lparr>pb_use_squeeze := x\<rparr>"

definition num_panels :: "u64 \<Rightarrow> printer_builder \<Rightarrow> printer_builder" where
  "num_panels x pb = pb\<lparr>pb_panels := x\<rparr>"

definition builder_group_size :: "u8 \<Rightarrow> printer_builder \<Rightarrow> printer_builder" where
  "builder_group_size x pb = pb\<lparr>pb_group_size := x\<rparr>"

definition with_base :: "base \<Rightarrow> printer_builder \<Rightarrow> printer_builder" where
  "with_base x pb = pb\<lparr>pb_base := x\<rparr>"

definition builder_endianness :: "endianness \<Rightarrow> printer_builder \<Rightarrow> printer_builder" where
  "builder_endianness x pb = pb\<lparr>pb_endianness := x\<rparr>"

definition builder_character_table :: "character_table \<Rightarrow> printer_builder \<Rightarrow> printer_builder" where
  "builder_character_table x pb = pb\<lparr>pb_character_table := x\<rparr>"

definition builder_include_mode :: "include_mode \<Rightarrow> printer_builder \<Rightarrow> printer_builder" where
  "builder_include_mode x pb = pb\<lparr>pb_include_mode := x\<rparr>"

definition builder_color_scheme :: "color_scheme \<Rightarrow> printer_builder \<Rightarrow> printer_builder" where
  "builder_color_scheme x pb = pb\<lparr>pb_color_scheme := x\<rparr>"

lemmas builder_defs =
  builder_show_color_def builder_show_char_panel_def builder_show_position_panel_def with_border_style_def
  enable_squeezing_def num_panels_def builder_group_size_def with_base_def builder_endianness_def
  builder_character_table_def builder_include_mode_def builder_color_scheme_def

record printer =
  idx :: u64
  line_buf :: bytes
  show_char_panel :: bool
  show_position_panel :: bool
  show_color :: bool
  curr_color :: "bytes option"
  color_scheme :: color_scheme
  border_style :: border_style
  byte_hex_panel :: "bytes list"
  byte_char_panel :: "bytes list"
  byte_hex_panel_g :: "bytes list"
  squeezer :: squeezer
  display_offset :: u64
  panels :: u64
  squeeze_byte :: u64
  group_size :: u8
  base_digits :: u8
  endianness :: endianness
  include_mode :: include_mode

definition digit_char :: "nat \<Rightarrow> u8" where
  "digit_char d = (if d < 10 then of_nat (48 + d) else of_nat (87 + d))"

definition radix_digits :: "nat \<Rightarrow> nat \<Rightarrow> nat \<Rightarrow> bytes" where
  \<comment> \<open>\<open>format!\<close> of a number that fits in the given number of digits, padded with zeros\<close>
  "radix_digits radix k n = map (\<lambda>j. digit_char (n div radix ^ (k - 1 - j) mod radix)) [0..<k]"

definition digits_of_base :: "base \<Rightarrow> nat" where
  "digits_of_base b = (case b of Binary \<Rightarrow> 8 | Octal \<Rightarrow> 3 | Decimal \<Rightarrow> 3 | Hexadecimal \<Rightarrow> 2)"

definition format_byte :: "base \<Rightarrow> nat \<Rightarrow> bytes" where
  "format_byte b i =
     (case b of
        Binary \<Rightarrow> radix_digits 2 8 i
      | Octal \<Rightarrow> radix_digits 8 3 i
      | Decimal \<Rightarrow> radix_digits 10 3 i
      | Hexadecimal \<Rightarrow> radix_digits 16 2 i)"

definition printer_of :: "printer_builder \<Rightarrow> printer" where
  "printer_of pb =
     \<lparr>idx = 0, line_buf = replicate (unat (8 * pb_panels pb)) 0, show_char_panel = pb_show_char_panel pb,
      show_position_panel = pb_show_position_panel pb, show_color = pb_show_color pb, curr_color = None,
      color_scheme = pb_color_scheme pb, border_style = pb_border_style pb,
      byte_hex_panel = map (format_byte (pb_base pb)) [0..<256],
      byte_char_panel = map (\<lambda>i. encode_utf8 (as_char (of_nat i) (pb_character_table pb))) [0..<256],
      byte_hex_panel_g = map (radix_digits 16 2) [0..<256],
      squeezer = (if pb_use_squeeze pb then SqIgnore else SqDisabled), display_offset = 0,
      panels = pb_panels pb, squeeze_byte = 0, group_size = pb_group_size pb,
      base_digits = of_nat (digits_of_base (pb_base pb)), endianness = pb_endianness pb,
      include_mode = pb_include_mode pb\<rparr>"

definition build :: "printer_builder \<Rightarrow> (hexyl_error, printer) outcome" where
  \<comment> \<open>\<open>vec![0; 8 * panels]\<close> panics past \<open>isize::MAX\<close> bytes, as does its length past \<open>usize::MAX\<close> where
    overflow is checked\<close>
  "build pb =
     (if isize_limit \<le> 8 * unat (pb_panels pb) then Panic else Ok (printer_of pb))"

definition set_display_offset :: "u64 \<Rightarrow> printer \<Rightarrow> printer" where
  "set_display_offset x p = p\<lparr>display_offset := x\<rparr>"

section \<open>Steps of the printer\<close>

type_synonym 'w step = "'w \<times> printer \<Rightarrow> ('w \<times> printer) \<times> (hexyl_error, unit) outcome"

fun steps :: "'w step list \<Rightarrow> 'w step" where
  \<comment> \<open>statements that end with a question mark, in sequence\<close>
  "steps [] s = (s, Ok ())"
| "steps (m # ms) s = sbind (m s) (\<lambda>s _. steps ms s)"

definition given :: "bool \<Rightarrow> 'w step \<Rightarrow> 'w step" where
  "given b m = (if b then m else steps [])"

definition change :: "(printer \<Rightarrow> printer) \<Rightarrow> 'w step" where
  "change f s = ((fst s, f (snd s)), Ok ())"

definition using_value :: "(hexyl_error, 'a) outcome \<Rightarrow> ('a \<Rightarrow> 'w step) \<Rightarrow> 'w step" where
  "using_value r k s = sbind (s, r) (\<lambda>s x. k x s)"

definition out :: "'w writer \<Rightarrow> bytes \<Rightarrow> 'w step" where
  "out W bs s = (case write_or HexylIo W bs (fst s) of (w, r) \<Rightarrow> ((w, snd s), r))"

definition flush_out :: "'w writer \<Rightarrow> 'w step" where
  "flush_out W s = (case flush_or HexylIo W (fst s) of (w, r) \<Rightarrow> ((w, snd s), r))"

definition out_entry :: "'w writer \<Rightarrow> bytes list \<Rightarrow> u8 \<Rightarrow> 'w step" where
  "out_entry W panel b = using_value (code_at panel (unat b)) (out W)"

definition line_width :: "printer \<Rightarrow> nat" where
  "line_width p = unat (8 * panels p)"

definition panel_sz :: "printer \<Rightarrow> (hexyl_error, nat) outcome" where
  "panel_sz p =
     (let group_sz = unat (base_digits p) * unat (group_size p) + 1 in
      if group_size p = 0 then Panic else Ok (1 + group_sz * (8 div unat (group_size p))))"

section \<open>Border, position, characters and bytes\<close>

definition write_border :: "'w writer \<Rightarrow> border_elements \<Rightarrow> 'w step" where
  "write_border W be s =
     (let p = snd s; h = horizontal_line be; c = column_separator be; l = left_corner be; r = right_corner be;
          h8 = replicate 8 h in
      using_value (panel_sz p) (\<lambda>sz. let h_repeat = replicate sz h in steps
        [if show_position_panel p then out W (utf8 ([l] @ h8 @ [c])) else out W (utf8 [l]),
         steps (replicate (unat (panels p - 1)) (out W (utf8 (h_repeat @ [c])))),
         if show_char_panel p then out W (utf8 (h_repeat @ [c])) else out W (utf8 h_repeat),
         if show_char_panel p then steps
           [steps (replicate (unat (panels p - 1)) (out W (utf8 (h8 @ [c])))), out W (utf8 (h8 @ [r, 10]))]
         else out W (utf8 [r, 10])]) s)"

definition print_header :: "'w writer \<Rightarrow> 'w step" where
  "print_header W s = (case header_elems (border_style (snd s)) of Some e \<Rightarrow> write_border W e s | None \<Rightarrow> steps [] s)"

definition print_footer :: "'w writer \<Rightarrow> 'w step" where
  "print_footer W s = (case footer_elems (border_style (snd s)) of Some e \<Rightarrow> write_border W e s | None \<Rightarrow> steps [] s)"

definition be_bytes :: "u64 \<Rightarrow> bytes" where
  "be_bytes v = rev (map (\<lambda>k. ucast (drop_bit (8 * k) v)) [0..<8])"

definition skip_zeros :: "nat \<Rightarrow> bytes \<Rightarrow> bytes" where
  \<comment> \<open>\<open>while byte_index[i] == 0 && i < k\<close>, and the bytes from \<open>i\<close> on\<close>
  "skip_zeros k bs = drop (length (takeWhile (\<lambda>b. b = 0) (take k bs))) bs"

definition print_position_panel :: "'w writer \<Rightarrow> palette \<Rightarrow> 'w step" where
  "print_position_panel W pal s =
     (let p = snd s; sep = out W (encode_utf8 (outer_sep (border_style p))) in steps
       [sep,
        given (show_color p) (out W (color_offset pal)),
        given (show_position_panel p) (steps
          [if squeezer p = SqPrint then steps
             [out W [42], given (show_color p) (out W (color_reset pal)), out W (replicate 7 32)]
           else steps
             [steps (map (out_entry W (byte_hex_panel_g p)) (skip_zeros 4 (be_bytes (idx p + display_offset p)))),
              given (show_color p) (out W (color_reset pal))],
           sep])] s)"

definition set_color :: "'w writer \<Rightarrow> palette \<Rightarrow> u8 \<Rightarrow> 'w step" where
  "set_color W pal b s =
     (let p = snd s in
      if show_color p then
        using_value (color pal b (color_scheme p)) (\<lambda>c.
          given (curr_color p \<noteq> Some c) (steps [out W c, change (curr_color_update (\<lambda>_. Some c))])) s
      else steps [] s)"

definition reset_color :: "'w writer \<Rightarrow> palette \<Rightarrow> 'w step" where
  "reset_color W pal s =
     given (show_color (snd s)) (steps [out W (color_reset pal), change (curr_color_update (\<lambda>_. None))]) s"

definition print_char :: "'w writer \<Rightarrow> palette \<Rightarrow> nat \<Rightarrow> 'w step" where
  "print_char W pal i s =
     (let p = snd s in steps
       [if squeezer p = SqPrint \<or> squeezer p = SqDelete then out W [32]
        else if i < length (line_buf p) then
          (let b = line_buf p ! i in steps [set_color W pal b, out_entry W (byte_char_panel p) b])
        else change (squeezer_update (\<lambda>_. SqPrint)),
        if i = unat (8 * panels p - 1) then
          steps [reset_color W pal, out W (encode_utf8 (outer_sep (border_style p)))]
        else given (i mod 8 = 7)
          (steps [reset_color W pal, out W (encode_utf8 (inner_sep (border_style p)))])] s)"

definition print_char_panel :: "'w writer \<Rightarrow> palette \<Rightarrow> 'w step" where
  "print_char_panel W pal s = steps (map (print_char W pal) [0..<length (line_buf (snd s))]) s"

definition print_byte :: "'w writer \<Rightarrow> palette \<Rightarrow> nat \<Rightarrow> u8 \<Rightarrow> 'w step" where
  "print_byte W pal i b s =
     (let p = snd s in steps
       [case squeezer p of
          SqPrint \<Rightarrow> steps
            [if \<not> show_position_panel p \<and> i = 0 then steps
               [given (show_color p) (out W (color_offset pal)), out_entry W (byte_char_panel p) 42,
                given (show_color p) (out W (color_reset pal))]
             else given (unat (group_size p) dvd i) (out W [32]),
             steps (replicate (unat (base_digits p)) (out W [32]))]
        | SqDelete \<Rightarrow> out W [32, 32, 32]
        | _ \<Rightarrow> steps
            [given (unat (group_size p) dvd i) (out W [32]), set_color W pal b,
             out_entry W (byte_hex_panel p) b],
        given (i mod 8 = 7) (steps
          [reset_color W pal, out W [32],
           if i mod line_width p = unat (8 * panels p - 1) then out W (encode_utf8 (outer_sep (border_style p)))
           else out W (encode_utf8 (inner_sep (border_style p)))])] s)"

function reverse_groups :: "nat \<Rightarrow> bytes \<Rightarrow> bytes" where
  "reverse_groups g xs =
     (if g = 0 \<or> xs = [] then xs else rev (take g xs) @ reverse_groups g (drop g xs))"
  by pat_completeness auto
termination by (relation "measure (\<lambda>(g, xs). length xs)") auto

declare reverse_groups.simps [simp del]

definition reorder_buffer_to_little_endian :: "printer \<Rightarrow> bytes \<Rightarrow> (hexyl_error, bytes) outcome" where
  \<comment> \<open>\<open>step_by(0)\<close> panics\<close>
  "reorder_buffer_to_little_endian p buf =
     (if group_size p = 0 then Panic else Ok (reverse_groups (unat (group_size p)) buf))"

definition print_bytes :: "'w writer \<Rightarrow> palette \<Rightarrow> 'w step" where
  "print_bytes W pal s =
     (let p = snd s in
      using_value (case endianness p of Little \<Rightarrow> reorder_buffer_to_little_endian p (line_buf p) | Big \<Rightarrow> Ok (line_buf p))
        (\<lambda>buf. steps (map (\<lambda>(i, b). print_byte W pal i b) (enumerate 0 buf))) s)"

section \<open>The include style\<close>

type_synonym ('r, 'w) loop_state = "'r \<times> ('w \<times> printer)"

definition on_printer :: "'w step \<Rightarrow> ('r \<times> ('w \<times> printer)) \<Rightarrow> ('r \<times> ('w \<times> printer)) \<times> (hexyl_error, unit) outcome" where
  "on_printer m s = (case m (snd s) of (ws, r) \<Rightarrow> ((fst s, ws), r))"

definition include_byte :: "'w writer \<Rightarrow> u8 \<Rightarrow> bool \<times> u32 \<Rightarrow> 'w step" where
  \<comment> \<open>one byte, after \<open>is_first_chunk\<close> and \<open>line_counter\<close>\<close>
  "include_byte W b c = steps
     [if 12 dvd sint (snd c) then steps [given (\<not> fst c \<or> 0 < sint (snd c)) (out W [44, 10]), out W [32, 32]]
      else out W [44, 32],
      out W ([48, 120] @ radix_digits 16 2 (unat b))]"

definition include_count :: "bool \<times> u32 \<Rightarrow> bool \<times> u32" where
  "include_count c = (if 12 dvd sint (snd c) then False else fst c, snd c + 1)"

fun include_bytes :: "'w writer \<Rightarrow> bytes \<Rightarrow> bool \<times> u32 \<Rightarrow> 'w step" where
  "include_bytes W [] c = steps []"
| "include_bytes W (b # bs) c = steps [include_byte W b c, include_bytes W bs (include_count c)]"

definition include_step ::
  "'r read_op \<Rightarrow> 'w writer \<Rightarrow> (nat \<times> bool \<times> u32) \<times> ('r, 'w) loop_state \<Rightarrow>
   ((nat \<times> bool \<times> u32) \<times> ('r, 'w) loop_state) \<times> (hexyl_error, unit option) outcome" where
  "include_step rd W st =
     (case st of ((total_bytes, c), (r, s)) \<Rightarrow>
        (case rd r 1024 of
           (r, Chunk bs) \<Rightarrow>
             if bs = [] then (((total_bytes, c), (r, s)), Ok (Some ()))
             else
               (case include_bytes W bs c s of
                  (s, res) \<Rightarrow>
                    (((total_bytes + length bs, (include_count ^^ length bs) c), (r, s)), obind res (\<lambda>_. Ok None)))
         | (r, _) \<Rightarrow> (((total_bytes, c), (r, s)), Err HexylIo)))"

definition print_bytes_in_include_style ::
  "'r read_op \<Rightarrow> 'w writer \<Rightarrow> ('r, 'w) loop_state \<Rightarrow> ('r, 'w) loop_state \<times> (hexyl_error, nat) outcome" where
  \<comment> \<open>with the number of bytes read\<close>
  "print_bytes_in_include_style rd W s =
     (case repeat (include_step rd W) ((0, (True, 0)), s) of
        (((total_bytes, c), s), r) \<Rightarrow>
          sbind (s, r) (\<lambda>s _. sbind (on_printer (out W [10]) s) (\<lambda>s _. (s, Ok total_bytes))))"

section \<open>The lines\<close>

fun ne_val :: "bytes \<Rightarrow> nat" where
  "ne_val [] = 0"
| "ne_val (b # bs) = unat b + 256 * ne_val bs"

definition from_ne_bytes :: "bytes \<Rightarrow> u64" where
  "from_ne_bytes w = of_nat (ne_val w)"

function chunks_exact :: "nat \<Rightarrow> 'a list \<Rightarrow> 'a list list" where
  "chunks_exact k xs = (if k = 0 \<or> length xs < k then [] else take k xs # chunks_exact k (drop k xs))"
  by pat_completeness auto
termination by (relation "measure (\<lambda>(k, xs). length xs)") auto

declare chunks_exact.simps [simp del]

definition all_words :: "bytes \<Rightarrow> u64 \<Rightarrow> bool" where
  \<comment> \<open>every machine word of the line is the given one\<close>
  "all_words buf v \<longleftrightarrow> list_all (\<lambda>w. from_ne_bytes w = v) (chunks_exact 8 buf)"

definition squeezed :: "printer \<Rightarrow> bool" where
  "squeezed p \<longleftrightarrow> (squeezer p = SqPrint \<or> squeezer p = SqDelete) \<and> all_words (line_buf p) (squeeze_byte p)"

definition advance :: "printer \<Rightarrow> printer" where
  "advance p = p\<lparr>idx := idx p + 8 * panels p\<rparr>"

definition note_squeeze :: "'w step" where
  \<comment> \<open>after a line: whether the next one may be squeezed\<close>
  "note_squeeze s =
     (let p = snd s; p = (if squeezer p = SqPrint then p\<lparr>squeezer := SqDelete\<rparr> else p) in
      if line_buf p = [] then (s, Panic)
      else
        let repeat_byte = ucast (hd (line_buf p)) * (- 1 div 255) in
        if squeezer p \<noteq> SqDisabled \<and> squeezer p \<noteq> SqDelete \<and> all_words (line_buf p) repeat_byte
        then ((fst s, p\<lparr>squeezer := SqPrint, squeeze_byte := repeat_byte\<rparr>), Ok ())
        else ((fst s, p), Ok ()))"

definition print_line :: "'w writer \<Rightarrow> palette \<Rightarrow> bool \<Rightarrow> 'w step" where
  \<comment> \<open>the rest of the body of the loop, after the line has been read\<close>
  "print_line W pal is_empty = steps
     [given is_empty (print_header W),
      \<lambda>s. let p = snd s in
        if squeezed p \<and> squeezer p = SqDelete then change advance s
        else steps
          [given ((squeezer p = SqPrint \<or> squeezer p = SqDelete) \<and> \<not> squeezed p) (change (squeezer_update (\<lambda>_. SqIgnore))),
           print_position_panel W pal, print_bytes W pal, given (show_char_panel p) (print_char_panel W pal),
           out W [10], given is_empty (flush_out W), change advance, note_squeeze] s]"

section \<open>Reading and the loop\<close>

definition read_into :: "nat \<Rightarrow> bytes \<Rightarrow> bytes \<Rightarrow> bytes" where
  \<comment> \<open>the buffer after bytes have been read into it from an offset on\<close>
  "read_into off bs buf = take off buf @ bs @ drop (off + length bs) buf"

definition fill_step ::
  "'r read_op \<Rightarrow> nat \<Rightarrow> 'r \<times> bytes \<times> nat \<Rightarrow> ('r \<times> bytes \<times> nat) \<times> (hexyl_error, nat option option) outcome" where
  \<comment> \<open>the body of the inner loop: read the rest of the line, whatever the errors\<close>
  "fill_step rd width st =
     (case st of (r, buf, leftover) \<Rightarrow>
        (case rd r (length buf - leftover) of
           (r, Chunk bs) \<Rightarrow>
             let buf = read_into leftover bs buf; n = length bs; leftover = leftover + n in
             if n = 0 then ((r, take leftover buf, leftover), Ok (Some (Some leftover)))
             else if width \<le> leftover then ((r, buf, leftover), Ok (Some None))
             else ((r, buf, leftover), Ok None)
         | (r, _) \<Rightarrow> ((r, buf, leftover), Ok None)))"

datatype line_read =
    Full \<comment> \<open>go on with the line\<close>
  | Leftover "nat option" \<comment> \<open>the loop ends\<close>

definition read_line ::
  "'r read_op \<Rightarrow> 'w writer \<Rightarrow> bool \<Rightarrow> ('r, 'w) loop_state \<Rightarrow>
   ('r, 'w) loop_state \<times> (hexyl_error, bool \<times> line_read) outcome" where
  \<comment> \<open>the first part of the body of the loop, with the new value of \<open>is_empty\<close>\<close>
  "read_line rd W is_empty st =
     (case st of (r, w, p) \<Rightarrow>
        (case rd r (length (line_buf p)) of
           (r, Chunk bs) \<Rightarrow>
             let n = length bs; p = p\<lparr>line_buf := read_into 0 bs (line_buf p)\<rparr> in
             if 0 < n \<and> n < line_width p then
               sbind (on_printer (given is_empty (print_header W)) (r, w, p)) (\<lambda>(r, w, p) _.
                 case repeat (fill_step rd (line_width p)) (r, line_buf p, n) of
                   ((r, buf, _), res) \<Rightarrow>
                     ((r, w, p\<lparr>line_buf := buf\<rparr>),
                      obind res (\<lambda>l. Ok (False, case l of Some n \<Rightarrow> Leftover (Some n) | None \<Rightarrow> Full))))
             else if n = 0 then
               (if squeezer p = SqDelete then ((r, w, p\<lparr>line_buf := []\<rparr>), Ok (is_empty, Leftover (Some 0)))
                else ((r, w, p), Ok (is_empty, Leftover None)))
             else ((r, w, p), Ok (is_empty, Full))
         | (r, _) \<Rightarrow> ((r, w, p), Ok (is_empty, Full))))"

definition print_all_step ::
  "'r read_op \<Rightarrow> 'w writer \<Rightarrow> palette \<Rightarrow> bool \<times> ('r, 'w) loop_state \<Rightarrow>
   (bool \<times> ('r, 'w) loop_state) \<times> (hexyl_error, nat option option) outcome" where
  "print_all_step rd W pal st =
     (case read_line rd W (fst st) (snd st) of
        (s, Ok (e, Full)) \<Rightarrow>
          (let skipped = squeezed (snd (snd s)) \<and> squeezer (snd (snd s)) = SqDelete in
           case on_printer (print_line W pal e) s of (s, res) \<Rightarrow> ((e \<and> skipped, s), obind res (\<lambda>_. Ok None)))
      | (s, Ok (e, Leftover l)) \<Rightarrow> ((e, s), Ok (Some l))
      | (s, Err e) \<Rightarrow> ((fst st, s), Err e)
      | (s, Panic) \<Rightarrow> ((fst st, s), Panic)
      | (s, Diverge) \<Rightarrow> ((fst st, s), Diverge))"

section \<open>Printing everything\<close>

definition no_content :: "'w writer \<Rightarrow> 'w step" where
  "no_content W s =
     (let p = snd s; bar = 9474; blanks = \<lambda>n. replicate n 32 in
      using_value (panel_sz p) (\<lambda>sz. steps
        [given (show_position_panel p) (out W (utf8 (bar # blanks 8))),
         out W (utf8 ([bar, 32] @ ustr ''No content'' @ blanks (sz - 1 - 10) @ [bar] @ blanks sz @ [bar])),
         given (show_char_panel p) (out W (utf8 (blanks 8 @ [bar] @ blanks 8 @ [bar]))),
         out W [10]]) s)"

definition print_leftover :: "'w writer \<Rightarrow> palette \<Rightarrow> nat \<Rightarrow> 'w step" where
  \<comment> \<open>the last line, which is incomplete\<close>
  "print_leftover W pal n s =
     (let width = line_width (snd s); sq = \<lambda>x. change (squeezer_update (\<lambda>_. x)) in steps
       [sq SqIgnore, print_position_panel W pal, print_bytes W pal, sq SqPrint,
        steps (map (\<lambda>i. print_byte W pal i 0) [n..<width]),
        given (show_char_panel (snd s)) (steps
          [sq SqIgnore, print_char_panel W pal, sq SqPrint, steps (map (print_char W pal) [n..<width])]),
        out W [10]] s)"

definition print_end :: "'w writer \<Rightarrow> palette \<Rightarrow> bool \<Rightarrow> nat option \<Rightarrow> 'w step" where
  "print_end W pal is_empty leftover = steps
     [if is_empty then steps [change (base_digits_update (\<lambda>_. 2)), print_header W, no_content W]
      else (case leftover of Some n \<Rightarrow> print_leftover W pal n | None \<Rightarrow> steps []),
      print_footer W, flush_out W]"

definition finish_all ::
  "'w writer \<Rightarrow> palette \<Rightarrow> bool \<times> ('r, 'w) loop_state \<Rightarrow> nat option \<Rightarrow>
   (bool \<times> ('r, 'w) loop_state) \<times> (hexyl_error, unit) outcome" where
  "finish_all W pal st leftover =
     (case on_printer (print_end W pal (fst st) leftover) (snd st) of (s, r) \<Rightarrow> ((fst st, s), r))"

definition dump_all ::
  "'r read_op \<Rightarrow> 'w writer \<Rightarrow> palette \<Rightarrow> ('r, 'w) loop_state \<Rightarrow> ('r, 'w) loop_state \<times> (hexyl_error, unit) outcome" where
  \<comment> \<open>\<open>print_all\<close> from its loop on\<close>
  "dump_all rd W pal s =
     (case sbind (repeat (print_all_step rd W pal) (True, s)) (finish_all W pal) of ((e, s), r) \<Rightarrow> (s, r))"

definition print_from ::
  "(uchar \<Rightarrow> bool) \<Rightarrow> 'r read_op \<Rightarrow> 'w writer \<Rightarrow> palette \<Rightarrow> ('r, 'w) loop_state \<Rightarrow>
   ('r, 'w) loop_state \<times> (hexyl_error, unit) outcome" where
  \<comment> \<open>\<open>print_all\<close> with its buffered reader; the first argument is \<open>char::is_alphanumeric\<close>\<close>
  "print_from alnum rd W pal s =
     (case include_mode (snd (snd s)) of
        IncludeFile filename \<Rightarrow>
          (let var_name = map (\<lambda>c. if alnum c then c else 95) filename in
           sbind (on_printer (out W (utf8 (ustr ''unsigned char '' @ var_name @ ustr ''[] = {'' @ [10]))) s) (\<lambda>s _.
           sbind (print_bytes_in_include_style rd W s) (\<lambda>s total_bytes.
             on_printer (steps
               [out W (bstr ''};'' @ [10]),
                out W (utf8 (ustr ''unsigned int '' @ var_name @ ustr ''_len = '' @ dec_digits total_bytes @ [59, 10]))]) s)))
      | IncludeOff \<Rightarrow> dump_all rd W pal s
      | _ \<Rightarrow> sbind (print_bytes_in_include_style rd W s) (\<lambda>s _. (s, Ok ())))"

definition print_all ::
  "(uchar \<Rightarrow> bool) \<Rightarrow> 'r read_op \<Rightarrow> 'w writer \<Rightarrow> palette \<Rightarrow> ('r, 'w) loop_state \<Rightarrow>
   ('r, 'w) loop_state \<times> (hexyl_error, unit) outcome" where
  "print_all alnum rd W pal s =
     (case print_from alnum (buf_read rd) W pal (([], fst s), snd s) of (((_, r), ws), res) \<Rightarrow> ((r, ws), res))"

end
