(* ===== verification/Hexyl_Prints.thy ===== *)
theory Hexyl_Prints
  imports Hexyl_Printer
begin

text \<open>
  What the steps of the printer print. \<open>prints m p bs p'\<close>: from the printer state \<open>p\<close> the step writes
  \<open>bs\<close> and leaves \<open>p'\<close>, or a write fails after a prefix of \<open>bs\<close>; the rules follow the statements of the
  code. The text of each step is given by a function of the options of the printer.
\<close>

section \<open>Rules\<close>

declare steps.simps [simp del]

definition prints ::
  "bool \<Rightarrow> ('w \<Rightarrow> bytes) \<Rightarrow> 'w step \<Rightarrow> printer \<Rightarrow> bytes \<Rightarrow> printer \<Rightarrow> bool" where
  "prints fb content m p bs p' \<longleftrightarrow>
     (\<forall>w. emits (\<lambda>e. fb \<and> e = HexylIo) (content \<circ> fst) (w, p) (m (w, p)) bs (\<lambda>s _. snd s = p'))"

lemma printsI:
  "(\<And>w. emits (\<lambda>e. fb \<and> e = HexylIo) (content \<circ> fst) (w, p) (m (w, p)) bs (\<lambda>s _. snd s = p')) \<Longrightarrow>
   prints fb content m p bs p'"
  by (simp add: prints_def)

lemma prints_emits:
  assumes "prints fb content m (snd s) bs p'"
  shows "emits (\<lambda>e. fb \<and> e = HexylIo) (content \<circ> fst) s (m s) bs (\<lambda>s _. snd s = p')"
  using assms by (cases s) (simp add: prints_def)

named_theorems prints_intro \<open>what a step prints\<close>

lemma prints_nil [prints_intro]: "prints fb content (steps []) p [] p"
  by (rule printsI) (simp add: emits_def steps.simps)

lemma prints_cons [prints_intro]:
  assumes "prints fb content m p b1 p1" and "prints fb content (steps ms) p1 b2 p2"
  shows "prints fb content (steps (m # ms)) p (b1 @ b2) p2"
proof (rule printsI)
  fix w
  show "emits (\<lambda>e. fb \<and> e = HexylIo) (content \<circ> fst) (w, p) (steps (m # ms) (w, p)) (b1 @ b2) (\<lambda>s _. snd s = p2)"
    unfolding steps.simps
  proof (rule emits_bind [OF prints_emits])
    show "prints fb content m (snd (w, p)) b1 p1" using assms(1) by simp
    fix s' :: "'a \<times> printer" and x assume "snd s' = p1"
    with assms(2) show "emits (\<lambda>e. fb \<and> e = HexylIo) (content \<circ> fst) s' (steps ms s') b2 (\<lambda>s _. snd s = p2)"
      by (intro prints_emits) simp
  qed
qed

lemma prints_change [prints_intro]: "prints fb content (change f) p [] (f p)"
  by (rule printsI) (simp add: emits_def change_def)

lemma prints_given [prints_intro]:
  "(b \<Longrightarrow> prints fb content m p x p') \<Longrightarrow> prints fb content (given b m) p (if b then x else []) (if b then p' else p)"
  by (simp add: given_def prints_nil)

lemma prints_value:
  "r = Ok x \<Longrightarrow> prints fb content (k x) p bs p' \<Longrightarrow> prints fb content (using_value r k) p bs p'"
  by (simp add: prints_def using_value_def)

lemma prints_at:
  "(\<And>w. m (w, p) = m' (w, p)) \<Longrightarrow> prints fb content m' p bs p' \<Longrightarrow> prints fb content m p bs p'"
  by (simp add: prints_def)

lemma prints_range:
  assumes "n \<le> k" and "\<And>i. n \<le> i \<Longrightarrow> i < k \<Longrightarrow> prints fb content (f i) (P i) (t i) (P (Suc i))"
  shows "prints fb content (steps (map f [n..<k])) (P n) (concat (map t [n..<k])) (P k)"
  using assms
proof (induction "k - n" arbitrary: n)
  case 0
  then show ?case by (simp add: prints_nil)
next
  case (Suc d)
  then have u: "[n..<k] = n # [Suc n..<k]" by (intro upt_conv_Cons) simp
  have "prints fb content (steps (map f [Suc n..<k])) (P (Suc n)) (concat (map t [Suc n..<k])) (P k)"
    using Suc by simp
  moreover have "prints fb content (f n) (P n) (t n) (P (Suc n))" using Suc by simp
  ultimately have "prints fb content (steps (f n # map f [Suc n..<k])) (P n) (t n @ concat (map t [Suc n..<k])) (P k)"
    by (rule prints_cons [rotated])
  with u show ?case by simp
qed

lemma prints_replicate:
  assumes "prints fb content m p bs p"
  shows "prints fb content (steps (replicate n m)) p (concat (replicate n bs)) p"
  by (induction n) (auto intro: prints_nil prints_cons [OF assms])

context byte_writer
begin

lemma prints_out: "prints fb content (out W bs) p bs p"
proof (rule printsI)
  fix w
  obtain w' r where m: "write_or HexylIo W bs w = (w', r)" by (cases "write_or HexylIo W bs w")
  have "emits (\<lambda>e. fb \<and> e = HexylIo) content w (w', r) bs (\<lambda>_ _. True)"
    using write_or_emits [of HexylIo w bs] m by simp
  with m show "emits (\<lambda>e. fb \<and> e = HexylIo) (content \<circ> fst) (w, p) (out W bs (w, p)) bs (\<lambda>s _. snd s = p)"
    by (auto simp: out_def emits_def split: outcome.splits)
qed

lemma prints_flush: "prints fb content (flush_out W) p [] p"
proof (rule printsI)
  fix w
  obtain w' r where m: "flush_or HexylIo W w = (w', r)" by (cases "flush_or HexylIo W w")
  have "emits (\<lambda>e. fb \<and> e = HexylIo) content w (w', r) [] (\<lambda>w _. settled w)"
    using flush_or_emits [of HexylIo w] m by simp
  with m show "emits (\<lambda>e. fb \<and> e = HexylIo) (content \<circ> fst) (w, p) (flush_out W (w, p)) [] (\<lambda>s _. snd s = p)"
    by (auto simp: flush_out_def emits_def split: outcome.splits)
qed

lemma prints_out_if:
  "prints fb content (if b then out W x else out W y) p (if b then x else y) p"
  by (simp add: prints_out)

lemma prints_given_out: "prints fb content (given b (out W x)) p (if b then x else []) p"
  by (cases b) (auto simp: given_def prints_out prints_nil)

lemma prints_entry: "unat b < length panel \<Longrightarrow> prints fb content (out_entry W panel b) p (panel ! unat b) p"
  unfolding out_entry_def
  by (rule prints_value [where x = "panel ! unat b"]) (simp_all add: code_at_def prints_out)

end

section \<open>The text of the steps\<close>

definition separator :: "(border_style \<Rightarrow> uchar) \<Rightarrow> printer \<Rightarrow> bytes" where
  "separator sep p = encode_utf8 (sep (border_style p))"

definition colored :: "bytes \<Rightarrow> printer \<Rightarrow> bytes" where
  \<comment> \<open>a terminal code, when colours are shown\<close>
  "colored c p = (if show_color p then c else [])"

definition tint :: "palette \<Rightarrow> printer \<Rightarrow> u8 \<Rightarrow> bytes" where
  "tint pal p b = (case color pal b (color_scheme p) :: (hexyl_error, bytes) outcome of Ok c \<Rightarrow> c | _ \<Rightarrow> [])"

definition paint :: "palette \<Rightarrow> printer \<Rightarrow> bytes option \<Rightarrow> u8 \<Rightarrow> bytes" where
  "paint pal p prev b = (if prev = Some (tint pal p b) then [] else colored (tint pal p b) p)"

definition last_color :: "palette \<Rightarrow> printer \<Rightarrow> bytes \<Rightarrow> nat \<Rightarrow> bytes option" where
  \<comment> \<open>the current colour before byte \<open>i\<close> of a line\<close>
  "last_color pal p xs i = (if show_color p \<and> i mod 8 \<noteq> 0 then Some (tint pal p (xs ! (i - 1))) else None)"

definition panel_end :: "palette \<Rightarrow> printer \<Rightarrow> nat \<Rightarrow> bytes" where
  "panel_end pal p i =
     (if i mod 8 = 7 then
        colored (color_reset pal) p @ [32] @
        (if Suc i = line_width p then separator outer_sep p else separator inner_sep p)
      else [])"

definition char_end :: "palette \<Rightarrow> printer \<Rightarrow> nat \<Rightarrow> bytes" where
  "char_end pal p i =
     (if i mod 8 = 7 then
        colored (color_reset pal) p @ (if Suc i = line_width p then separator outer_sep p else separator inner_sep p)
      else [])"

definition group_space :: "printer \<Rightarrow> nat \<Rightarrow> bytes" where
  "group_space p i = (if unat (group_size p) dvd i then [32] else [])"

definition byte_cell :: "palette \<Rightarrow> printer \<Rightarrow> bytes \<Rightarrow> nat \<Rightarrow> bytes" where
  "byte_cell pal p xs i =
     group_space p i @ paint pal p (last_color pal p xs i) (xs ! i) @ byte_hex_panel p ! unat (xs ! i) @
     panel_end pal p i"

definition blank_cell :: "palette \<Rightarrow> printer \<Rightarrow> nat \<Rightarrow> bytes" where
  "blank_cell pal p i =
     (if \<not> show_position_panel p \<and> i = 0 then
        colored (color_offset pal) p @ byte_char_panel p ! 42 @ colored (color_reset pal) p
      else group_space p i) @ replicate (unat (base_digits p)) 32 @ panel_end pal p i"

definition char_cell :: "palette \<Rightarrow> printer \<Rightarrow> bytes \<Rightarrow> nat \<Rightarrow> bytes" where
  "char_cell pal p xs i =
     paint pal p (last_color pal p xs i) (xs ! i) @ byte_char_panel p ! unat (xs ! i) @ char_end pal p i"

definition blank_char :: "palette \<Rightarrow> printer \<Rightarrow> nat \<Rightarrow> bytes" where
  "blank_char pal p i = [32] @ char_end pal p i"

definition position_text :: "palette \<Rightarrow> printer \<Rightarrow> bool \<Rightarrow> nat \<Rightarrow> bytes" where
  "position_text pal p star pos =
     separator outer_sep p @ colored (color_offset pal) p @
     (if show_position_panel p then
        (if star then [42] @ colored (color_reset pal) p @ replicate 7 32
         else concat (map (\<lambda>b. byte_hex_panel_g p ! unat b) (skip_zeros 4 (be_bytes (of_nat pos + display_offset p)))) @
              colored (color_reset pal) p) @ separator outer_sep p
      else [])"

definition printer_ok :: "palette \<Rightarrow> printer \<Rightarrow> bool" where
  \<comment> \<open>what \<open>printer_of\<close> gives: the tables of 256 entries, a valid group size, panels that do not overflow\<close>
  "printer_ok pal p \<longleftrightarrow>
     palette_ok pal \<and> length (byte_hex_panel p) = 256 \<and> length (byte_char_panel p) = 256 \<and>
     length (byte_hex_panel_g p) = 256 \<and> group_size p \<noteq> 0 \<and> 0 < unat (panels p) \<and> unat (panels p) < 2 ^ 61"

lemmas text_defs =
  separator_def colored_def tint_def paint_def last_color_def line_width_def panel_end_def char_end_def
  group_space_def byte_cell_def blank_cell_def char_cell_def blank_char_def position_text_def printer_ok_def

text \<open>The texts depend on the options only, not on the fields that change while printing.\<close>

lemma frame_idx [simp]:
  "separator sep (p\<lparr>idx := v\<rparr>) = separator sep p"
  "colored c (p\<lparr>idx := v\<rparr>) = colored c p"
  "tint pal (p\<lparr>idx := v\<rparr>) b = tint pal p b"
  "paint pal (p\<lparr>idx := v\<rparr>) prev b = paint pal p prev b"
  "last_color pal (p\<lparr>idx := v\<rparr>) xs i = last_color pal p xs i"
  "line_width (p\<lparr>idx := v\<rparr>) = line_width p"
  "panel_end pal (p\<lparr>idx := v\<rparr>) = panel_end pal p"
  "char_end pal (p\<lparr>idx := v\<rparr>) = char_end pal p"
  "group_space (p\<lparr>idx := v\<rparr>) = group_space p"
  "byte_cell pal (p\<lparr>idx := v\<rparr>) xs = byte_cell pal p xs"
  "blank_cell pal (p\<lparr>idx := v\<rparr>) = blank_cell pal p"
  "char_cell pal (p\<lparr>idx := v\<rparr>) xs = char_cell pal p xs"
  "blank_char pal (p\<lparr>idx := v\<rparr>) = blank_char pal p"
  "position_text pal (p\<lparr>idx := v\<rparr>) star pos = position_text pal p star pos"
  "printer_ok pal (p\<lparr>idx := v\<rparr>) = printer_ok pal p"
  by (simp_all add: text_defs fun_eq_iff)

lemma frame_line_buf [simp]:
  "separator sep (p\<lparr>line_buf := v\<rparr>) = separator sep p"
  "colored c (p\<lparr>line_buf := v\<rparr>) = colored c p"
  "tint pal (p\<lparr>line_buf := v\<rparr>) b = tint pal p b"
  "paint pal (p\<lparr>line_buf := v\<rparr>) prev b = paint pal p prev b"
  "last_color pal (p\<lparr>line_buf := v\<rparr>) xs i = last_color pal p xs i"
  "line_width (p\<lparr>line_buf := v\<rparr>) = line_width p"
  "panel_end pal (p\<lparr>line_buf := v\<rparr>) = panel_end pal p"
  "char_end pal (p\<lparr>line_buf := v\<rparr>) = char_end pal p"
  "group_space (p\<lparr>line_buf := v\<rparr>) = group_space p"
  "byte_cell pal (p\<lparr>line_buf := v\<rparr>) xs = byte_cell pal p xs"
  "blank_cell pal (p\<lparr>line_buf := v\<rparr>) = blank_cell pal p"
  "char_cell pal (p\<lparr>line_buf := v\<rparr>) xs = char_cell pal p xs"
  "blank_char pal (p\<lparr>line_buf := v\<rparr>) = blank_char pal p"
  "position_text pal (p\<lparr>line_buf := v\<rparr>) star pos = position_text pal p star pos"
  "printer_ok pal (p\<lparr>line_buf := v\<rparr>) = printer_ok pal p"
  by (simp_all add: text_defs fun_eq_iff)

lemma frame_curr_color [simp]:
  "separator sep (p\<lparr>curr_color := v\<rparr>) = separator sep p"
  "colored c (p\<lparr>curr_color := v\<rparr>) = colored c p"
  "tint pal (p\<lparr>curr_color := v\<rparr>) b = tint pal p b"
  "paint pal (p\<lparr>curr_color := v\<rparr>) prev b = paint pal p prev b"
  "last_color pal (p\<lparr>curr_color := v\<rparr>) xs i = last_color pal p xs i"
  "line_width (p\<lparr>curr_color := v\<rparr>) = line_width p"
  "panel_end pal (p\<lparr>curr_color := v\<rparr>) = panel_end pal p"
  "char_end pal (p\<lparr>curr_color := v\<rparr>) = char_end pal p"
  "group_space (p\<lparr>curr_color := v\<rparr>) = group_space p"
  "byte_cell pal (p\<lparr>curr_color := v\<rparr>) xs = byte_cell pal p xs"
  "blank_cell pal (p\<lparr>curr_color := v\<rparr>) = blank_cell pal p"
  "char_cell pal (p\<lparr>curr_color := v\<rparr>) xs = char_cell pal p xs"
  "blank_char pal (p\<lparr>curr_color := v\<rparr>) = blank_char pal p"
  "position_text pal (p\<lparr>curr_color := v\<rparr>) star pos = position_text pal p star pos"
  "printer_ok pal (p\<lparr>curr_color := v\<rparr>) = printer_ok pal p"
  by (simp_all add: text_defs fun_eq_iff)

lemma frame_squeezer [simp]:
  "separator sep (p\<lparr>squeezer := v\<rparr>) = separator sep p"
  "colored c (p\<lparr>squeezer := v\<rparr>) = colored c p"
  "tint pal (p\<lparr>squeezer := v\<rparr>) b = tint pal p b"
  "paint pal (p\<lparr>squeezer := v\<rparr>) prev b = paint pal p prev b"
  "last_color pal (p\<lparr>squeezer := v\<rparr>) xs i = last_color pal p xs i"
  "line_width (p\<lparr>squeezer := v\<rparr>) = line_width p"
  "panel_end pal (p\<lparr>squeezer := v\<rparr>) = panel_end pal p"
  "char_end pal (p\<lparr>squeezer := v\<rparr>) = char_end pal p"
  "group_space (p\<lparr>squeezer := v\<rparr>) = group_space p"
  "byte_cell pal (p\<lparr>squeezer := v\<rparr>) xs = byte_cell pal p xs"
  "blank_cell pal (p\<lparr>squeezer := v\<rparr>) = blank_cell pal p"
  "char_cell pal (p\<lparr>squeezer := v\<rparr>) xs = char_cell pal p xs"
  "blank_char pal (p\<lparr>squeezer := v\<rparr>) = blank_char pal p"
  "position_text pal (p\<lparr>squeezer := v\<rparr>) star pos = position_text pal p star pos"
  "printer_ok pal (p\<lparr>squeezer := v\<rparr>) = printer_ok pal p"
  by (simp_all add: text_defs fun_eq_iff)

lemma frame_squeeze_byte [simp]:
  "separator sep (p\<lparr>squeeze_byte := v\<rparr>) = separator sep p"
  "colored c (p\<lparr>squeeze_byte := v\<rparr>) = colored c p"
  "tint pal (p\<lparr>squeeze_byte := v\<rparr>) b = tint pal p b"
  "paint pal (p\<lparr>squeeze_byte := v\<rparr>) prev b = paint pal p prev b"
  "last_color pal (p\<lparr>squeeze_byte := v\<rparr>) xs i = last_color pal p xs i"
  "line_width (p\<lparr>squeeze_byte := v\<rparr>) = line_width p"
  "panel_end pal (p\<lparr>squeeze_byte := v\<rparr>) = panel_end pal p"
  "char_end pal (p\<lparr>squeeze_byte := v\<rparr>) = char_end pal p"
  "group_space (p\<lparr>squeeze_byte := v\<rparr>) = group_space p"
  "byte_cell pal (p\<lparr>squeeze_byte := v\<rparr>) xs = byte_cell pal p xs"
  "blank_cell pal (p\<lparr>squeeze_byte := v\<rparr>) = blank_cell pal p"
  "char_cell pal (p\<lparr>squeeze_byte := v\<rparr>) xs = char_cell pal p xs"
  "blank_char pal (p\<lparr>squeeze_byte := v\<rparr>) = blank_char pal p"
  "position_text pal (p\<lparr>squeeze_byte := v\<rparr>) star pos = position_text pal p star pos"
  "printer_ok pal (p\<lparr>squeeze_byte := v\<rparr>) = printer_ok pal p"
  by (simp_all add: text_defs fun_eq_iff)

lemma line_width_eq: "printer_ok pal p \<Longrightarrow> line_width p = 8 * unat (panels p)"
  by (simp add: printer_ok_def line_width_def unat_word_ariths)

lemma line_width_pos: "printer_ok pal p \<Longrightarrow> 0 < line_width p"
  by (auto simp: line_width_eq) (simp add: printer_ok_def)

lemma last_place: "printer_ok pal p \<Longrightarrow> unat (8 * panels p - 1) = line_width p - 1"
  using line_width_pos [of pal p] unfolding line_width_def
  by (subst unat_sub_if_size) (auto simp: word_le_nat_alt)

lemma tint_eq:
  "printer_ok pal p \<Longrightarrow> (color pal b (color_scheme p) :: (hexyl_error, bytes) outcome) = Ok (tint pal p b)"
  using color_Ok [of pal b "color_scheme p", where ?'a = hexyl_error] by (auto simp: printer_ok_def tint_def)

lemma prints_subst: "prints fb content m p bs p' \<Longrightarrow> bs = bs' \<Longrightarrow> p' = p'' \<Longrightarrow> prints fb content m p bs' p''"
  by simp

lemma prints_if:
  "(b \<Longrightarrow> prints fb content m p x p') \<Longrightarrow> (\<not> b \<Longrightarrow> prints fb content m' p y p') \<Longrightarrow>
   prints fb content (if b then m else m') p (if b then x else y) p'"
  by simp

section \<open>Colours, bytes and characters\<close>

definition next_color :: "palette \<Rightarrow> printer \<Rightarrow> nat \<Rightarrow> u8 \<Rightarrow> bytes option" where
  "next_color pal p i b =
     (if \<not> show_color p then curr_color p else if i mod 8 = 7 then None else Some (tint pal p b))"

context byte_writer
begin

lemma prints_set_color:
  assumes "printer_ok pal p"
  shows "prints fb content (set_color W pal b) p (paint pal p (curr_color p) b)
    (p\<lparr>curr_color := if show_color p then Some (tint pal p b) else curr_color p\<rparr>)"
proof (cases "show_color p")
  case True
  let ?k = "\<lambda>c. given (curr_color p \<noteq> Some c) (steps [out W c, change (curr_color_update (\<lambda>_. Some c))])"
  have "prints fb content (?k (tint pal p b)) p (paint pal p (curr_color p) b) (p\<lparr>curr_color := Some (tint pal p b)\<rparr>)"
    by (rule prints_subst, (rule prints_given prints_cons prints_out prints_change prints_nil)+)
      (auto simp: paint_def colored_def True)
  then have "prints fb content (using_value (color pal b (color_scheme p)) ?k) p (paint pal p (curr_color p) b)
      (p\<lparr>curr_color := Some (tint pal p b)\<rparr>)"
    by (rule prints_value [OF tint_eq [OF assms]])
  with True show ?thesis by (auto intro: prints_at simp: set_color_def Let_def)
next
  case False
  then have "p\<lparr>curr_color := if show_color p then Some (tint pal p b) else curr_color p\<rparr> = p" by simp
  with False show ?thesis
    by (auto intro!: prints_at [OF _ prints_nil] simp: set_color_def paint_def colored_def simp del: if_False)
qed

lemma prints_reset_color:
  "prints fb content (reset_color W pal) p (colored (color_reset pal) p)
     (p\<lparr>curr_color := if show_color p then None else curr_color p\<rparr>)"
  by (rule prints_at [where m' = "given (show_color p) (steps [out W (color_reset pal), change (curr_color_update (\<lambda>_. None))])"],
      simp add: reset_color_def,
      rule prints_subst, (rule prints_given prints_cons prints_out prints_change prints_nil)+)
    (auto simp: colored_def)

lemma prints_panel_end:
  assumes "printer_ok pal p" and "i < line_width p"
  shows "prints fb content
    (given (i mod 8 = 7) (steps
       [reset_color W pal, out W [32],
        if i mod line_width p = unat (8 * panels p - 1) then out W (encode_utf8 (outer_sep (border_style p)))
        else out W (encode_utf8 (inner_sep (border_style p)))])) (p\<lparr>curr_color := c\<rparr>) (panel_end pal p i)
    (p\<lparr>curr_color := if show_color p \<and> i mod 8 = 7 then None else c\<rparr>)"
  by (rule prints_subst,
      (rule prints_given prints_cons prints_reset_color prints_out prints_out_if prints_nil)+)
    (use assms in \<open>auto simp: last_place panel_end_def separator_def\<close>)

lemma prints_byte:
  assumes ok: "printer_ok pal p" and i: "i < line_width p" and sq: "squeezer p \<in> {SqIgnore, SqDisabled}"
  shows "prints fb content (print_byte W pal i b) p
    (group_space p i @ paint pal p (curr_color p) b @ byte_hex_panel p ! unat b @ panel_end pal p i)
    (p\<lparr>curr_color := next_color pal p i b\<rparr>)"
proof -
  let ?p = "p\<lparr>curr_color := if show_color p then Some (tint pal p b) else curr_color p\<rparr>"
  have "unat b < length (byte_hex_panel p)" using ok unat_u8_less [of b] by (simp add: printer_ok_def)
  from prints_entry [OF this]
  have 1: "prints fb content (steps [given (unat (group_size p) dvd i) (out W [32]), set_color W pal b,
      out_entry W (byte_hex_panel p) b]) p (group_space p i @ paint pal p (curr_color p) b @ byte_hex_panel p ! unat b) ?p"
    by - (rule prints_subst, (rule prints_cons prints_given_out prints_set_color prints_nil ok | assumption)+,
      auto simp: group_space_def)
  have 2: "prints fb content
    (given (i mod 8 = 7) (steps
       [reset_color W pal, out W [32],
        if i mod line_width p = unat (8 * panels p - 1) then out W (encode_utf8 (outer_sep (border_style p)))
        else out W (encode_utf8 (inner_sep (border_style p)))])) ?p (panel_end pal p i)
    (p\<lparr>curr_color := next_color pal p i b\<rparr>)"
    by (rule prints_subst [OF prints_panel_end [OF ok i]]) (auto simp: next_color_def)
  show ?thesis
    by (rule prints_at [OF _ prints_subst [OF prints_cons [OF 1 prints_cons [OF 2 prints_nil]]]])
      (use sq in \<open>auto simp: print_byte_def Let_def\<close>)
qed

lemma prints_blank:
  assumes ok: "printer_ok pal p" and i: "i < line_width p" and sq: "squeezer p = SqPrint"
  shows "prints fb content (print_byte W pal i b) p (blank_cell pal p i)
    (p\<lparr>curr_color := if show_color p \<and> i mod 8 = 7 then None else curr_color p\<rparr>)"
proof -
  have 42: "unat (42 :: u8) = 42" by simp
  have "unat (42 :: u8) < length (byte_char_panel p)" using ok by (simp add: printer_ok_def)
  from prints_entry [OF this]
  have 1: "prints fb content (steps
      [if \<not> show_position_panel p \<and> i = 0 then steps
         [given (show_color p) (out W (color_offset pal)), out_entry W (byte_char_panel p) 42,
          given (show_color p) (out W (color_reset pal))]
       else given (unat (group_size p) dvd i) (out W [32]),
       steps (replicate (unat (base_digits p)) (out W [32]))]) p
      ((if \<not> show_position_panel p \<and> i = 0 then
          colored (color_offset pal) p @ byte_char_panel p ! 42 @ colored (color_reset pal) p
        else group_space p i) @ replicate (unat (base_digits p)) 32) p"
    by - (rule prints_subst, (rule prints_cons prints_if prints_replicate prints_given_out prints_out prints_nil | assumption)+,
      auto simp: group_space_def colored_def concat_replicate_trivial)
  show ?thesis
    by (rule prints_at [OF _ prints_subst [OF prints_cons [OF 1 prints_cons
          [OF prints_panel_end [OF ok i, of "curr_color p"], simplified, OF prints_nil]]]])
      (use sq in \<open>auto simp: print_byte_def Let_def blank_cell_def\<close>)
qed

lemma prints_char_end:
  assumes ok: "printer_ok pal p" and "i < line_width p"
  shows "prints fb content
    (if i = unat (8 * panels p - 1) then
       steps [reset_color W pal, out W (encode_utf8 (outer_sep (border_style p)))]
     else given (i mod 8 = 7) (steps [reset_color W pal, out W (encode_utf8 (inner_sep (border_style p)))]))
    (p\<lparr>curr_color := c\<rparr>) (char_end pal p i)
    (p\<lparr>curr_color := if show_color p \<and> i mod 8 = 7 then None else c\<rparr>)"
proof (cases "Suc i = line_width p")
  case True
  then have "i = unat (8 * panels p - 1)" using last_place [OF ok] by simp
  moreover from True have "i mod 8 = 7" unfolding line_width_eq [OF ok] by presburger
  moreover have "prints fb content (steps [reset_color W pal, out W (encode_utf8 (outer_sep (border_style p)))])
      (p\<lparr>curr_color := c\<rparr>) (colored (color_reset pal) p @ separator outer_sep p)
      (p\<lparr>curr_color := if show_color p then None else c\<rparr>)"
    by (rule prints_subst, (rule prints_cons prints_reset_color prints_out prints_nil)+) (auto simp: separator_def)
  ultimately show ?thesis using True by (simp add: char_end_def)
next
  case False
  then have "i \<noteq> unat (8 * panels p - 1)" using last_place [OF ok] assms(2) by auto
  moreover have "prints fb content
      (given (i mod 8 = 7) (steps [reset_color W pal, out W (encode_utf8 (inner_sep (border_style p)))]))
      (p\<lparr>curr_color := c\<rparr>) (char_end pal p i) (p\<lparr>curr_color := if show_color p \<and> i mod 8 = 7 then None else c\<rparr>)"
    by (rule prints_subst, (rule prints_given prints_cons prints_reset_color prints_out prints_nil)+)
      (use False in \<open>auto simp: separator_def char_end_def\<close>)
  ultimately show ?thesis by simp
qed

lemma prints_char:
  assumes ok: "printer_ok pal p" and i: "i < line_width p" and l: "i < length (line_buf p)"
    and sq: "squeezer p \<in> {SqIgnore, SqDisabled}"
  shows "prints fb content (print_char W pal i) p
    (paint pal p (curr_color p) (line_buf p ! i) @ byte_char_panel p ! unat (line_buf p ! i) @ char_end pal p i)
    (p\<lparr>curr_color := next_color pal p i (line_buf p ! i)\<rparr>)"
proof -
  let ?b = "line_buf p ! i"
  have "unat ?b < length (byte_char_panel p)" using ok unat_u8_less [of ?b] by (simp add: printer_ok_def)
  from prints_entry [OF this]
  have 1: "prints fb content (steps [set_color W pal ?b, out_entry W (byte_char_panel p) ?b]) p
      (paint pal p (curr_color p) ?b @ byte_char_panel p ! unat ?b)
      (p\<lparr>curr_color := if show_color p then Some (tint pal p ?b) else curr_color p\<rparr>)"
    by - (rule prints_subst, (rule prints_cons prints_set_color prints_nil ok | assumption)+, auto)
  show ?thesis
    by (rule prints_at [OF _ prints_subst [OF prints_cons [OF 1 prints_cons [OF prints_char_end [OF ok i] prints_nil]]]])
      (use sq l in \<open>auto simp: print_char_def Let_def next_color_def\<close>)
qed

lemma prints_blank_char:
  assumes ok: "printer_ok pal p" and i: "i < line_width p" and sq: "squeezer p = SqPrint"
  shows "prints fb content (print_char W pal i) p (blank_char pal p i)
    (p\<lparr>curr_color := if show_color p \<and> i mod 8 = 7 then None else curr_color p\<rparr>)"
  by (rule prints_at [OF _ prints_subst [OF prints_cons [OF prints_out [of "[32]"] prints_cons
        [OF prints_char_end [OF ok i, of "curr_color p", simplified] prints_nil]]]])
    (use sq in \<open>auto simp: print_char_def Let_def blank_char_def\<close>)

end

end
