(* ===== verification/Hexyl_Rows.thy ===== *)
theory Hexyl_Rows
  imports Hexyl_Prints
begin

text \<open>
  The rows of the table: the text of a row, and that the printer prints it for a full line, for a
  squeezed line and for an incomplete last line; the border and the table of an empty input.
\<close>

section \<open>Texts\<close>

datatype row = Row nat bytes | Star \<comment> \<open>a line at its position, or the mark of squeezed lines\<close>

definition shown_order :: "printer \<Rightarrow> bytes \<Rightarrow> bytes" where
  "shown_order p xs = (case endianness p of Little \<Rightarrow> reverse_groups (unat (group_size p)) xs | Big \<Rightarrow> xs)"

definition byte_cells :: "palette \<Rightarrow> printer \<Rightarrow> bytes \<Rightarrow> bytes" where
  "byte_cells pal p xs = concat (map (byte_cell pal p xs) [0..<length xs])"

definition blank_cells :: "palette \<Rightarrow> printer \<Rightarrow> nat \<Rightarrow> bytes" where
  "blank_cells pal p n = concat (map (blank_cell pal p) [n..<line_width p])"

definition char_cells :: "palette \<Rightarrow> printer \<Rightarrow> bytes \<Rightarrow> bytes" where
  "char_cells pal p xs = concat (map (char_cell pal p xs) [0..<length xs])"

definition blank_chars :: "palette \<Rightarrow> printer \<Rightarrow> nat \<Rightarrow> bytes" where
  "blank_chars pal p n = concat (map (blank_char pal p) [n..<line_width p])"

fun row_text :: "palette \<Rightarrow> printer \<Rightarrow> row \<Rightarrow> bytes" where
  "row_text pal p (Row pos xs) =
     position_text pal p False pos @ byte_cells pal p (shown_order p xs) @ blank_cells pal p (length xs) @
     (if show_char_panel p then char_cells pal p xs @ blank_chars pal p (length xs) else []) @ [10]"
| "row_text pal p Star =
     position_text pal p True 0 @ blank_cells pal p 0 @
     (if show_char_panel p then blank_chars pal p 0 else []) @ [10]"

lemmas row_defs = shown_order_def byte_cells_def blank_cells_def char_cells_def blank_chars_def

lemma frame_row_idx [simp]:
  "shown_order (p\<lparr>idx := v\<rparr>) xs = shown_order p xs"
  "byte_cells pal (p\<lparr>idx := v\<rparr>) xs = byte_cells pal p xs"
  "blank_cells pal (p\<lparr>idx := v\<rparr>) n = blank_cells pal p n"
  "char_cells pal (p\<lparr>idx := v\<rparr>) xs = char_cells pal p xs"
  "blank_chars pal (p\<lparr>idx := v\<rparr>) n = blank_chars pal p n"
  "row_text pal (p\<lparr>idx := v\<rparr>) r = row_text pal p r"
  by (simp_all add: row_defs split: endianness.splits, cases r, simp_all add: row_defs split: endianness.splits)

lemma frame_row_line_buf [simp]:
  "shown_order (p\<lparr>line_buf := v\<rparr>) xs = shown_order p xs"
  "byte_cells pal (p\<lparr>line_buf := v\<rparr>) xs = byte_cells pal p xs"
  "blank_cells pal (p\<lparr>line_buf := v\<rparr>) n = blank_cells pal p n"
  "char_cells pal (p\<lparr>line_buf := v\<rparr>) xs = char_cells pal p xs"
  "blank_chars pal (p\<lparr>line_buf := v\<rparr>) n = blank_chars pal p n"
  "row_text pal (p\<lparr>line_buf := v\<rparr>) r = row_text pal p r"
  by (simp_all add: row_defs split: endianness.splits, cases r, simp_all add: row_defs split: endianness.splits)

lemma frame_row_curr_color [simp]:
  "shown_order (p\<lparr>curr_color := v\<rparr>) xs = shown_order p xs"
  "byte_cells pal (p\<lparr>curr_color := v\<rparr>) xs = byte_cells pal p xs"
  "blank_cells pal (p\<lparr>curr_color := v\<rparr>) n = blank_cells pal p n"
  "char_cells pal (p\<lparr>curr_color := v\<rparr>) xs = char_cells pal p xs"
  "blank_chars pal (p\<lparr>curr_color := v\<rparr>) n = blank_chars pal p n"
  "row_text pal (p\<lparr>curr_color := v\<rparr>) r = row_text pal p r"
  by (simp_all add: row_defs split: endianness.splits, cases r, simp_all add: row_defs split: endianness.splits)

lemma frame_row_squeezer [simp]:
  "shown_order (p\<lparr>squeezer := v\<rparr>) xs = shown_order p xs"
  "byte_cells pal (p\<lparr>squeezer := v\<rparr>) xs = byte_cells pal p xs"
  "blank_cells pal (p\<lparr>squeezer := v\<rparr>) n = blank_cells pal p n"
  "char_cells pal (p\<lparr>squeezer := v\<rparr>) xs = char_cells pal p xs"
  "blank_chars pal (p\<lparr>squeezer := v\<rparr>) n = blank_chars pal p n"
  "row_text pal (p\<lparr>squeezer := v\<rparr>) r = row_text pal p r"
  by (simp_all add: row_defs split: endianness.splits, cases r, simp_all add: row_defs split: endianness.splits)

lemma frame_row_squeeze_byte [simp]:
  "shown_order (p\<lparr>squeeze_byte := v\<rparr>) xs = shown_order p xs"
  "byte_cells pal (p\<lparr>squeeze_byte := v\<rparr>) xs = byte_cells pal p xs"
  "blank_cells pal (p\<lparr>squeeze_byte := v\<rparr>) n = blank_cells pal p n"
  "char_cells pal (p\<lparr>squeeze_byte := v\<rparr>) xs = char_cells pal p xs"
  "blank_chars pal (p\<lparr>squeeze_byte := v\<rparr>) n = blank_chars pal p n"
  "row_text pal (p\<lparr>squeeze_byte := v\<rparr>) r = row_text pal p r"
  by (simp_all add: row_defs split: endianness.splits, cases r, simp_all add: row_defs split: endianness.splits)

lemma length_reverse_groups [simp]: "length (reverse_groups g xs) = length xs"
proof (induction g xs rule: reverse_groups.induct)
  case (1 g xs)
  then show ?case by (subst reverse_groups.simps) auto
qed

lemma length_shown_order [simp]: "length (shown_order p xs) = length xs"
  by (simp add: shown_order_def split: endianness.splits)

section \<open>Lines\<close>

lemma next_color_last:
  assumes "i < length xs"
  shows "next_color pal (p\<lparr>curr_color := last_color pal p xs i\<rparr>) i (xs ! i) = last_color pal p xs (Suc i)"
proof -
  have "Suc i mod 8 \<noteq> 0 \<longleftrightarrow> i mod 8 \<noteq> 7" by presburger
  then show ?thesis by (auto simp: next_color_def last_color_def)
qed

lemma last_color_start: "curr_color p = None \<Longrightarrow> p\<lparr>curr_color := last_color pal p xs 0\<rparr> = p"
  by (simp add: last_color_def)

definition held_color :: "palette \<Rightarrow> printer \<Rightarrow> bytes \<Rightarrow> nat \<Rightarrow> bytes option" where
  \<comment> \<open>the current colour before the blank at \<open>i\<close> that fills up an incomplete line\<close>
  "held_color pal p xs i = (if i div 8 = length xs div 8 then last_color pal p xs (length xs) else None)"

lemma held_color_next:
  assumes "length xs \<le> i"
  shows "(if show_color p \<and> i mod 8 = 7 then None else held_color pal p xs i) = held_color pal p xs (Suc i)"
proof (cases "i mod 8 = 7")
  case True
  then have "Suc i div 8 = Suc (i div 8)" by presburger
  moreover have "length xs div 8 \<le> i div 8" using assms by (rule div_le_mono)
  ultimately show ?thesis using True by (auto simp: held_color_def last_color_def)
next
  case False
  then have "Suc i div 8 = i div 8" by presburger
  with False show ?thesis by (simp add: held_color_def)
qed

lemma held_color_end:
  assumes "printer_ok pal p" and "length xs \<le> line_width p"
  shows "held_color pal p xs (line_width p) = None"
proof -
  have "n mod 8 = 0" if "n \<le> 8 * k" "k = n div 8" for n k :: nat using that by presburger
  with assms show ?thesis by (auto simp: held_color_def last_color_def line_width_eq)
qed

context byte_writer
begin

lemma prints_position_panel:
  assumes ok: "printer_ok pal p"
  shows "prints fb content (print_position_panel W pal) (p\<lparr>idx := of_nat pos\<rparr>)
    (position_text pal p (squeezer p = SqPrint) pos) (p\<lparr>idx := of_nat pos\<rparr>)"
proof -
  let ?p = "p\<lparr>idx := of_nat pos\<rparr>"
  let ?bs = "skip_zeros 4 (be_bytes (of_nat pos + display_offset p))"
  have e: "unat b < length (byte_hex_panel_g p)" for b :: u8
    using ok unat_u8_less [of b] by (simp add: printer_ok_def)
  have d: "prints fb content (steps (map (out_entry W (byte_hex_panel_g p)) bs)) q
      (concat (map (\<lambda>b. byte_hex_panel_g p ! unat b) bs)) q" for bs q
    by (induction bs) (auto intro: prints_nil prints_cons [OF prints_entry [OF e]])
  have "prints fb content (steps
       [out W (separator outer_sep p),
        given (show_color p) (out W (color_offset pal)),
        given (show_position_panel p) (steps
          [if squeezer p = SqPrint then steps
             [out W [42], given (show_color p) (out W (color_reset pal)), out W (replicate 7 32)]
           else steps
             [steps (map (out_entry W (byte_hex_panel_g p)) ?bs),
              given (show_color p) (out W (color_reset pal))],
           out W (separator outer_sep p)])]) ?p (position_text pal p (squeezer p = SqPrint) pos) ?p"
    by (rule prints_subst, (rule prints_cons prints_if prints_out prints_given_out prints_given d prints_nil)+)
      (auto simp: position_text_def colored_def)
  from prints_at [OF _ this] show ?thesis by (simp add: print_position_panel_def Let_def separator_def)
qed

lemma prints_cells:
  assumes ok: "printer_ok pal p" and n: "length xs \<le> line_width p" and c: "curr_color p = None"
    and sq: "squeezer p \<in> {SqIgnore, SqDisabled}"
  shows "prints fb content (steps (map (\<lambda>(i, b). print_byte W pal i b) (enumerate 0 xs))) p (byte_cells pal p xs)
    (p\<lparr>curr_color := last_color pal p xs (length xs)\<rparr>)"
proof -
  have e: "map (\<lambda>(i, b). print_byte W pal i b) (enumerate 0 xs) = map (\<lambda>i. print_byte W pal i (xs ! i)) [0..<length xs]"
    by (rule nth_equalityI) (auto simp: nth_enumerate_eq)
  have "prints fb content (steps (map (\<lambda>i. print_byte W pal i (xs ! i)) [0..<length xs]))
      (p\<lparr>curr_color := last_color pal p xs 0\<rparr>) (concat (map (byte_cell pal p xs) [0..<length xs]))
      (p\<lparr>curr_color := last_color pal p xs (length xs)\<rparr>)"
  proof (rule prints_range)
    fix i assume i: "0 \<le> i" "i < length xs"
    show "prints fb content (print_byte W pal i (xs ! i)) (p\<lparr>curr_color := last_color pal p xs i\<rparr>)
        (byte_cell pal p xs i) (p\<lparr>curr_color := last_color pal p xs (Suc i)\<rparr>)"
      by (rule prints_subst [OF prints_byte]) (use ok i n sq in \<open>auto simp: byte_cell_def next_color_last\<close>)
  qed simp
  then show ?thesis by (simp add: e last_color_start [OF c] byte_cells_def)
qed

lemma prints_bytes:
  assumes ok: "printer_ok pal p" and n: "length (line_buf p) \<le> line_width p" and c: "curr_color p = None"
    and sq: "squeezer p \<in> {SqIgnore, SqDisabled}"
  shows "prints fb content (print_bytes W pal) p (byte_cells pal p (shown_order p (line_buf p)))
    (p\<lparr>curr_color := last_color pal p (shown_order p (line_buf p)) (length (line_buf p))\<rparr>)"
proof -
  let ?xs = "shown_order p (line_buf p)"
  have "(case endianness p of Little \<Rightarrow> reorder_buffer_to_little_endian p (line_buf p) | Big \<Rightarrow> Ok (line_buf p)) = Ok ?xs"
    using ok by (simp add: reorder_buffer_to_little_endian_def shown_order_def printer_ok_def split: endianness.splits)
  from prints_value [OF this, of fb content "\<lambda>buf. steps (map (\<lambda>(i, b). print_byte W pal i b) (enumerate 0 buf))",
      OF prints_cells [OF ok _ c sq, of ?xs]] n
  show ?thesis by (auto intro: prints_at simp: print_bytes_def Let_def)
qed

lemma prints_chars:
  assumes ok: "printer_ok pal p" and n: "length (line_buf p) \<le> line_width p" and c: "curr_color p = None"
    and sq: "squeezer p \<in> {SqIgnore, SqDisabled}"
  shows "prints fb content (print_char_panel W pal) p (char_cells pal p (line_buf p))
    (p\<lparr>curr_color := last_color pal p (line_buf p) (length (line_buf p))\<rparr>)"
proof -
  let ?xs = "line_buf p"
  have "prints fb content (steps (map (print_char W pal) [0..<length ?xs]))
      (p\<lparr>curr_color := last_color pal p ?xs 0\<rparr>) (concat (map (char_cell pal p ?xs) [0..<length ?xs]))
      (p\<lparr>curr_color := last_color pal p ?xs (length ?xs)\<rparr>)"
  proof (rule prints_range)
    fix i assume i: "0 \<le> i" "i < length ?xs"
    show "prints fb content (print_char W pal i) (p\<lparr>curr_color := last_color pal p ?xs i\<rparr>)
        (char_cell pal p ?xs i) (p\<lparr>curr_color := last_color pal p ?xs (Suc i)\<rparr>)"
      by (rule prints_subst [OF prints_char]) (use ok i n sq in \<open>auto simp: char_cell_def next_color_last\<close>)
  qed simp
  then show ?thesis
    by (auto intro: prints_at simp: print_char_panel_def last_color_start [OF c] char_cells_def)
qed

lemma prints_fill:
  assumes ok: "printer_ok pal p" and n: "length xs \<le> line_width p" and sq: "squeezer p = SqPrint"
  shows "prints fb content (steps (map (\<lambda>i. print_byte W pal i (ys i)) [length xs..<line_width p]))
      (p\<lparr>curr_color := last_color pal p xs (length xs)\<rparr>) (blank_cells pal p (length xs)) (p\<lparr>curr_color := None\<rparr>)"
    and "prints fb content (steps (map (print_char W pal) [length xs..<line_width p]))
      (p\<lparr>curr_color := last_color pal p xs (length xs)\<rparr>) (blank_chars pal p (length xs)) (p\<lparr>curr_color := None\<rparr>)"
proof -
  have h: "held_color pal p xs (length xs) = last_color pal p xs (length xs)" by (simp add: held_color_def)
  have b: "prints fb content (print_byte W pal i (ys i)) (p\<lparr>curr_color := held_color pal p xs i\<rparr>)
      (blank_cell pal p i) (p\<lparr>curr_color := held_color pal p xs (Suc i)\<rparr>)"
    if "length xs \<le> i" "i < line_width p" for i
    by (rule prints_subst [OF prints_blank]) (use ok that sq held_color_next [OF that(1), of p pal, symmetric] in auto)
  have c: "prints fb content (print_char W pal i) (p\<lparr>curr_color := held_color pal p xs i\<rparr>)
      (blank_char pal p i) (p\<lparr>curr_color := held_color pal p xs (Suc i)\<rparr>)"
    if "length xs \<le> i" "i < line_width p" for i
    by (rule prints_subst [OF prints_blank_char]) (use ok that sq held_color_next [OF that(1), of p pal, symmetric] in auto)
  from prints_range [OF n, of fb content _ "\<lambda>i. p\<lparr>curr_color := held_color pal p xs i\<rparr>", OF b]
    prints_range [OF n, of fb content _ "\<lambda>i. p\<lparr>curr_color := held_color pal p xs i\<rparr>", OF c]
  show "prints fb content (steps (map (\<lambda>i. print_byte W pal i (ys i)) [length xs..<line_width p]))
      (p\<lparr>curr_color := last_color pal p xs (length xs)\<rparr>) (blank_cells pal p (length xs)) (p\<lparr>curr_color := None\<rparr>)"
    and "prints fb content (steps (map (print_char W pal) [length xs..<line_width p]))
      (p\<lparr>curr_color := last_color pal p xs (length xs)\<rparr>) (blank_chars pal p (length xs)) (p\<lparr>curr_color := None\<rparr>)"
    by (simp_all add: h held_color_end [OF ok n] blank_cells_def blank_chars_def)
qed

lemma prints_blank_bytes:
  assumes ok: "printer_ok pal p" and n: "length (line_buf p) = line_width p" and c: "curr_color p = None"
    and sq: "squeezer p = SqPrint"
  shows "prints fb content (print_bytes W pal) p (blank_cells pal p 0) p"
proof -
  let ?xs = "shown_order p (line_buf p)"
  have v: "(case endianness p of Little \<Rightarrow> reorder_buffer_to_little_endian p (line_buf p) | Big \<Rightarrow> Ok (line_buf p)) = Ok ?xs"
    using ok by (simp add: reorder_buffer_to_little_endian_def shown_order_def printer_ok_def split: endianness.splits)
  have e: "map (\<lambda>(i, b). print_byte W pal i b) (enumerate 0 ?xs) = map (\<lambda>i. print_byte W pal i (?xs ! i)) [0..<line_width p]"
    by (rule nth_equalityI) (auto simp: nth_enumerate_eq n)
  have "p\<lparr>curr_color := None\<rparr> = p" using c by simp
  with prints_fill(1) [OF ok, of "[]" "\<lambda>i. ?xs ! i"] sq
  have "prints fb content (steps (map (\<lambda>i. print_byte W pal i (?xs ! i)) [0..<line_width p])) p (blank_cells pal p 0) p"
    by (simp add: last_color_def)
  from prints_value [OF v, of fb content "\<lambda>buf. steps (map (\<lambda>(i, b). print_byte W pal i b) (enumerate 0 buf))",
      OF this [folded e]]
  show ?thesis by (auto intro: prints_at simp: print_bytes_def Let_def)
qed

lemma prints_blank_chars:
  assumes ok: "printer_ok pal p" and n: "length (line_buf p) = line_width p" and c: "curr_color p = None"
    and sq: "squeezer p = SqPrint"
  shows "prints fb content (print_char_panel W pal) p (blank_chars pal p 0) p"
proof -
  have "p\<lparr>curr_color := None\<rparr> = p" using c by simp
  with prints_fill(2) [OF ok, of "[]"] sq
  have "prints fb content (steps (map (print_char W pal) [0..<length (line_buf p)])) p (blank_chars pal p 0) p"
    by (simp add: last_color_def n)
  then show ?thesis by (auto intro: prints_at simp: print_char_panel_def)
qed

lemma last_color_line: "printer_ok pal p \<Longrightarrow> last_color pal p xs (line_width p) = None"
  by (simp add: last_color_def line_width_eq)

lemma position_text_star: "position_text pal p True pos = position_text pal p True 0"
  by (simp add: position_text_def)

lemma prints_row:
  assumes ok: "printer_ok pal p" and n: "length (line_buf p) = line_width p" and c: "curr_color p = None"
    and i: "idx p = of_nat pos" and sq: "squeezer p \<in> {SqIgnore, SqDisabled}"
    and that: "prints fb content (steps ms) p txt p'"
  shows "prints fb content (steps (print_position_panel W pal # print_bytes W pal #
      given (show_char_panel p) (print_char_panel W pal) # out W [10] # ms)) p (row_text pal p (Row pos (line_buf p)) @ txt) p'"
proof -
  have p: "p\<lparr>curr_color := None\<rparr> = p" "p\<lparr>idx := of_nat pos\<rparr> = p" using c i by simp_all
  have 1: "prints fb content (print_position_panel W pal) p (position_text pal p False pos) p"
    using prints_position_panel [OF ok, of pos] sq by (auto simp: p)
  have 2: "prints fb content (print_bytes W pal) p (byte_cells pal p (shown_order p (line_buf p))) p"
    using prints_bytes [OF ok _ c sq] n by (simp add: last_color_line [OF ok] p)
  have 3: "prints fb content (print_char_panel W pal) p (char_cells pal p (line_buf p)) p"
    using prints_chars [OF ok _ c sq] n by (simp add: last_color_line [OF ok] p)
  show ?thesis
    by (rule prints_subst [OF prints_cons [OF 1 prints_cons [OF 2 prints_cons [OF prints_given [OF 3] prints_cons [OF prints_out]]]]])
      (use that in \<open>auto simp: n blank_cells_def blank_chars_def\<close>)
qed

lemma prints_star:
  assumes ok: "printer_ok pal p" and n: "length (line_buf p) = line_width p" and c: "curr_color p = None"
    and i: "idx p = of_nat pos" and sq: "squeezer p = SqPrint"
    and that: "prints fb content (steps ms) p txt p'"
  shows "prints fb content (steps (print_position_panel W pal # print_bytes W pal #
      given (show_char_panel p) (print_char_panel W pal) # out W [10] # ms)) p (row_text pal p Star @ txt) p'"
proof -
  have p: "p\<lparr>idx := of_nat pos\<rparr> = p" using i by simp
  have 1: "prints fb content (print_position_panel W pal) p (position_text pal p True 0) p"
    using prints_position_panel [OF ok, of pos] sq by (simp add: p position_text_star [of pal p pos])
  note 2 = prints_blank_bytes [OF ok n c sq] and 3 = prints_blank_chars [OF ok n c sq]
  show ?thesis
    by (rule prints_subst [OF prints_cons [OF 1 prints_cons [OF 2 prints_cons [OF prints_given [OF 3] prints_cons [OF prints_out]]]]])
      (use that in auto)
qed

lemma prints_leftover:
  assumes ok: "printer_ok pal p" and n: "length (line_buf p) \<le> line_width p" and c: "curr_color p = None"
    and i: "idx p = of_nat pos"
  shows "prints fb content (print_leftover W pal (length (line_buf p))) p (row_text pal p (Row pos (line_buf p)))
    (p\<lparr>squeezer := SqPrint\<rparr>)"
proof -
  let ?i = "p\<lparr>squeezer := SqIgnore\<rparr>" and ?p = "p\<lparr>squeezer := SqPrint\<rparr>" and ?xs = "line_buf p"
  have p: "p\<lparr>squeezer := sq, curr_color := None\<rparr> = p\<lparr>squeezer := sq\<rparr>" "p\<lparr>squeezer := sq, idx := of_nat pos\<rparr> = p\<lparr>squeezer := sq\<rparr>" for sq
    using c i by simp_all
  have 1: "prints fb content (print_position_panel W pal) ?i (position_text pal p False pos) ?i"
    using prints_position_panel [of pal ?i pos] ok by (simp add: p)
  have 2: "prints fb content (print_bytes W pal) ?i (byte_cells pal p (shown_order p ?xs))
      (?i\<lparr>curr_color := last_color pal p (shown_order p ?xs) (length ?xs)\<rparr>)"
    using prints_bytes [of pal ?i] ok n c by simp
  have 3: "prints fb content (print_char_panel W pal) ?i (char_cells pal p ?xs)
      (?i\<lparr>curr_color := last_color pal p ?xs (length ?xs)\<rparr>)"
    using prints_chars [of pal ?i] ok n c by simp
  have 4: "prints fb content (steps (map (\<lambda>i. print_byte W pal i 0) [length ?xs..<line_width p]))
      (?p\<lparr>curr_color := last_color pal p (shown_order p ?xs) (length ?xs)\<rparr>) (blank_cells pal p (length ?xs)) ?p"
    using prints_fill(1) [of pal ?p "shown_order p ?xs" "\<lambda>_. 0"] ok n by (simp add: p)
  have 5: "prints fb content (steps (map (print_char W pal) [length ?xs..<line_width p]))
      (?p\<lparr>curr_color := last_color pal p ?xs (length ?xs)\<rparr>) (blank_chars pal p (length ?xs)) ?p"
    using prints_fill(2) [of pal ?p ?xs] ok n by (simp add: p)
  have c1: "prints fb content (change (squeezer_update (\<lambda>_. SqIgnore))) q [] ?i" if "q\<lparr>squeezer := SqIgnore\<rparr> = ?i" for q
    using that by (intro prints_subst [OF prints_change]) simp_all
  have c2: "prints fb content (change (squeezer_update (\<lambda>_. SqPrint))) (?i\<lparr>curr_color := v\<rparr>) [] (?p\<lparr>curr_color := v\<rparr>)" for v
    by (rule prints_subst [OF prints_change]) simp_all
  have a: "prints fb content (steps [change (squeezer_update (\<lambda>_. SqIgnore)), print_char_panel W pal,
      change (squeezer_update (\<lambda>_. SqPrint)), steps (map (print_char W pal) [length ?xs..<line_width p])]) ?p
      (char_cells pal p ?xs @ blank_chars pal p (length ?xs)) ?p"
    by (rule prints_subst [OF prints_cons [OF c1 prints_cons [OF 3 prints_cons [OF c2 prints_cons [OF 5 prints_nil]]]]])
      simp_all
  show ?thesis
    by (rule prints_at [OF _ prints_subst [OF prints_cons [OF c1 [of p] prints_cons [OF 1 prints_cons [OF 2
          prints_cons [OF c2 prints_cons [OF 4 prints_cons [OF prints_given [OF a] prints_cons [OF prints_out prints_nil]]]]]]]]])
      (simp_all add: print_leftover_def Let_def)
qed

end

end
