(* ===== verification/Hexyl_Dump.thy ===== *)
theory Hexyl_Dump
  imports Hexyl_Rows
begin

text \<open>
  The table as a whole: the words of a line, the reading of a line over the pieces that arrive, and
  the loop of \<open>print_all\<close> as a function from the input to rows. \<open>rows\<close> is the abstract squeezing: a full
  line of one byte that repeats the line before it is replaced by one mark for all its repetitions.
\<close>

section \<open>The words of a line\<close>

lemma ne_val_less: "ne_val ws < 256 ^ length ws"
proof (induction ws)
  case (Cons b ws)
  have "unat b < 256" by (rule unat_u8_less)
  with Cons show ?case by simp
qed simp

lemma ne_val_inj: "length xs = length ys \<Longrightarrow> ne_val xs = ne_val ys \<Longrightarrow> xs = ys"
proof (induction xs ys rule: list_induct2)
  case (Cons x xs y ys)
  have digit: "a = b \<and> m = n" if "a + 256 * m = b + 256 * n" "a < 256" "b < 256" for a b m n :: nat
  proof -
    have "(a + 256 * m) mod 256 = a" "(b + 256 * n) mod 256 = b" "(a + 256 * m) div 256 = m" "(b + 256 * n) div 256 = n"
      using that(2,3) by simp_all
    with that(1) show ?thesis by metis
  qed
  from Cons.prems digit [of "unat x" "ne_val xs" "unat y" "ne_val ys"] unat_u8_less [of x] unat_u8_less [of y]
  have "unat x = unat y \<and> ne_val xs = ne_val ys" by simp
  with Cons.IH show ?case by (simp add: word_unat_eq_iff)
qed simp

definition repeat_byte :: "u8 \<Rightarrow> u64" where
  "repeat_byte b = ucast b * (- 1 div 255)"

lemma from_ne_bytes_iff:
  assumes "length w = 8"
  shows "from_ne_bytes w = repeat_byte b \<longleftrightarrow> w = replicate 8 b"
proof -
  have b: "unat b < 256" by (rule unat_u8_less)
  have c: "(- 1 div 255 :: u64) = 72340172838076673" by simp
  have "replicate 8 b = [b, b, b, b, b, b, b, b]" by (simp add: numeral_eq_Suc)
  then have "ne_val (replicate 8 b) = 72340172838076673 * unat b" by simp
  moreover have "unat (repeat_byte b) = 72340172838076673 * unat b"
  proof -
    have "unat (ucast b :: u64) = unat b" by (simp add: unsigned_ucast_eq take_bit_nat_eq_self_iff order.strict_trans [OF b])
    with b show ?thesis
      unfolding repeat_byte_def c by (subst unat_mult_lem [THEN iffD1]) (simp_all add: mult.commute)
  qed
  moreover have "unat (from_ne_bytes w) = ne_val w"
    using ne_val_less [of w] assms by (simp add: from_ne_bytes_def unat_of_nat_u64)
  ultimately have "from_ne_bytes w = repeat_byte b \<longleftrightarrow> ne_val w = ne_val (replicate 8 b)"
    by (simp add: word_unat_eq_iff)
  with ne_val_inj [of w "replicate 8 b"] assms show ?thesis by auto
qed

lemma all_words_iff:
  assumes "length xs = 8 * k"
  shows "all_words xs (repeat_byte b) \<longleftrightarrow> xs = replicate (length xs) b"
  using assms
proof (induction k arbitrary: xs)
  case 0
  then show ?case by (simp add: all_words_def chunks_exact.simps)
next
  case (Suc k)
  have "all_words xs (repeat_byte b) \<longleftrightarrow> take 8 xs = replicate 8 b \<and> all_words (drop 8 xs) (repeat_byte b)"
    using Suc.prems by (simp add: all_words_def chunks_exact.simps [of 8 xs] from_ne_bytes_iff)
  also have "\<dots> \<longleftrightarrow> take 8 xs = replicate 8 b \<and> drop 8 xs = replicate (length xs - 8) b"
    using Suc by simp
  also have "\<dots> \<longleftrightarrow> xs = replicate (8 + (length xs - 8)) b"
    unfolding replicate_add
    by (metis Suc.prems append_eq_conv_conj length_replicate append_take_drop_id)
  finally show ?case using Suc.prems by simp
qed

section \<open>Rows\<close>

type_synonym squeeze_state = "u8 option \<times> bool" \<comment> \<open>the byte of the last line, and whether a mark is out\<close>

definition uniform :: "bool \<Rightarrow> bytes \<Rightarrow> u8 option" where
  "uniform squeeze l = (if squeeze \<and> l = replicate (length l) (hd l) then Some (hd l) else None)"

definition repeats :: "squeeze_state \<Rightarrow> bytes \<Rightarrow> bool" where
  "repeats q l \<longleftrightarrow> (case fst q of Some b \<Rightarrow> l = replicate (length l) b | None \<Rightarrow> False)"

definition line_rows :: "squeeze_state \<Rightarrow> nat \<Rightarrow> bytes \<Rightarrow> row list" where
  "line_rows q pos l = (if repeats q l then (if snd q then [] else [Star]) else [Row pos l])"

definition next_squeeze :: "bool \<Rightarrow> squeeze_state \<Rightarrow> bytes \<Rightarrow> squeeze_state" where
  "next_squeeze squeeze q l = (if repeats q l then (fst q, True) else (uniform squeeze l, False))"

function rows :: "bool \<Rightarrow> nat \<Rightarrow> squeeze_state \<Rightarrow> nat \<Rightarrow> bytes \<Rightarrow> row list" where
  \<comment> \<open>with the length of a line, the state of the squeezing and the position\<close>
  "rows squeeze n q pos xs =
     (if n = 0 \<or> length xs < n then (if xs \<noteq> [] \<or> snd q then [Row pos xs] else [])
      else line_rows q pos (take n xs) @
        rows squeeze n (next_squeeze squeeze q (take n xs)) (pos + n) (drop n xs))"
  by pat_completeness auto
termination by (relation "measure (\<lambda>(sq, n, q, pos, xs). length xs)") auto

declare rows.simps [simp del]

section \<open>Printing a line\<close>

definition tracks :: "bool \<Rightarrow> squeeze_state \<Rightarrow> printer \<Rightarrow> bool" where
  \<comment> \<open>the fields of the squeezing stand for the abstract state\<close>
  "tracks squeeze q p \<longleftrightarrow>
     (case fst q of
        None \<Rightarrow> \<not> snd q \<and> squeezer p = (if squeeze then SqIgnore else SqDisabled)
      | Some b \<Rightarrow> squeeze \<and> squeeze_byte p = repeat_byte b \<and> squeezer p = (if snd q then SqDelete else SqPrint))"

lemma tracks_frame [simp]:
  "tracks squeeze q (p\<lparr>line_buf := l\<rparr>) = tracks squeeze q p" "tracks squeeze q (advance p) = tracks squeeze q p"
  by (simp_all add: tracks_def advance_def split: option.splits)

lemma squeezed_iff:
  assumes "printer_ok pal p" and "length (line_buf p) = line_width p" and "tracks squeeze q p"
  shows "squeezed p \<longleftrightarrow> repeats q (line_buf p)"
  using assms(3) all_words_iff [of "line_buf p" "unat (panels p)"] assms(2) line_width_eq [OF assms(1)]
  by (auto simp: squeezed_def repeats_def tracks_def split: option.splits if_splits)

lemma advance_idx:
  assumes "idx p = of_nat pos"
  shows "idx (advance p) = of_nat (pos + line_width p)"
  using assms by (simp add: advance_def line_width_def)

lemma advance_frame [simp]:
  "printer_ok pal (advance p) = printer_ok pal p" "row_text pal (advance p) r = row_text pal p r"
  "line_buf (advance p) = line_buf p" "curr_color (advance p) = curr_color p" "line_width (advance p) = line_width p"
  "squeezer (advance p) = squeezer p" "squeeze_byte (advance p) = squeeze_byte p"
  by (simp_all add: advance_def)

definition noted :: "printer \<Rightarrow> printer" where
  \<comment> \<open>what \<open>note_squeeze\<close> makes of a line that is not empty\<close>
  "noted p = snd (fst (note_squeeze ((), p)))"

lemma prints_note_squeeze: "line_buf p \<noteq> [] \<Longrightarrow> prints fb content note_squeeze p [] (noted p)"
  by (rule printsI) (auto simp: noted_def note_squeeze_def Let_def emits_def)

lemma noted_row:
  assumes ok: "printer_ok pal p" and n: "length (line_buf p) = line_width p"
    and sq: "squeezer p = (if squeeze then SqIgnore else SqDisabled)"
  shows "tracks squeeze (uniform squeeze (line_buf p), False) (noted p)"
proof -
  have "line_buf p \<noteq> []" using n line_width_pos [OF ok] by auto
  moreover have "all_words (line_buf p) (repeat_byte (hd (line_buf p))) \<longleftrightarrow>
      line_buf p = replicate (length (line_buf p)) (hd (line_buf p))"
    by (rule all_words_iff [of _ "unat (panels p)"]) (simp add: n line_width_eq [OF ok])
  ultimately show ?thesis
    using sq unfolding noted_def note_squeeze_def repeat_byte_def [symmetric]
    by (auto simp: Let_def tracks_def uniform_def repeat_byte_def [symmetric])
qed

lemma noted_star:
  assumes "line_buf p \<noteq> []" and "tracks squeeze (Some b, False) p"
  shows "tracks squeeze (Some b, True) (noted p)"
  using assms by (simp add: noted_def note_squeeze_def Let_def tracks_def)

lemma noted_frame [simp]:
  "line_buf (noted p) = line_buf p" "curr_color (noted p) = curr_color p" "idx (noted p) = idx p"
  "printer_ok pal (noted p) = printer_ok pal p" "row_text pal (noted p) r = row_text pal p r"
  "line_width (noted p) = line_width p"
  by (auto simp: noted_def note_squeeze_def Let_def)

definition border_text :: "printer \<Rightarrow> border_elements \<Rightarrow> bytes" where
  "border_text p be =
     (let h = horizontal_line be; c = column_separator be; k = unat (panels p - 1);
          wide = replicate (case panel_sz p of Ok sz \<Rightarrow> sz | _ \<Rightarrow> 0) h; narrow = replicate 8 h in
      utf8 (left_corner be # (if show_position_panel p then narrow @ [c] else []) @
        concat (replicate k (wide @ [c])) @ wide @
        (if show_char_panel p then c # concat (replicate k (narrow @ [c])) @ narrow else []) @
        [right_corner be, 10]))"

definition header_text :: "printer \<Rightarrow> bytes" where
  "header_text p = (case header_elems (border_style p) of Some e \<Rightarrow> border_text p e | None \<Rightarrow> [])"

definition footer_text :: "printer \<Rightarrow> bytes" where
  "footer_text p = (case footer_elems (border_style p) of Some e \<Rightarrow> border_text p e | None \<Rightarrow> [])"

definition options_of :: "printer \<Rightarrow> printer" where
  \<comment> \<open>what does not change while printing\<close>
  "options_of p = p\<lparr>idx := 0, line_buf := [], curr_color := None, squeezer := SqPrint, squeeze_byte := 0\<rparr>"

lemma panel_sz_options: "panel_sz (options_of p) = panel_sz p"
  by (simp add: panel_sz_def options_of_def)

lemma border_text_options: "border_text (options_of p) be = border_text p be"
  unfolding border_text_def panel_sz_options by (simp add: options_of_def)

lemma text_options:
  "row_text pal (options_of p) r = row_text pal p r" "printer_ok pal (options_of p) = printer_ok pal p"
  "line_width (options_of p) = line_width p" "header_text (options_of p) = header_text p"
  "footer_text (options_of p) = footer_text p"
  unfolding header_text_def footer_text_def border_text_options by (simp_all add: options_of_def)

lemma same_texts:
  assumes "options_of p' = options_of p"
  shows "row_text pal p' = row_text pal p" "printer_ok pal p' = printer_ok pal p" "line_width p' = line_width p"
    "header_text p' = header_text p" "footer_text p' = footer_text p"
  using text_options [where p = p] text_options [where p = p'] assms by (metis ext, metis+)

lemma options_frame [simp]:
  "options_of (advance p) = options_of p" "options_of (noted p) = options_of p"
  "options_of (p\<lparr>line_buf := l\<rparr>) = options_of p" "options_of (p\<lparr>squeezer := sq\<rparr>) = options_of p"
  by (auto simp: options_of_def advance_def noted_def note_squeeze_def Let_def)

lemma utf8_append [simp]: "utf8 (xs @ ys) = utf8 xs @ utf8 ys"
  by (simp add: utf8_def)

lemma utf8_concat_replicate: "utf8 (concat (replicate k xs)) = concat (replicate k (utf8 xs))"
  by (induction k) (simp_all add: utf8_def)

lemma utf8_simps [simp]: "utf8 [] = []" "utf8 (x # xs) = encode_utf8 x @ utf8 xs"
  by (simp_all add: utf8_def)

context byte_writer
begin

lemma prints_border:
  assumes "group_size p \<noteq> 0"
  shows "prints fb content (write_border W be) p (border_text p be) p"
proof -
  obtain sz where sz: "panel_sz p = Ok sz" using assms by (simp add: panel_sz_def)
  let ?h = "horizontal_line be" and ?c = "column_separator be" and ?l = "left_corner be" and ?r = "right_corner be"
  let ?w = "replicate sz ?h" and ?n = "replicate 8 ?h" and ?k = "unat (panels p - 1)"
  let ?m = "[if show_position_panel p then out W (utf8 ([?l] @ ?n @ [?c])) else out W (utf8 [?l]),
         steps (replicate ?k (out W (utf8 (?w @ [?c])))),
         if show_char_panel p then out W (utf8 (?w @ [?c])) else out W (utf8 ?w),
         if show_char_panel p then steps
           [steps (replicate ?k (out W (utf8 (?n @ [?c])))), out W (utf8 (?n @ [?r, 10]))]
         else out W (utf8 [?r, 10])]"
  have "prints fb content (steps ?m) p (border_text p be) p"
    by (rule prints_subst, (rule prints_cons prints_out_if prints_if prints_replicate prints_out prints_nil)+)
      (auto simp: border_text_def sz Let_def utf8_concat_replicate)
  from prints_value [OF sz, of fb content "\<lambda>sz. steps
      [if show_position_panel p then out W (utf8 ([?l] @ ?n @ [?c])) else out W (utf8 [?l]),
         steps (replicate ?k (out W (utf8 (replicate sz ?h @ [?c])))),
         if show_char_panel p then out W (utf8 (replicate sz ?h @ [?c])) else out W (utf8 (replicate sz ?h)),
         if show_char_panel p then steps
           [steps (replicate ?k (out W (utf8 (?n @ [?c])))), out W (utf8 (?n @ [?r, 10]))]
         else out W (utf8 [?r, 10])]", OF this]
  show ?thesis by (auto intro: prints_at simp: write_border_def Let_def)
qed

lemma prints_header:
  assumes "group_size p \<noteq> 0"
  shows "prints fb content (print_header W) p (header_text p) p" "prints fb content (print_footer W) p (footer_text p) p"
  using prints_border [OF assms] prints_nil [of fb content p]
  by (auto simp: prints_def print_header_def print_footer_def header_text_def footer_text_def split: option.splits)

lemma prints_print_line:
  assumes ok: "printer_ok pal p" and n: "length (line_buf p) = line_width p" and c: "curr_color p = None"
    and i: "idx p = of_nat pos" and t: "tracks squeeze q p"
  shows "\<exists>p'. prints fb content (print_line W pal e) p
      ((if e then header_text p else []) @ concat (map (row_text pal p) (line_rows q pos (line_buf p)))) p' \<and>
    tracks squeeze (next_squeeze squeeze q (line_buf p)) p' \<and> idx p' = of_nat (pos + line_width p) \<and>
    length (line_buf p') = line_width p \<and> curr_color p' = None \<and> options_of p' = options_of p"
proof -
  let ?l = "line_buf p"
  have g: "group_size p \<noteq> 0" using ok by (simp add: printer_ok_def)
  have ne: "?l \<noteq> []" using n line_width_pos [OF ok] by auto
  note sq = squeezed_iff [OF ok n t]
  have h: "prints fb content (given e (print_header W)) p (if e then header_text p else []) p"
    by (rule prints_subst [OF prints_given [OF prints_header(1) [OF g]]]) auto
  have a: "prints fb content (steps [given e (flush_out W), change advance, note_squeeze]) p2 [] (noted (advance p2))"
    if "line_buf p2 = ?l" for p2
    by (rule prints_subst [OF prints_cons [OF prints_given [OF prints_flush]
          prints_cons [OF prints_change prints_cons [OF prints_note_squeeze prints_nil]]]]) (use ne that in auto)
  let ?body = "\<lambda>s. let p = snd s in
        if squeezed p \<and> squeezer p = SqDelete then change advance s
        else steps
          [given ((squeezer p = SqPrint \<or> squeezer p = SqDelete) \<and> \<not> squeezed p) (change (squeezer_update (\<lambda>_. SqIgnore))),
           print_position_panel W pal, print_bytes W pal, given (show_char_panel p) (print_char_panel W pal),
           out W [10], given e (flush_out W), change advance, note_squeeze] s"
  have whole: "prints fb content (print_line W pal e) p ((if e then header_text p else []) @ x) p'"
    if "prints fb content ?body p x p'" for x p'
    unfolding print_line_def using prints_cons [OF h prints_cons [OF that prints_nil]] by simp
  show ?thesis
  proof (cases "repeats q ?l")
    case True
    then obtain b where b: "fst q = Some b" by (auto simp: repeats_def split: option.splits)
    show ?thesis
    proof (cases "snd q")
      case True
      with t b have d: "squeezer p = SqDelete" by (simp add: tracks_def)
      have "prints fb content ?body p [] (advance p)"
        by (rule prints_at [OF _ prints_change]) (simp add: sq \<open>repeats q ?l\<close> d Let_def)
      from whole [OF this] show ?thesis
        using True \<open>repeats q ?l\<close> t n c b advance_idx [OF i]
        by (intro exI [of _ "advance p"]) (auto simp: line_rows_def next_squeeze_def tracks_def split: option.splits)
    next
      case False
      with t b have d: "squeezer p = SqPrint" by (simp add: tracks_def)
      have "prints fb content ?body p (row_text pal p Star) (noted (advance p))"
        by (rule prints_at [OF _ prints_subst [OF prints_cons [OF prints_nil prints_star [OF ok n c i d a [OF refl]]]]])
          (auto simp: sq \<open>repeats q ?l\<close> d Let_def given_def)
      moreover have "tracks squeeze (Some b, True) (noted (advance p))"
        by (rule noted_star) (use t b ne False in \<open>auto simp: tracks_def\<close>)
      ultimately show ?thesis
        using whole False \<open>repeats q ?l\<close> n c b advance_idx [OF i]
        by (intro exI [of _ "noted (advance p)"]) (auto simp: line_rows_def next_squeeze_def)
    qed
  next
    case False
    define p1 where "p1 = (if fst q = None then p else p\<lparr>squeezer := SqIgnore\<rparr>)"
    have p1: "squeezer p1 = (if squeeze then SqIgnore else SqDisabled)" "line_buf p1 = ?l" "curr_color p1 = None"
      "idx p1 = of_nat pos" "options_of p1 = options_of p" "show_char_panel p1 = show_char_panel p"
      using t c i by (auto simp: p1_def tracks_def split: option.splits)
    note same = same_texts [OF p1(5)]
    have g1: "prints fb content (given ((squeezer p = SqPrint \<or> squeezer p = SqDelete) \<and> \<not> squeezed p)
        (change (squeezer_update (\<lambda>_. SqIgnore)))) p [] p1"
    proof (cases "fst q")
      case None
      then have "squeezer p \<noteq> SqPrint" "squeezer p \<noteq> SqDelete" "p1 = p"
        using t by (auto simp: tracks_def p1_def)
      then show ?thesis by (simp add: given_def prints_nil)
    next
      case (Some b)
      then have "squeezer p = SqPrint \<or> squeezer p = SqDelete" "p1 = p\<lparr>squeezer := SqIgnore\<rparr>"
        using t by (auto simp: tracks_def p1_def)
      with False show ?thesis by (simp add: sq given_def prints_subst [OF prints_change])
    qed
    have "prints fb content (steps (print_position_panel W pal # print_bytes W pal #
        given (show_char_panel p1) (print_char_panel W pal) # out W [10] #
        [given e (flush_out W), change advance, note_squeeze])) p1 (row_text pal p1 (Row pos (line_buf p1)) @ [])
        (noted (advance p1))"
      by (rule prints_row [OF _ _ p1(3,4) _ a [OF p1(2)]]) (use ok n p1 same in auto)
    have "prints fb content ?body p (row_text pal p (Row pos ?l)) (noted (advance p1))"
      by (rule prints_at [OF _ prints_subst [OF prints_cons [OF g1 \<open>prints fb content (steps (print_position_panel W pal # _)) _ _ _\<close>]]])
        (simp_all add: sq False p1(2,6) same(1) del: row_text.simps)
    moreover have "tracks squeeze (uniform squeeze (line_buf (advance p1)), False) (noted (advance p1))"
      by (rule noted_row) (use ok n p1 same in auto)
    ultimately show ?thesis
      using whole False n c p1 same advance_idx [OF p1(4)]
      by (intro exI [of _ "noted (advance p1)"]) (auto simp: line_rows_def next_squeeze_def)
  qed
qed

end

section \<open>Reading a line\<close>

context byte_reader
begin

lemma fill_line:
  assumes "sound r" and "length pre < width" and "length buf = width" and "take (length pre) buf = pre"
  shows "\<exists>r'. sound r' \<and>
    (if width \<le> length pre + length (remaining r)
     then repeat (fill_step rd width) (r, buf, length pre) =
            ((r', take width (pre @ remaining r), width), Ok None) \<and>
          remaining r' = drop width (pre @ remaining r)
     else repeat (fill_step rd width) (r, buf, length pre) =
            ((r', pre @ remaining r, length (pre @ remaining r)), Ok (Some (length (pre @ remaining r)))) \<and>
          remaining r' = [])"
  using assms
proof (induction "length (remaining r)" arbitrary: r pre buf rule: less_induct)
  case less
  let ?k = "width - length pre"
  have k: "0 < ?k" using less.prems by simp
  from read_law [OF less.prems(1) k] obtain r' bs where r': "rd r ?k = (r', Chunk bs)" "length bs \<le> ?k"
    "remaining r = bs @ remaining r'" "sound r'" "bs = [] \<longrightarrow> remaining r = []" by blast
  let ?buf = "read_into (length pre) bs buf"
  have b: "length ?buf = width" "take (length (pre @ bs)) ?buf = pre @ bs"
    using less.prems r'(2) by (auto simp: read_into_def min_def)
  show ?case
  proof (cases "bs = []")
    case True
    with r' less.prems have "fill_step rd width (r, buf, length pre) = ((r', pre, length pre), Ok (Some (Some (length pre))))"
      by (simp add: Let_def fill_step_def read_into_def)
    with repeat_break [of "fill_step rd width", OF this] True r' less.prems show ?thesis by auto
  next
    case False
    show ?thesis
    proof (cases "width \<le> length (pre @ bs)")
      case True
      with b r'(2) have e: "length (pre @ bs) = width" "?buf = pre @ bs" by auto
      with r' False less.prems have "fill_step rd width (r, buf, length pre) = ((r', pre @ bs, width), Ok (Some None))"
        by (simp add: Let_def fill_step_def)
      with repeat_break [of "fill_step rd width", OF this] e r' show ?thesis by (auto intro!: exI [of _ r'])
    next
      case l: False
      with r' False less.prems have st: "fill_step rd width (r, buf, length pre) = ((r', ?buf, length (pre @ bs)), Ok None)"
        by (simp add: Let_def fill_step_def)
      from r' False have "length (remaining r') < length (remaining r)" by simp
      have "(pre @ bs) @ remaining r' = pre @ remaining r" "length (pre @ bs) + length (remaining r') = length pre + length (remaining r)"
        by (simp_all add: r'(3))
      with less.hyps [OF \<open>length (remaining r') < length (remaining r)\<close> r'(4) _ b] l obtain r'' where
        r'': "sound r''" "if width \<le> length pre + length (remaining r)
          then repeat (fill_step rd width) (r', ?buf, length (pre @ bs)) =
            ((r'', take width (pre @ remaining r), width), Ok None) \<and> remaining r'' = drop width (pre @ remaining r)
          else repeat (fill_step rd width) (r', ?buf, length (pre @ bs)) =
            ((r'', pre @ remaining r, length (pre @ remaining r)), Ok (Some (length (pre @ remaining r)))) \<and>
            remaining r'' = []"
        by (metis not_le_imp_less)
      then have "snd (repeat (fill_step rd width) (r', ?buf, length (pre @ bs))) \<noteq> Diverge"
        by (auto split: if_splits)
      from repeat_go_on [of "fill_step rd width", OF st this] r'' show ?thesis by auto
    qed
  qed
qed

end

end
