(* ===== verification/Hexyl_Table.thy ===== *)
theory Hexyl_Table
  imports Hexyl_Dump
begin

text \<open>
  The table that \<open>print_all\<close> prints: one iteration of its loop over any reader and any writer, the loop
  as a whole, the end of the table and the include style.
\<close>

section \<open>Steps of the printer in the loop\<close>

abbreviation printed :: "('w \<Rightarrow> bytes) \<Rightarrow> 'r \<times> 'w \<times> printer \<Rightarrow> bytes" where
  "printed content s \<equiv> content (fst (snd s))"

lemma emits_on_printer:
  assumes "prints fb content m p bs p'"
  shows "emits (\<lambda>e. fb \<and> e = HexylIo) (printed content) (r, w, p) (on_printer m (r, w, p)) bs
    (\<lambda>s _. fst s = r \<and> snd (snd s) = p')"
  using assms unfolding prints_def on_printer_def
  by (auto simp: emits_def split: outcome.splits prod.splits dest: spec [of _ w])

lemma emits_print_all_step:
  assumes read: "emits E (printed content) s (read_line rd W e s) o1 Q1"
    and full: "\<And>s' e'. Q1 s' (e', Full) \<Longrightarrow>
      emits E (printed content) s' (on_printer (print_line W pal e') s') o2
        (\<lambda>s'' _. Q ((e' \<and> squeezed (snd (snd s')) \<and> squeezer (snd (snd s')) = SqDelete), s'') None)"
    and last: "\<And>s' e' l. Q1 s' (e', Leftover l) \<Longrightarrow> o2 = [] \<and> Q (e', s') (Some l)"
  shows "emits E (\<lambda>st. printed content (snd st)) (e, s) (print_all_step rd W pal (e, s)) (o1 @ o2) Q"
proof -
  obtain s' r where m: "read_line rd W e s = (s', r)" by (cases "read_line rd W e s")
  show ?thesis
  proof (cases r)
    case (Ok x)
    obtain e' l where x: "x = (e', l)" by (cases x)
    from read m Ok x have 1: "printed content s' = printed content s @ o1" "Q1 s' (e', l)"
      by (simp_all add: emits_def)
    show ?thesis
    proof (cases l)
      case Full
      obtain s'' r' where m': "on_printer (print_line W pal e') s' = (s'', r')"
        by (cases "on_printer (print_line W pal e') s'")
      from full [of s' e'] 1(2) Full m' have "emits E (printed content) s' (s'', r') o2
          (\<lambda>s'' _. Q ((e' \<and> squeezed (snd (snd s')) \<and> squeezer (snd (snd s')) = SqDelete), s'') None)" by simp
      with m Ok x Full m' 1(1) show ?thesis
        by (auto simp: emits_def print_all_step_def Let_def split: outcome.splits)
    next
      case (Leftover l')
      with last [of s' e' l'] 1 m Ok x show ?thesis by (simp add: emits_def print_all_step_def)
    qed
  next
    case (Err er)
    with read m show ?thesis
      by (auto simp: emits_def print_all_step_def intro: prefix_order.trans)
  qed (use read m in \<open>simp_all add: emits_def\<close>)
qed

section \<open>Reading a line in the loop\<close>

lemma prints_maybe_header:
  assumes "byte_writer W content settled fb" and "printer_ok pal p" and "options_of q = options_of p"
  shows "prints fb content (given e (print_header W)) q (if e then header_text p else []) q"
proof -
  have "group_size q \<noteq> 0" using assms(2) same_texts(2) [OF assms(3), of pal] by (simp add: printer_ok_def)
  from byte_writer.prints_header(1) [OF assms(1) this] show ?thesis
    by (intro prints_subst [OF prints_given]) (auto simp: same_texts(4) [OF assms(3)])
qed

context byte_reader
begin

lemma read_line_end:
  assumes "sound r" and "remaining r = []" and "line_buf p \<noteq> []"
  shows "\<exists>r'. read_line rd W e (r, w, p) =
    ((r', w, if squeezer p = SqDelete then p\<lparr>line_buf := []\<rparr> else p),
     Ok (e, Leftover (if squeezer p = SqDelete then Some 0 else None)))"
  using read_law [of r "length (line_buf p)"] assms by (auto simp: read_line_def Let_def read_into_def)

lemma read_line_emits:
  assumes W: "byte_writer W content settled fb" and s: "sound r" and ok: "printer_ok pal p"
    and n: "length (line_buf p) = line_width p" and ne: "remaining r \<noteq> []"
  defines "p1 \<equiv> p\<lparr>line_buf := take (line_width p) (remaining r)\<rparr>"
  shows "if line_width p \<le> length (remaining r)
    then \<exists>e'. (e' \<longrightarrow> e) \<and> emits (\<lambda>e. fb \<and> e = HexylIo) (printed content) (r, w, p) (read_line rd W e (r, w, p))
        (if e \<and> \<not> e' then header_text p else [])
        (\<lambda>s x. x = (e', Full) \<and> snd (snd s) = p1 \<and> sound (fst s) \<and> remaining (fst s) = drop (line_width p) (remaining r))
    else emits (\<lambda>e. fb \<and> e = HexylIo) (printed content) (r, w, p) (read_line rd W e (r, w, p))
        (if e then header_text p else [])
        (\<lambda>s x. x = (False, Leftover (Some (length (remaining r)))) \<and> snd (snd s) = p1)"
proof -
  let ?n = "line_width p" and ?xs = "remaining r"
  have pos: "0 < ?n" by (rule line_width_pos [OF ok])
  with n have "0 < length (line_buf p)" by simp
  from read_law [OF s this] ne obtain r' bs where r': "rd r ?n = (r', Chunk bs)" "length bs \<le> ?n"
    "?xs = bs @ remaining r'" "sound r'" "bs \<noteq> []" unfolding n by blast
  show ?thesis
  proof (cases "length bs = ?n")
    case True
    with r' n pos have "read_line rd W e (r, w, p) = ((r', w, p1), Ok (e, Full))"
      by (auto simp: read_line_def Let_def read_into_def p1_def)
    with True r' show ?thesis by (auto simp: emits_def intro!: exI [of _ e])
  next
    case False
    let ?buf = "read_into 0 bs (line_buf p)" and ?q = "p\<lparr>line_buf := read_into 0 bs (line_buf p)\<rparr>"
    have b: "length bs < ?n" "length ?buf = ?n" "take (length bs) ?buf = bs"
      using False r'(2) n by (auto simp: read_into_def)
    let ?k = "\<lambda>(r, w, p) (_ :: unit).
                 case repeat (fill_step rd (line_width p)) (r, line_buf p, length bs) of
                   ((r, buf, _), res) \<Rightarrow>
                     ((r, w, p\<lparr>line_buf := buf\<rparr>),
                      obind res (\<lambda>l. Ok (False, case l of Some n \<Rightarrow> Leftover (Some n) | None \<Rightarrow> Full)))"
    have rl: "read_line rd W e (r, w, p) = sbind (on_printer (given e (print_header W)) (r', w, ?q)) ?k"
      using r' b(1) n by (simp add: read_line_def Let_def)
    have h: "emits (\<lambda>e. fb \<and> e = HexylIo) (printed content) (r', w, ?q)
        (on_printer (given e (print_header W)) (r', w, ?q)) (if e then header_text p else [])
        (\<lambda>s _. fst s = r' \<and> snd (snd s) = ?q)"
      by (rule emits_on_printer [OF prints_maybe_header [OF W ok]]) simp
    let ?Q = "if ?n \<le> length ?xs
        then (\<lambda>s x. x = (False, Full) \<and> snd (snd s) = p1 \<and> sound (fst s) \<and> remaining (fst s) = drop ?n ?xs)
        else (\<lambda>s x. x = (False, Leftover (Some (length ?xs))) \<and> snd (snd s) = p1)"
    have k: "emits (\<lambda>e. fb \<and> e = HexylIo) (printed content) s' (?k s' x) [] ?Q"
      if "fst s' = r' \<and> snd (snd s') = ?q" for s' x
    proof -
      from that have s': "s' = (r', fst (snd s'), ?q)" by (cases s') auto
      from fill_line [OF r'(4) b] r'(3) show ?thesis
        by (subst s') (auto simp: emits_def p1_def)
    qed
    have "emits (\<lambda>e. fb \<and> e = HexylIo) (printed content) (r', w, ?q) (read_line rd W e (r, w, p))
        (if e then header_text p else []) ?Q"
      unfolding rl by (rule emits_last [OF h k])
    from emits_from [OF this, of "(r, w, p)"] have "emits (\<lambda>e. fb \<and> e = HexylIo) (printed content) (r, w, p)
        (read_line rd W e (r, w, p)) (if e then header_text p else []) ?Q" by simp
    then show ?thesis by (auto split: if_splits intro!: exI [of _ False])
  qed
qed

end

section \<open>The loop\<close>

lemma prints_print_end:
  assumes W: "byte_writer W content settled fb" and ok: "printer_ok pal p" and c: "curr_color p = None"
    and i: "idx p = of_nat pos"
  shows "\<exists>p'. prints fb content (print_end W pal False None) p (footer_text p) p'"
    and "length (line_buf p) \<le> line_width p \<Longrightarrow>
      \<exists>p'. prints fb content (print_end W pal False (Some (length (line_buf p)))) p
        (row_text pal p (Row pos (line_buf p)) @ footer_text p) p'"
proof -
  have g: "group_size p \<noteq> 0" using ok by (simp add: printer_ok_def)
  note f = byte_writer.prints_header(2) [OF W] and fl = byte_writer.prints_flush [OF W]
  have "prints fb content (print_end W pal False None) p (footer_text p) p"
    using prints_cons [OF prints_nil prints_cons [OF f [OF g] prints_cons [OF fl prints_nil]]]
    by (simp add: print_end_def)
  then show "\<exists>p'. prints fb content (print_end W pal False None) p (footer_text p) p'" by blast
  let ?p = "p\<lparr>squeezer := SqPrint\<rparr>"
  assume n: "length (line_buf p) \<le> line_width p"
  have "prints fb content (print_footer W) ?p (footer_text p) ?p"
    using f [of ?p] g same_texts(5) [of ?p p] by simp
  from prints_cons [OF byte_writer.prints_leftover [OF W ok n c i] prints_cons [OF this prints_cons [OF fl prints_nil]]]
  show "\<exists>p'. prints fb content (print_end W pal False (Some (length (line_buf p)))) p
        (row_text pal p (Row pos (line_buf p)) @ footer_text p) p'"
    unfolding print_end_def by auto
qed

lemma emits_finish_all:
  assumes "prints fb content (print_end W pal e l) p bs p'"
  shows "emits (\<lambda>e. fb \<and> e = HexylIo) (\<lambda>st. printed content (snd st)) (e, r, w, p)
    (finish_all W pal (e, r, w, p) l) bs (\<lambda>_ _. True)"
  using emits_on_printer [OF assms, of r w]
  by (auto simp: finish_all_def emits_def split: outcome.splits prod.splits)

lemma dump_loop:
  assumes R: "byte_reader rd remaining sound" and W: "byte_writer W content settled fb"
    and "sound r" and "printer_ok pal p" and "length (line_buf p) = line_width p" and "curr_color p = None"
    and "idx p = of_nat pos" and "tracks squeeze q p"
    and "e \<longrightarrow> remaining r \<noteq> [] \<and> \<not> snd q"
  shows "emits (\<lambda>e. fb \<and> e = HexylIo) (\<lambda>st. printed content (snd st)) (e, r, w, p)
    (sbind (repeat (print_all_step rd W pal) (e, r, w, p)) (finish_all W pal))
    ((if e then header_text p else []) @
     concat (map (row_text pal p) (rows squeeze (line_width p) q pos (remaining r))) @ footer_text p) (\<lambda>_ _. True)"
  using assms(3-)
proof (induction "length (remaining r)" arbitrary: e r w p pos q rule: less_induct)
  case less
  note s = less.prems(1) and ok = less.prems(2) and n = less.prems(3) and c = less.prems(4) and i = less.prems(5)
    and t = less.prems(6) and e = less.prems(7)
  let ?n = "line_width p" and ?xs = "remaining r" and ?E = "\<lambda>e. fb \<and> e = HexylIo"
  let ?C = "\<lambda>st. printed content (snd st)" and ?step = "print_all_step rd W pal"
  let ?h = "if e then header_text p else []"
  have pos: "0 < ?n" by (rule line_width_pos [OF ok])
  consider "?xs = []" | "?xs \<noteq> []" "length ?xs < ?n" | "?n \<le> length ?xs" by linarith
  then show ?case
  proof cases
    case 1
    with e have "\<not> e" by simp
    have ne: "line_buf p \<noteq> []" using n pos by auto
    let ?p = "if squeezer p = SqDelete then p\<lparr>line_buf := []\<rparr> else p"
    let ?l = "if squeezer p = SqDelete then Some 0 else None"
    from byte_reader.read_line_end [OF R s 1 ne, of W False w] obtain r' where
      "read_line rd W False (r, w, p) = ((r', w, ?p), Ok (False, Leftover ?l))" by blast
    then have st: "?step (False, r, w, p) = ((False, r', w, ?p), Ok (Some ?l))" by (simp add: print_all_step_def)
    have d: "snd q \<longleftrightarrow> squeezer p = SqDelete" using t by (auto simp: tracks_def split: option.splits)
    let ?t = "concat (map (row_text pal p) (rows squeeze ?n q pos ?xs)) @ footer_text p"
    have "\<exists>p'. prints fb content (print_end W pal False ?l) ?p ?t p'"
    proof (cases "squeezer p = SqDelete")
      case True
      with prints_print_end(2) [OF W, of pal ?p pos] ok c i same_texts [of ?p p] d 1 pos show ?thesis
        by (simp add: rows.simps del: row_text.simps)
    next
      case False
      with prints_print_end(1) [OF W ok c i] d 1 pos show ?thesis by (simp add: rows.simps)
    qed
    then obtain p' where "prints fb content (print_end W pal False ?l) ?p ?t p'" by blast
    from emits_finish_all [OF this, of r' w]
    have "emits ?E ?C (False, r, w, p) (?step (False, r, w, p)) []
      (\<lambda>s' x. \<exists>l. x = Some l \<and> emits ?E ?C s' (finish_all W pal s' l) ?t (\<lambda>_ _. True))"
      unfolding st by (simp add: emits_def [of _ _ _ "(_, Ok (Some _))"])
    then have "emits ?E ?C (False, r, w, p) (sbind (repeat ?step (False, r, w, p)) (finish_all W pal)) ([] @ ?t) (\<lambda>_ _. True)"
      by (rule emits_repeat_then_break)
    with \<open>\<not> e\<close> show ?thesis by simp
  next
    case 2
    let ?p = "p\<lparr>line_buf := ?xs\<rparr>"
    let ?t = "row_text pal p (Row pos ?xs) @ footer_text p"
    from byte_reader.read_line_emits [OF R W s ok n 2(1), of e w] 2
    have rl: "emits ?E (printed content) (r, w, p) (read_line rd W e (r, w, p)) ?h
      (\<lambda>s x. x = (False, Leftover (Some (length ?xs))) \<and> snd (snd s) = ?p)" by simp
    from prints_print_end(2) [OF W, of pal ?p pos] ok c i same_texts [of ?p p] 2(2) obtain p' where
      pe: "prints fb content (print_end W pal False (Some (length ?xs))) ?p ?t p'" by auto
    have "emits ?E ?C (e, r, w, p) (?step (e, r, w, p)) (?h @ [])
      (\<lambda>s' x. \<exists>l. x = Some l \<and> emits ?E ?C s' (finish_all W pal s' l) ?t (\<lambda>_ _. True))"
    proof (rule emits_print_all_step [OF rl])
      fix s' :: "'a \<times> 'b \<times> printer" and e' l assume "(e', Leftover l) = (False, Leftover (Some (length ?xs))) \<and> snd (snd s') = ?p"
      then have "e' = False" "l = Some (length ?xs)" "s' = (fst s', fst (snd s'), ?p)" by (cases s', auto)+
      with emits_finish_all [OF pe, of "fst s'" "fst (snd s')"]
      show "[] = [] \<and> (\<exists>la. Some l = Some la \<and>
          emits ?E ?C (e', s') (finish_all W pal (e', s') la) ?t (\<lambda>_ _. True))" by auto
    qed simp
    then have "emits ?E ?C (e, r, w, p) (sbind (repeat ?step (e, r, w, p)) (finish_all W pal)) ((?h @ []) @ ?t) (\<lambda>_ _. True)"
      by (rule emits_repeat_then_break)
    with 2 pos show ?thesis
      by (simp add: rows.simps [of squeeze ?n q pos] del: row_text.simps)
  next
    case 3
    then have ne: "?xs \<noteq> []" using pos by auto
    let ?l = "take ?n ?xs"
    let ?p = "p\<lparr>line_buf := ?l\<rparr>" and ?q = "next_squeeze squeeze q ?l"
    have l: "length ?l = ?n" using 3 by simp
    from byte_reader.read_line_emits [OF R W s ok n ne, of e w] 3 obtain e' where e': "e' \<longrightarrow> e" and
      rl: "emits ?E (printed content) (r, w, p) (read_line rd W e (r, w, p)) (if e \<and> \<not> e' then header_text p else [])
        (\<lambda>s x. x = (e', Full) \<and> snd (snd s) = ?p \<and> sound (fst s) \<and> remaining (fst s) = drop ?n ?xs)" by auto
    let ?row = "concat (map (row_text pal p) (line_rows q pos ?l))"
    let ?rest = "concat (map (row_text pal p) (rows squeeze ?n ?q (pos + ?n) (drop ?n ?xs))) @ footer_text p"
    have "options_of ?p = options_of p" by simp
    note st = same_texts [OF this]
    from byte_writer.prints_print_line [OF W, of pal ?p pos squeeze q e', unfolded st] ok c i t l obtain p' where
      pl: "prints fb content (print_line W pal e') ?p ((if e' then header_text p else []) @ ?row) p'" and
      p': "tracks squeeze ?q p'" "idx p' = of_nat (pos + ?n)" "length (line_buf p') = ?n" "curr_color p' = None"
        "options_of p' = options_of p" by auto
    note same = same_texts [OF p'(5)]
    have IH: "emits ?E ?C (False, r', w', p') (sbind (repeat ?step (False, r', w', p')) (finish_all W pal)) ?rest (\<lambda>_ _. True)"
      if "sound r'" "remaining r' = drop ?n ?xs" for r' w'
      using less.hyps [of r' p' "pos + ?n" ?q False w'] that ne pos ok p' same by simp
    have sk: "\<not> (e' \<and> squeezed ?p \<and> squeezer ?p = SqDelete)"
      using e e' t by (auto simp: tracks_def split: option.splits)
    have "emits ?E ?C (e, r, w, p) (?step (e, r, w, p))
        ((if e \<and> \<not> e' then header_text p else []) @ ((if e' then header_text p else []) @ ?row))
      (\<lambda>s' x. x = None \<and> emits ?E ?C s' (sbind (repeat ?step s') (finish_all W pal)) ?rest (\<lambda>_ _. True))"
    proof (rule emits_print_all_step [OF rl])
      fix s' :: "'a \<times> 'b \<times> printer" and ea
      assume "(ea, Full) = (e', Full) \<and> snd (snd s') = ?p \<and> sound (fst s') \<and> remaining (fst s') = drop ?n ?xs"
      then have a: "ea = e'" "s' = (fst s', fst (snd s'), ?p)" "snd (snd s') = ?p" "sound (fst s')"
        "remaining (fst s') = drop ?n ?xs" by (cases s', auto)+
      from emits_on_printer [OF pl, of "fst s'" "fst (snd s')"] a(2)
      have "emits ?E (printed content) s' (on_printer (print_line W pal ea) s') ((if e' then header_text p else []) @ ?row)
          (\<lambda>s _. fst s = fst s' \<and> snd (snd s) = p')" by (simp add: a(1))
      then show "emits ?E (printed content) s' (on_printer (print_line W pal ea) s') ((if e' then header_text p else []) @ ?row)
          (\<lambda>s'' _. None = None \<and> emits ?E ?C ((ea \<and> squeezed (snd (snd s')) \<and> squeezer (snd (snd s')) = SqDelete), s'')
            (sbind (repeat ?step ((ea \<and> squeezed (snd (snd s')) \<and> squeezer (snd (snd s')) = SqDelete), s''))
              (finish_all W pal)) ?rest (\<lambda>_ _. True))"
      proof (rule emits_mono)
        fix s'' :: "'a \<times> 'b \<times> printer" and x :: unit assume "fst s'' = fst s' \<and> snd (snd s'') = p'"
        then have "s'' = (fst s', fst (snd s''), p')" by (cases s'') auto
        with IH [OF a(4,5), of "fst (snd s'')"]
        have IH': "emits ?E ?C (False, s'') (sbind (repeat ?step (False, s'')) (finish_all W pal)) ?rest (\<lambda>_ _. True)" by simp
        have sk': "(ea \<and> squeezed (snd (snd s')) \<and> squeezer (snd (snd s')) = SqDelete) = False"
          using sk a(1,3) by simp
        show "None = None \<and> emits ?E ?C ((ea \<and> squeezed (snd (snd s')) \<and> squeezer (snd (snd s')) = SqDelete), s'')
            (sbind (repeat ?step ((ea \<and> squeezed (snd (snd s')) \<and> squeezer (snd (snd s')) = SqDelete), s''))
              (finish_all W pal)) ?rest (\<lambda>_ _. True)" unfolding sk' using IH' by simp
      qed
    qed simp
    then have "emits ?E ?C (e, r, w, p) (sbind (repeat ?step (e, r, w, p)) (finish_all W pal))
        (((if e \<and> \<not> e' then header_text p else []) @ ((if e' then header_text p else []) @ ?row)) @ ?rest) (\<lambda>_ _. True)"
      by (rule emits_repeat_then)
    with e' 3 pos show ?thesis
      by (cases e; cases e') (simp_all add: rows.simps [of squeeze ?n q pos "remaining r"] del: row_text.simps)
  qed
qed

end
