(* ===== verification/Hexyl_Main.thy ===== *)
theory Hexyl_Main
  imports Hexyl_Printer
begin

text \<open>
  The program \<open>hexyl\<close> (\<open>run\<close> in \<open>main.rs\<close>): from the options that clap has parsed to the call of the
  printer. What the program asks of the system is a record: files, standard input, the environment
  and the terminal. Standard output behind its \<open>BufWriter\<close> is a writer.
\<close>

section \<open>Options\<close>

datatype color_when = Always | Auto | Never | Force

datatype group_size_opt = One | Two | Four | Eight

definition group_size_u8 :: "group_size_opt \<Rightarrow> u8" where
  "group_size_u8 g = (case g of One \<Rightarrow> 1 | Two \<Rightarrow> 2 | Four \<Rightarrow> 4 | Eight \<Rightarrow> 8)"

record opt =
  o_file :: "ustring option"
  o_length :: "ustring option"
  o_skip :: "ustring option"
  o_block_size :: ustring
  o_no_squeezing :: bool
  o_color :: color_when
  o_border :: border_style
  o_plain :: bool
  o_no_characters :: bool
  o_character_table :: character_table
  o_color_scheme :: color_scheme
  o_no_position :: bool
  o_display_offset :: ustring
  o_panels :: "ustring option"
  o_group_size :: group_size_opt
  o_endianness :: endianness
  o_little_endian_format :: bool
  o_base :: ustring
  o_terminal_width :: "nat option" \<comment> \<open>not zero\<close>
  o_print_color_table :: bool
  o_include_mode :: bool

record ('f, 'i) hexyl_system =
  sys_input :: "('f, 'i) input_system"
  is_dir :: "ustring \<Rightarrow> bool"
  open_input :: "ustring \<Rightarrow> 'f option"
  file_name_of :: "ustring \<Rightarrow> ustring option" \<comment> \<open>the last part of a path, as UTF-8\<close>
  no_color :: bool
  supports_color :: bool
  terminal_columns :: "nat option"

definition input_of_file ::
  "('f, 'i) hexyl_system \<Rightarrow> ustring option \<Rightarrow> 'i \<Rightarrow> (hexyl_error, ('f, 'i) input) outcome" where
  "input_of_file sys file stdin =
     (case file of
        None \<Rightarrow> Ok (InputStdin stdin)
      | Some filename \<Rightarrow>
          if filename = ustr ''-'' then Ok (InputStdin stdin)
          else if is_dir sys filename then Err IsADirectory
          else (case open_input sys filename of None \<Rightarrow> Err HexylIo | Some f \<Rightarrow> Ok (InputFile f)))"

definition hex_block_size :: "ustring \<Rightarrow> (hexyl_error, unit) outcome option" where
  \<comment> \<open>a block size with the hexadecimal prefix ends the run, as an error or as a success\<close>
  "hex_block_size s =
     (case try_parse_as_hex_number s of
        None \<Rightarrow> None
      | Some r \<Rightarrow> Some (obind (omap_err OffsetError r) (\<lambda>x.
          case PositiveI64_new x of None \<Rightarrow> Err BlockSizeNotPositive | Some _ \<Rightarrow> Ok ())))"

definition seek_position_of :: "byte_offset \<Rightarrow> seek_from" where
  "seek_position_of b =
     (case offset_kind b of
        BackwardFromEnd \<Rightarrow> SeekEnd (- offset_value b)
      | _ \<Rightarrow> SeekCurrent (offset_value b))"

definition skip_input ::
  "('f, 'i) hexyl_system \<Rightarrow> ustring option \<Rightarrow> int \<Rightarrow> ('f, 'i) input \<Rightarrow>
   ('f, 'i) input \<times> (hexyl_error, nat) outcome" where
  "skip_input sys skip block_size inp =
     (case skip of
        None \<Rightarrow> (inp, Ok 0)
      | Some s \<Rightarrow>
          sbind (inp, omap_err OffsetError (parse_byte_offset s block_size)) (\<lambda>inp b.
            case input_seek (sys_input sys) inp (seek_position_of b) of
              (inp, r) \<Rightarrow> (inp, omap_err (\<lambda>_. SeekFailed) r)))"

definition show_colors :: "('f, 'i) hexyl_system \<Rightarrow> color_when \<Rightarrow> bool" where
  "show_colors sys c =
     (case c of
        Never \<Rightarrow> False
      | Always \<Rightarrow> \<not> no_color sys
      | Force \<Rightarrow> True
      | Auto \<Rightarrow> if no_color sys then False else supports_color sys)"

definition max_panels_fn :: "bool \<Rightarrow> bool \<Rightarrow> nat \<Rightarrow> nat \<Rightarrow> nat \<Rightarrow> nat" where
  "max_panels_fn position characters terminal_width digits grp =
     (let offset = if position then 10 else 1;
          col_width = if characters then (8 div grp) * (digits * grp + 1) + 2 + 8
                      else (8 div grp) * (digits * grp + 1) + 2 in
      if (terminal_width - offset) div col_width < 1 then 1 else (terminal_width - offset) div col_width)"

definition base_of_name :: "ustring \<Rightarrow> base option" where
  "base_of_name s =
     (case parse_unsigned 256 10 s of
        Some n \<Rightarrow>
          if n = 2 then Some Binary else if n = 8 then Some Octal
          else if n = 10 then Some Decimal else if n = 16 then Some Hexadecimal else None
      | None \<Rightarrow>
          if s \<in> {ustr ''b'', ustr ''bin'', ustr ''binary''} then Some Binary
          else if s \<in> {ustr ''o'', ustr ''oct'', ustr ''octal''} then Some Octal
          else if s \<in> {ustr ''d'', ustr ''dec'', ustr ''decimal''} then Some Decimal
          else if s \<in> {ustr ''x'', ustr ''hex'', ustr ''hexadecimal''} then Some Hexadecimal
          else None)"

definition number_of_panels ::
  "ustring option \<Rightarrow> nat option \<Rightarrow> nat option \<Rightarrow> (nat \<Rightarrow> nat) \<Rightarrow> (hexyl_error, nat) outcome" where
  \<comment> \<open>with \<open>--panels\<close>, \<open>--terminal-width\<close> and the width of the terminal\<close>
  "number_of_panels panels_opt width_opt columns max_panels =
     (let terminal_width = (case columns of Some c \<Rightarrow> c | None \<Rightarrow> 80) in
      if panels_opt = Some (ustr ''auto'') then Ok (max_panels terminal_width)
      else case panels_opt of
        Some s \<Rightarrow> (case parse_unsigned usize_limit 10 s of
            Some n \<Rightarrow> if n = 0 then Err InvalidPanels else Ok n
          | None \<Rightarrow> Err InvalidPanels)
      | None \<Rightarrow> (case width_opt of Some tw \<Rightarrow> Ok (max_panels tw) | None \<Rightarrow> Ok (min 2 (max_panels terminal_width))))"

definition include_of :: "('f, 'i) hexyl_system \<Rightarrow> opt \<Rightarrow> include_mode" where
  "include_of sys opt =
     (if o_include_mode opt then
        (case o_file opt of
           Some f \<Rightarrow>
             if f = ustr ''-'' then IncludeFile (ustr ''stdin'')
             else IncludeFile (case file_name_of sys f of Some n \<Rightarrow> n | None \<Rightarrow> ustr ''file'')
         | None \<Rightarrow> IncludeStdin)
      else IncludeOff)"

fun limited_read :: "'r read_op \<Rightarrow> ('r \<times> nat option) read_op" where
  \<comment> \<open>the reader with or without \<open>--length\<close>\<close>
  "limited_read rd (r, None) k = (case rd r k of (r, e) \<Rightarrow> ((r, None), e))"
| "limited_read rd (r, Some n) k = (case take_read rd (r, n) k of ((r, n), e) \<Rightarrow> ((r, Some n), e))"

definition builder_of :: "('f, 'i) hexyl_system \<Rightarrow> opt \<Rightarrow> base \<Rightarrow> nat \<Rightarrow> printer_builder" where
  "builder_of sys opt bas num =
     fold (\<lambda>f pb. f pb)
       [builder_show_color (show_colors sys (o_color opt)),
        builder_show_char_panel (\<not> o_no_characters opt \<and> \<not> o_plain opt),
        builder_show_position_panel (\<not> o_no_position opt \<and> \<not> o_plain opt),
        with_border_style (o_border opt),
        enable_squeezing (\<not> o_no_squeezing opt),
        num_panels (of_nat num),
        builder_group_size (group_size_u8 (o_group_size opt)),
        with_base bas,
        builder_endianness (if o_little_endian_format opt then Little else o_endianness opt),
        builder_character_table (o_character_table opt),
        builder_include_mode (include_of sys opt),
        builder_color_scheme (o_color_scheme opt)]
       printer_builder_new"

section \<open>The run\<close>

definition color_table :: "palette \<Rightarrow> bytes list" where
  "color_table pal =
     [bstr ''hexyl color reference:'' @ [10, 10],
      color_null pal, utf8 (8900 # ustr '' NULL bytes (0x00)'' @ [10]), color_reset pal,
      color_ascii_printable pal, bstr ''a ASCII printable characters (0x20 - 0x7E)'' @ [10], color_reset pal,
      color_ascii_whitespace pal, bstr ''_ ASCII whitespace (0x09 - 0x0D, 0x20)'' @ [10], color_reset pal,
      color_ascii_other pal, utf8 (8226 # ustr '' ASCII control characters (except NULL and whitespace)'' @ [10]), color_reset pal,
      color_nonascii pal, utf8 (215 # ustr '' Non-ASCII bytes (0x80 - 0xFF)'' @ [10]), color_reset pal]"

fun print_color_table :: "'w writer \<Rightarrow> bytes list \<Rightarrow> 'w \<Rightarrow> 'w \<times> (hexyl_error, unit) outcome" where
  "print_color_table W [] w = (w, Ok ())"
| "print_color_table W (bs # bss) w = sbind (write_or HexylIo W bs w) (\<lambda>w _. print_color_table W bss w)"

definition run_dump ::
  "(uchar \<Rightarrow> bool) \<Rightarrow> ('f, 'i) hexyl_system \<Rightarrow> 'w writer \<Rightarrow> palette \<Rightarrow> opt \<Rightarrow> int \<Rightarrow> ('f, 'i) input \<Rightarrow> 'w \<Rightarrow>
   'w \<times> (hexyl_error, unit) outcome" where
  \<comment> \<open>after the block size has been parsed\<close>
  "run_dump alnum sys W pal opt block_size inp w =
     (case skip_input sys (o_skip opt) block_size inp of
        (inp, skipped) \<Rightarrow>
     sbind (w, skipped) (\<lambda>w skip_offset.
     sbind (w, case o_length opt of
         None \<Rightarrow> Ok None
       | Some s \<Rightarrow> obind (parse_byte_count s block_size) (\<lambda>n. Ok (Some (nat n)))) (\<lambda>w limit.
     sbind (w, parse_byte_count (o_display_offset opt) block_size) (\<lambda>w offset.
     sbind (w, case base_of_name (o_base opt) of None \<Rightarrow> Err InvalidBase | Some b \<Rightarrow> Ok b) (\<lambda>w bas.
     sbind (w, number_of_panels (o_panels opt) (o_terminal_width opt) (terminal_columns sys)
         (\<lambda>tw. max_panels_fn (\<not> o_no_position opt \<and> \<not> o_plain opt) (\<not> o_no_characters opt \<and> \<not> o_plain opt)
           tw (digits_of_base bas) (unat (group_size_u8 (o_group_size opt))))) (\<lambda>w num.
     sbind (w, build (builder_of sys opt bas num)) (\<lambda>w p.
     case print_all alnum (limited_read (input_read (sys_input sys))) W pal
         ((inp, limit), (w, set_display_offset (of_nat skip_offset + of_int offset) p)) of
       ((_, (w, _)), r) \<Rightarrow> (w, r))))))))"

definition run ::
  "(uchar \<Rightarrow> bool) \<Rightarrow> ('f, 'i) hexyl_system \<Rightarrow> 'w writer \<Rightarrow> palette \<Rightarrow> opt \<Rightarrow> 'i \<Rightarrow> 'w \<Rightarrow>
   'w \<times> (hexyl_error, unit) outcome" where
  "run alnum sys W pal opt stdin w =
     (if o_print_color_table opt then print_color_table W (color_table pal) w
      else sbind (w, input_of_file sys (o_file opt) stdin) (\<lambda>w inp.
        case hex_block_size (o_block_size opt) of
          Some r \<Rightarrow> (w, r)
        | None \<Rightarrow> sbind (w, parse_block_size (o_block_size opt)) (\<lambda>w block_size.
            run_dump alnum sys W pal opt block_size inp w)))"

end
