(* ===== verification/Hexyl_Facts.thy ===== *)
theory Hexyl_Facts
  imports Hexyl_Table Hexyl_Main
begin

text \<open>
  The theorems about the table of \<open>hexyl\<close>: what \<open>print_all\<close> prints for any input, that squeezing loses
  nothing, and what a failing read does.
\<close>

section \<open>The whole table\<close>

definition blanks :: "nat \<Rightarrow> ustring" where
  "blanks k = replicate k 32"

definition no_content_text :: "printer \<Rightarrow> bytes" where
  "no_content_text p =
     (let bar = 9474; sz = (case panel_sz p of Ok sz \<Rightarrow> sz | _ \<Rightarrow> 0) in
      utf8 ((if show_position_panel p then bar # blanks 8 else []) @
        [bar, 32] @ ustr ''No content'' @ blanks (sz - 11) @ [bar] @ blanks sz @ [bar] @
        (if show_char_panel p then blanks 8 @ [bar] @ blanks 8 @ [bar] else []) @ [10]))"

definition table_text :: "palette \<Rightarrow> printer \<Rightarrow> bool \<Rightarrow> bytes \<Rightarrow> bytes" where
  "table_text pal p squeeze xs =
     (if xs = [] then
        (let p = p\<lparr>base_digits := 2\<rparr> in header_text p @ no_content_text p @ footer_text p)
      else header_text p @ concat (map (row_text pal p) (rows squeeze (line_width p) (None, False) 0 xs)) @
        footer_text p)"

lemma prints_no_content:
  assumes W: "byte_writer W content settled fb" and g: "group_size p \<noteq> 0"
  shows "\<exists>p'. prints fb content (print_end W pal True l) p
    (let p = p\<lparr>base_digits := 2\<rparr> in header_text p @ no_content_text p @ footer_text p) p'"
proof -
  let ?p = "p\<lparr>base_digits := 2\<rparr>"
  have g': "group_size ?p \<noteq> 0" using g by simp
  then obtain sz where sz: "panel_sz ?p = Ok sz" by (simp add: panel_sz_def)
  note out = byte_writer.prints_out [OF W] and given = byte_writer.prints_given_out [OF W]
  have u10: "encode_utf8 10 = [10]" by (simp add: encode_utf8_def)
  let ?m = "\<lambda>sz. steps
        [given (show_position_panel p) (out W (utf8 (9474 # replicate 8 32))),
         out W (utf8 ([9474, 32] @ ustr ''No content'' @ replicate (sz - 1 - 10) 32 @ [9474] @ replicate sz 32 @ [9474])),
         given (show_char_panel p) (out W (utf8 (replicate 8 32 @ [9474] @ replicate 8 32 @ [9474]))),
         out W [10]]"
  have "prints fb content (?m sz) ?p (no_content_text ?p) ?p"
    by (rule prints_subst, (rule prints_cons given out prints_nil)+)
      (simp_all add: no_content_text_def sz blanks_def Let_def u10 del: ustr_simps)
  then have n: "prints fb content (no_content W) ?p (no_content_text ?p) ?p"
    by (rule prints_at [OF _ prints_value [OF sz, of fb content ?m], rotated]) (simp add: no_content_def Let_def)
  have ch: "prints fb content (change (base_digits_update (\<lambda>_. 2))) p [] ?p"
    by (rule prints_subst [OF prints_change]) simp_all
  have "prints fb content (steps [change (base_digits_update (\<lambda>_. 2)), print_header W, no_content W]) p
      (header_text ?p @ no_content_text ?p) ?p"
    by (rule prints_subst [OF prints_cons [OF ch prints_cons [OF byte_writer.prints_header(1) [OF W g']
            prints_cons [OF n prints_nil]]]]) simp_all
  from prints_cons [OF this prints_cons [OF byte_writer.prints_header(2) [OF W g']
      prints_cons [OF byte_writer.prints_flush [OF W] prints_nil]]]
  show ?thesis by (auto simp: print_end_def Let_def)
qed

lemma ready_build:
  assumes "palette_ok pal" and "pb_group_size pb \<noteq> 0" and "0 < unat (pb_panels pb)" and "unat (pb_panels pb) < 2 ^ 61"
  shows "printer_ok pal ((printer_of pb)\<lparr>display_offset := d\<rparr>)"
  using assms by (simp add: printer_ok_def printer_of_def)

lemma dump_all_prints:
  assumes R: "byte_reader rd remaining sound" and W: "byte_writer W content settled fb"
    and s: "sound r" and ok: "printer_ok pal p" and n: "length (line_buf p) = line_width p" and c: "curr_color p = None"
    and i: "idx p = 0" and t: "tracks squeeze (None, False) p"
  shows "\<exists>r' w' p' res. dump_all rd W pal (r, w, p) = ((r', w', p'), res) \<and>
    (res = Ok () \<and> content w' = content w @ table_text pal p squeeze (remaining r) \<or>
     fb \<and> res = Err HexylIo \<and> prefix (content w') (content w @ table_text pal p squeeze (remaining r)))"
proof -
  let ?C = "\<lambda>st. printed content (snd st)" and ?step = "print_all_step rd W pal"
  have "emits (\<lambda>e. fb \<and> e = HexylIo) ?C (True, r, w, p) (sbind (repeat ?step (True, r, w, p)) (finish_all W pal))
      (table_text pal p squeeze (remaining r)) (\<lambda>_ _. True)"
  proof (cases "remaining r = []")
    case False
    with dump_loop [OF R W s ok n c _ t, of 0 True w] i show ?thesis by (simp add: table_text_def)
  next
    case True
    have ne: "line_buf p \<noteq> []" using n line_width_pos [OF ok] by auto
    have sq: "squeezer p \<noteq> SqDelete" using t by (auto simp: tracks_def split: if_splits)
    from byte_reader.read_line_end [OF R s True ne, of W True w] sq obtain r' where
      "read_line rd W True (r, w, p) = ((r', w, p), Ok (True, Leftover None))" by auto
    then have st: "?step (True, r, w, p) = ((True, r', w, p), Ok (Some None))" by (simp add: print_all_step_def)
    have "group_size p \<noteq> 0" using ok by (simp add: printer_ok_def)
    from prints_no_content [OF W this, of pal None] True obtain p' where
      "prints fb content (print_end W pal True None) p (table_text pal p squeeze (remaining r)) p'"
      by (auto simp: table_text_def)
    from emits_finish_all [OF this, of r' w] repeat_break [of ?step, OF st]
    show ?thesis by (auto simp: emits_def split: outcome.splits prod.splits)
  qed
  from emits_result [OF this] show ?thesis
    by (fastforce simp: dump_all_def)
qed

lemma print_all_dumps:
  assumes R: "byte_reader rd remaining sound" and W: "byte_writer W content settled fb"
    and s: "sound r" and ok: "printer_ok pal p" and n: "length (line_buf p) = line_width p" and c: "curr_color p = None"
    and i: "idx p = 0" and t: "tracks squeeze (None, False) p" and m: "include_mode p = IncludeOff"
  shows "\<exists>r' w' p' res. print_all alnum rd W pal (r, w, p) = ((r', w', p'), res) \<and>
    (res = Ok () \<and> content w' = content w @ table_text pal p squeeze (remaining r) \<or>
     fb \<and> res = Err HexylIo \<and> prefix (content w') (content w @ table_text pal p squeeze (remaining r)))"
proof -
  from dump_all_prints [OF byte_reader.buf_reader [OF R] W _ ok n c i t, of "([], r)" w] s
  obtain r' w' p' res where
    "dump_all (buf_read rd) W pal (([], r), w, p) = ((r', w', p'), res) \<and>
    (res = Ok () \<and> content w' = content w @ table_text pal p squeeze (remaining r) \<or>
     fb \<and> res = Err HexylIo \<and> prefix (content w') (content w @ table_text pal p squeeze (remaining r)))"
    by (auto simp: byte_reader.buf_remaining_def [OF R])
  with m show ?thesis by (cases r') (auto simp: print_all_def print_from_def)
qed

definition displayed :: "printer_builder \<Rightarrow> u64 \<Rightarrow> printer" where
  \<comment> \<open>a printer as \<open>run\<close> sets it up, where \<open>build\<close> does not panic\<close>
  "displayed pb d = set_display_offset d (printer_of pb)"

lemma build_panics: "build pb = (if unat (pb_panels pb) < 2 ^ 60 then Ok (printer_of pb) else Panic)"
  by (simp add: build_def isize_limit_def)

definition builder_ok :: "printer_builder \<Rightarrow> bool" where
  "builder_ok pb \<longleftrightarrow> pb_group_size pb \<noteq> 0 \<and> 0 < unat (pb_panels pb) \<and> unat (pb_panels pb) < 2 ^ 60"

lemma displayed_ready:
  assumes "palette_ok pal" and "builder_ok pb"
  shows "printer_ok pal (displayed pb d)" "length (line_buf (displayed pb d)) = line_width (displayed pb d)"
    "curr_color (displayed pb d) = None" "idx (displayed pb d) = 0"
    "tracks (pb_use_squeeze pb) (None, False) (displayed pb d)"
  using assms by (auto simp: displayed_def set_display_offset_def builder_ok_def ready_build)
    (simp_all add: printer_of_def line_width_def tracks_def)

definition plain_palette :: palette where
  "plain_palette =
     \<lparr>color_null = [], color_offset = [], color_ascii_printable = [], color_ascii_whitespace = [],
      color_ascii_other = [], color_nonascii = [], color_reset = [], gradient_nonascii = replicate 128 [],
      gradient_nonprintable = replicate 31 [], gradient_printable = replicate 95 []\<rparr>"

lemma plain_palette_ok: "palette_ok plain_palette"
  by (simp add: palette_ok_def plain_palette_def)

lemma default_builder_ok: "builder_ok printer_builder_new"
  by (simp add: builder_ok_def printer_builder_new_def)

text \<open>
  C24. The table.  For a printer that can be built (\<open>builder_ok\<close>), any reader that does not fail, however it
  cuts the input into pieces, and any writer, \<open>print_all\<close> returns, and the writer holds the border, the rows of the input in order with
  squeezed rows, and the closing border (or the table of an empty input), or a prefix of it when a
  write has failed and its error is returned.
\<close>

theorem hexyl_dump:
  assumes "byte_reader rd remaining sound" and "byte_writer W content settled fb" and "sound r"
    and "palette_ok pal" and "builder_ok pb" and "pb_include_mode pb = IncludeOff"
  shows "\<exists>r' w' p' res. print_all alnum rd W pal (r, w, displayed pb d) = ((r', w', p'), res) \<and>
    (res = Ok () \<and> content w' = content w @ table_text pal (displayed pb d) (pb_use_squeeze pb) (remaining r) \<or>
     fb \<and> res = Err HexylIo \<and>
     prefix (content w') (content w @ table_text pal (displayed pb d) (pb_use_squeeze pb) (remaining r)))"
proof (rule print_all_dumps [OF assms(1,2,3)])
  show "include_mode (displayed pb d) = IncludeOff" using assms(6) by (simp add: displayed_def set_display_offset_def printer_of_def)
qed (use displayed_ready [OF assms(4,5)] in auto)

theorem hexyl_dump_witness:
  "\<exists>r' w' p' res. print_all (\<lambda>_. True) events_read memory_writer plain_palette
      ([Chunk [1, 2], Chunk [3]], [], displayed printer_builder_new 0) = ((r', w', p'), res) \<and>
    res = Ok () \<and> w' = table_text plain_palette (displayed printer_builder_new 0) True [1, 2, 3]"
  using hexyl_dump [OF events.byte_reader_axioms collected.byte_writer_axioms _ plain_palette_ok default_builder_ok,
      where r = "[Chunk [1, 2], Chunk [3]]" and w = "[]" and d = 0 and alnum = "\<lambda>_. True"]
  by (simp add: printer_builder_new_def)

section \<open>Squeezing\<close>

text \<open>
  Only lines of one repeated byte are squeezed: a line of different bytes is printed as often as it
  comes, although the help of \<open>--no-squeezing\<close> says that lines identical to the line before are replaced.
\<close>

lemma hexyl_identical_lines:
  assumes "l \<noteq> replicate (length l) (hd l)" and "n = length l" "0 < n"
  shows "rows squeeze n (None, False) pos (concat (replicate k l)) = map (\<lambda>i. Row (pos + i * n) l) [0..<k]"
proof (induction k arbitrary: pos)
  case 0
  from assms(3) show ?case by (subst rows.simps) simp
next
  case (Suc k)
  have "uniform squeeze l = None" using assms by (simp add: uniform_def)
  with assms(2,3) have "rows squeeze n (None, False) pos (concat (replicate (Suc k) l)) =
      Row pos l # rows squeeze n (None, False) (pos + n) (concat (replicate k l))"
    by (subst rows.simps) (simp add: line_rows_def repeats_def next_squeeze_def)
  also have "\<dots> = map (\<lambda>i. Row (pos + i * n) l) (0 # map Suc [0..<k])"
    unfolding Suc.IH by (simp add: algebra_simps)
  finally show ?case by (simp add: map_Suc_upt upt_conv_Cons del: upt_Suc)
qed

fun unsqueeze :: "nat \<Rightarrow> row list \<Rightarrow> bytes" where
  \<comment> \<open>the bytes that rows stand for: a mark repeats the row before it up to the position of the next one\<close>
  "unsqueeze n (Row p l # Star # Row p' l' # rs) =
     l @ concat (replicate ((p' - p) div n - 1) l) @ unsqueeze n (Row p' l' # rs)"
| "unsqueeze n (Row p l # rs) = l @ unsqueeze n rs"
| "unsqueeze n _ = []"

fun well_marked :: "row list \<Rightarrow> bool" where
  \<comment> \<open>every mark stands between two rows\<close>
  "well_marked (Row p l # Star # Row p' l' # rs) = well_marked (Row p' l' # rs)"
| "well_marked (Row p l # rs) = well_marked rs"
| "well_marked [] = True"
| "well_marked (Star # rs) = False"

lemma unsqueeze_Row:
  "rs = [] \<or> (\<exists>p' l' rs'. rs = Row p' l' # rs') \<Longrightarrow>
     unsqueeze n (Row p l # rs) = l @ unsqueeze n rs \<and> well_marked (Row p l # rs) = well_marked rs"
  by auto

lemma concat_replicate_replicate: "concat (replicate k (replicate n b)) = replicate (k * n) b"
  by (induction k) (simp_all add: replicate_add)

lemma unsqueeze_Star:
  assumes "0 < n" and "0 < k" and "k * n \<le> pos"
  shows "unsqueeze n (Row (pos - k * n) (replicate n b) # Star # Row pos l # rs) =
      replicate (k * n) b @ unsqueeze n (Row pos l # rs)"
proof -
  have "(pos - (pos - k * n)) div n = k" using assms by simp
  moreover obtain j where "k = Suc j" using assms(2) by (cases k) auto
  ultimately show ?thesis by (simp add: concat_replicate_replicate replicate_add)
qed

definition undone :: "nat \<Rightarrow> row list \<Rightarrow> bytes \<Rightarrow> bool" where
  "undone n rs xs \<longleftrightarrow> unsqueeze n rs = xs \<and> well_marked rs"

lemma unsqueeze_rows:
  assumes n: "0 < n"
  shows "(\<not> snd q \<longrightarrow> fst q = None \<longrightarrow> undone n (rows sq n q pos xs) xs) \<and>
    (\<forall>b. fst q = Some b \<longrightarrow> \<not> snd q \<longrightarrow> n \<le> pos \<longrightarrow>
       undone n (Row (pos - n) (replicate n b) # rows sq n q pos xs) (replicate n b @ xs)) \<and>
    (\<forall>b k. fst q = Some b \<longrightarrow> snd q \<longrightarrow> 0 < k \<longrightarrow> k * n \<le> pos \<longrightarrow>
       undone n (Row (pos - k * n) (replicate n b) # Star # rows sq n q pos xs) (replicate (k * n) b @ xs))"
proof (induction "length xs" arbitrary: q pos xs rule: less_induct)
  case less
  consider (short) "length xs < n" | (repeated) "n \<le> length xs" "repeats q (take n xs)"
    | (new) "n \<le> length xs" "\<not> repeats q (take n xs)" by linarith
  then show ?case
  proof cases
    case short
    then have "rows sq n q pos xs = (if xs \<noteq> [] \<or> snd q then [Row pos xs] else [])" by (simp add: rows.simps)
    then show ?thesis using n unsqueeze_Star [OF n, of _ pos _ xs "[]"] by (auto simp: undone_def)
  next
    case new
    let ?q = "(uniform sq (take n xs), False)" and ?l = "take n xs"
    have r: "rows sq n q pos xs = Row pos ?l # rows sq n ?q (pos + n) (drop n xs)"
      using new n by (simp add: rows.simps [of sq n q] line_rows_def next_squeeze_def)
    have "length (drop n xs) < length xs" using new n by simp
    note IH = less.hyps [OF this, of ?q "pos + n"]
    have a: "undone n (rows sq n q pos xs) xs"
    proof (cases "uniform sq ?l")
      case None
      then have "rows sq n ?q (pos + n) (drop n xs) = [] \<or>
          (\<exists>p' l' rs. rows sq n ?q (pos + n) (drop n xs) = Row p' l' # rs)"
        by (subst (1 2) rows.simps) (auto simp: line_rows_def repeats_def)
      from unsqueeze_Row [OF this, of n pos ?l] IH None show ?thesis by (simp add: r undone_def)
    next
      case (Some b)
      then have "?l = replicate n b" using new by (auto simp: uniform_def split: if_splits)
      with IH Some show ?thesis by (simp add: r) (metis append_take_drop_id)
    qed
    then have b: "undone n (Row p m # rows sq n q pos xs) (m @ xs)" for p m
      using unsqueeze_Row [of "rows sq n q pos xs" n p m] by (simp add: r undone_def)
    have c: "undone n (Row (pos - k * n) (replicate n b) # Star # rows sq n q pos xs) (replicate (k * n) b @ xs)"
      if "0 < k" "k * n \<le> pos" for k b
      using a unsqueeze_Star [OF n that, of b ?l] by (simp add: r undone_def)
    from a b c show ?thesis by blast
  next
    case repeated
    then obtain b where b: "fst q = Some b" "take n xs = replicate n b"
      by (auto simp: repeats_def split: option.splits)
    have r: "rows sq n q pos xs = (if snd q then [] else [Star]) @ rows sq n (Some b, True) (pos + n) (drop n xs)"
      using repeated n b(1) by (simp add: rows.simps [of sq n q] line_rows_def next_squeeze_def)
    have xs: "replicate n b @ drop n xs = xs" using b(2) by (metis append_take_drop_id)
    have "length (drop n xs) < length xs" using repeated n by simp
    from less.hyps [OF this, of "(Some b, True)" "pos + n"]
    have IH: "undone n (Row (pos + n - k * n) (replicate n b) # Star # rows sq n (Some b, True) (pos + n) (drop n xs))
        (replicate (k * n) b @ drop n xs)" if "0 < k" "k * n \<le> pos + n" for k using that by simp
    have two: "replicate (Suc k * n) b @ drop n xs = replicate (k * n) b @ xs" for k
      by (subst xs [symmetric]) (simp add: replicate_add [symmetric] add.commute)
    show ?thesis
    proof (cases "snd q")
      case True
      have "undone n (Row (pos - k * n) (replicate n b) # Star # rows sq n q pos xs) (replicate (k * n) b @ xs)"
        if "0 < k" "k * n \<le> pos" for k
        using IH [of "Suc k"] that True unfolding two by (simp add: r)
      with True b(1) show ?thesis by auto
    next
      case False
      with IH [of 2] two [of 1] b(1) show ?thesis by (auto simp: r mult_2)
    qed
  qed
qed

text \<open>
  C25. Squeezing loses nothing.  The rows of the table stand for the input: a mark stands between two
  rows, and repeating the row before it up to the position of the row behind it gives the input back.
\<close>

theorem hexyl_squeeze_lossless:
  assumes "byte_reader rd remaining sound" and "sound r" and "palette_ok pal" and "builder_ok pb"
    and "pb_include_mode pb = IncludeOff" and "remaining r \<noteq> []"
  shows "\<exists>rs r' p'. print_all alnum rd memory_writer pal (r, [], displayed pb d) =
      ((r', header_text (displayed pb d) @ concat (map (row_text pal (displayed pb d)) rs) @ footer_text (displayed pb d),
        p'), Ok ()) \<and>
    well_marked rs \<and> unsqueeze (8 * unat (pb_panels pb)) rs = remaining r"
proof -
  let ?p = "displayed pb d"
  have n: "line_width ?p = 8 * unat (pb_panels pb)"
    using line_width_eq [OF displayed_ready(1) [OF assms(3,4)], of d] by (simp add: displayed_def set_display_offset_def printer_of_def)
  have m: "include_mode ?p = IncludeOff" using assms(5) by (simp add: displayed_def set_display_offset_def printer_of_def)
  let ?rs = "rows (pb_use_squeeze pb) (line_width ?p) (None, False) 0 (remaining r)"
  have "undone (line_width ?p) ?rs (remaining r)"
    using unsqueeze_rows [of "line_width ?p" "(None, False)"] assms(4) by (auto simp: n builder_ok_def)
  with print_all_dumps [OF assms(1) collected.byte_writer_axioms assms(2) displayed_ready [OF assms(3,4)] m, where alnum = alnum and w = "[]"]
  show ?thesis using assms(6) by (fastforce simp: undone_def n table_text_def)
qed

theorem hexyl_squeeze_lossless_witness:
  "\<exists>rs r' p'. print_all (\<lambda>_. True) events_read memory_writer plain_palette
      ([Chunk (replicate 40 7), Chunk [1]], [], displayed printer_builder_new 0) =
      ((r', header_text (displayed printer_builder_new 0) @
        concat (map (row_text plain_palette (displayed printer_builder_new 0)) rs) @
        footer_text (displayed printer_builder_new 0), p'), Ok ()) \<and>
    well_marked rs \<and> unsqueeze 16 rs = replicate 40 7 @ [1]"
  using hexyl_squeeze_lossless [OF events.byte_reader_axioms _ plain_palette_ok default_builder_ok,
      where r = "[Chunk (replicate 40 7), Chunk [1]]" and d = 0 and alnum = "\<lambda>_. True"]
  by (simp add: printer_builder_new_def)

end
