(* ===== verification/Hexyl_Width.thy ===== *)
theory Hexyl_Width
  imports Hexyl_Facts
begin

text \<open>
  The width of the table of \<open>hexyl\<close>: without colours every line of the table is one line of the same
  number of characters, and what follows for the number of panels that \<open>main.rs\<close> chooses.
\<close>

declare One_nat_def [simp del]

section \<open>Characters of a line\<close>

definition columns :: "bytes \<Rightarrow> nat" where
  \<comment> \<open>the characters of UTF-8 text: the bytes that do not continue one\<close>
  "columns bs = length (filter (\<lambda>b. unat b < 128 \<or> 192 \<le> unat b) bs)"

definition cols :: "nat \<Rightarrow> bytes \<Rightarrow> bool" where
  \<comment> \<open>a part of a line with the given number of characters\<close>
  "cols n bs \<longleftrightarrow> columns bs = n \<and> 10 \<notin> set bs"

definition is_line :: "nat \<Rightarrow> bytes \<Rightarrow> bool" where
  "is_line n bs \<longleftrightarrow> (\<exists>body. bs = body @ [10] \<and> cols n body)"

named_theorems cols_intro \<open>widths of parts\<close>

lemma cols_Nil [cols_intro]: "cols 0 []"
  by (simp add: cols_def columns_def)

lemma cols_append [cols_intro]: "cols m xs \<Longrightarrow> cols n ys \<Longrightarrow> cols (m + n) (xs @ ys)"
  by (auto simp: cols_def columns_def)

lemma cols_space [cols_intro]: "cols 1 [32]" "cols n (replicate n 32)" "cols 1 [42]"
  by (auto simp: cols_def columns_def)

lemma cols_if [cols_intro]: "(b \<Longrightarrow> cols m xs) \<Longrightarrow> (\<not> b \<Longrightarrow> cols n ys) \<Longrightarrow> cols (if b then m else n) (if b then xs else ys)"
  by simp

lemma cols_concat_map:
  "(\<And>x. x \<in> set xs \<Longrightarrow> cols (f x) (t x)) \<Longrightarrow> cols (sum_list (map f xs)) (concat (map t xs))"
  by (induction xs) (auto intro: cols_intro)

lemma cols_concat_replicate: "cols n bs \<Longrightarrow> cols (k * n) (concat (replicate k bs))"
  by (induction k) (auto intro: cols_intro simp: add.commute)

lemma cols_eq: "cols m bs \<Longrightarrow> m = n \<Longrightarrow> cols n bs"
  by simp

definition shown_char :: "uchar \<Rightarrow> bool" where
  "shown_char c \<longleftrightarrow> c \<noteq> 10 \<and> c < 1114112"

lemma unat_of_nat_u8: "n < 256 \<Longrightarrow> unat (of_nat n :: u8) = n"
  by (simp add: unat_of_nat)

lemma cols_encode [cols_intro]:
  assumes "shown_char c"
  shows "cols 1 (encode_utf8 c)"
proof -
  have u: "unat (10 :: u8) = 10" by simp
  have d: "c div 64 mod 64 < 64" "c mod 64 < 64" "c div 4096 mod 64 < 64" by simp_all
  consider "c < 128" | "128 \<le> c" "c < 2048" | "2048 \<le> c" "c < 65536" | "65536 \<le> c" "c < 1114112"
    using assms unfolding shown_char_def by linarith
  then show ?thesis
  proof cases
    case 1
    with assms show ?thesis
      by (auto simp: cols_def columns_def encode_utf8_def unat_of_nat_u8 shown_char_def word_unat_eq_iff u)
  next
    case 2
    then have "c div 64 < 32" by (simp add: less_mult_imp_div_less)
    with 2 d show ?thesis
      by (auto simp: cols_def columns_def encode_utf8_def unat_of_nat_u8 word_unat_eq_iff u simp del: of_nat_add)
  next
    case 3
    then have "c div 4096 < 16" by (simp add: less_mult_imp_div_less)
    with 3 d show ?thesis
      by (auto simp: cols_def columns_def encode_utf8_def unat_of_nat_u8 word_unat_eq_iff u simp del: of_nat_add)
  next
    case 4
    then have "c div 262144 < 5" by (simp add: less_mult_imp_div_less)
    with 4 d show ?thesis
      by (auto simp: cols_def columns_def encode_utf8_def unat_of_nat_u8 word_unat_eq_iff u simp del: of_nat_add)
  qed
qed

lemma cols_utf8: "list_all shown_char s \<Longrightarrow> cols (length s) (utf8 s)"
  by (induction s) (auto intro: cols_eq [OF cols_append [OF cols_encode]] cols_Nil)

lemma digit_char_shown: "d < 36 \<Longrightarrow> cols 1 [digit_char d]"
  by (auto simp: cols_def columns_def digit_char_def unat_of_nat_u8 word_unat_eq_iff simp del: of_nat_add)

lemma cols_radix_digits:
  assumes "0 < radix" and "radix \<le> 36"
  shows "cols k (radix_digits radix k n)"
proof -
  have "cols (sum_list (map (\<lambda>_. 1) [0..<k])) (concat (map (\<lambda>j. [digit_char (n div radix ^ (k - 1 - j) mod radix)]) [0..<k]))"
    by (rule cols_concat_map, rule digit_char_shown) (use assms in \<open>auto intro: order.strict_trans2 [OF mod_less_divisor]\<close>)
  moreover have "concat (map (\<lambda>j. [g j]) xs) = map g xs" for g :: "nat \<Rightarrow> u8" and xs
    by (induction xs) auto
  ultimately show ?thesis by (simp add: radix_digits_def sum_list_triv)
qed

lemma tables_shown: "list_all shown_char CP437" "list_all shown_char CP1047"
  by (simp_all add: CP437_def CP1047_def shown_char_def)

lemma as_char_shown: "shown_char (as_char b table)"
proof -
  have b: "unat b < 256" "unat (to_braille_bits b) < 256" by (rule unat_u8_less)+
  have l: "length CP437 = 256" "length CP1047 = 256" by (simp_all add: CP437_def CP1047_def)
  have "shown_char (CP437 ! unat b)" "shown_char (CP1047 ! unat b)"
    using tables_shown b(1) l by (auto simp: list_all_length)
  with b category_cases [of b] show ?thesis
    by (cases table; cases "category b") (auto simp: as_char_def shown_char_def)
qed

section \<open>Cells\<close>

definition cell_width :: "nat \<Rightarrow> nat \<Rightarrow> nat \<Rightarrow> nat" where
  \<comment> \<open>of byte \<open>i\<close> with groups of \<open>g\<close> bytes and \<open>d\<close> digits\<close>
  "cell_width g d i = (if g dvd i then 1 else 0) + d + (if i mod 8 = 7 then 2 else 0)"

definition plain_ok :: "printer \<Rightarrow> bool" where
  \<comment> \<open>a printer without colours as the program builds it\<close>
  "plain_ok p \<longleftrightarrow>
     \<not> show_color p \<and> unat (group_size p) \<in> {1, 2, 4, 8} \<and>
     length (byte_hex_panel p) = 256 \<and> list_all (cols (unat (base_digits p))) (byte_hex_panel p) \<and>
     length (byte_char_panel p) = 256 \<and> list_all (cols 1) (byte_char_panel p) \<and>
     length (byte_hex_panel_g p) = 256 \<and> list_all (cols 2) (byte_hex_panel_g p) \<and>
     line_width p = 8 * unat (panels p) \<and> 0 < unat (panels p)"

lemma entry_cols: "length panel = 256 \<Longrightarrow> list_all (cols n) panel \<Longrightarrow> cols n (panel ! unat (b :: u8))"
  using unat_u8_less [of b] by (simp add: list_all_length)

lemma separator_cols: "cols 1 (separator outer_sep p)" "cols 1 (separator inner_sep p)"
  by (auto simp: separator_def outer_sep_def inner_sep_def shown_char_def intro!: cols_encode split: border_style.splits)

lemma no_colors: "plain_ok p \<Longrightarrow> colored c p = []" "plain_ok p \<Longrightarrow> paint pal p prev b = []"
  by (simp_all add: plain_ok_def colored_def paint_def)

lemma panel_end_cols: "plain_ok p \<Longrightarrow> cols (if i mod 8 = 7 then 2 else 0) (panel_end pal p i)"
  by (auto simp: panel_end_def no_colors separator_cols cols_Nil intro!: cols_eq [OF cols_append [OF cols_space(1)], of 1 _ 2, simplified])

lemma char_end_cols: "plain_ok p \<Longrightarrow> cols (if i mod 8 = 7 then 1 else 0) (char_end pal p i)"
  by (auto simp: char_end_def no_colors separator_cols cols_Nil)

lemma group_space_cols: "cols (if unat (group_size p) dvd i then 1 else 0) (group_space p i)"
  by (auto simp: group_space_def cols_intro)

lemma byte_cell_cols:
  assumes "plain_ok p"
  shows "cols (cell_width (unat (group_size p)) (unat (base_digits p)) i) (byte_cell pal p xs i)"
proof -
  have "cols (unat (base_digits p)) (byte_hex_panel p ! unat (xs ! i))"
    by (rule entry_cols) (use assms in \<open>simp_all add: plain_ok_def\<close>)
  from cols_append [OF group_space_cols cols_append [OF this panel_end_cols [OF assms]]] show ?thesis
    by (simp add: byte_cell_def no_colors [OF assms] cell_width_def add.assoc)
qed

lemma blank_cell_cols:
  assumes "plain_ok p"
  shows "cols (cell_width (unat (group_size p)) (unat (base_digits p)) i) (blank_cell pal p i)"
proof -
  have e: "cols 1 (byte_char_panel p ! unat (42 :: u8))"
    by (rule entry_cols) (use assms in \<open>simp_all add: plain_ok_def\<close>)
  have "cols (if unat (group_size p) dvd i then 1 else 0)
      (if \<not> show_position_panel p \<and> i = 0 then colored (color_offset pal) p @ byte_char_panel p ! 42 @ colored (color_reset pal) p
       else group_space p i)"
    using e group_space_cols [of p i] by (auto simp: no_colors [OF assms])
  from cols_append [OF this cols_append [OF cols_space(2) panel_end_cols [OF assms]]] show ?thesis
    by (simp add: blank_cell_def cell_width_def add.assoc)
qed

lemma char_cell_cols:
  assumes "plain_ok p"
  shows "cols (1 + (if i mod 8 = 7 then 1 else 0)) (char_cell pal p xs i)"
    and "cols (1 + (if i mod 8 = 7 then 1 else 0)) (blank_char pal p i)"
proof -
  have "cols 1 (byte_char_panel p ! unat (xs ! i))"
    by (rule entry_cols) (use assms in \<open>simp_all add: plain_ok_def\<close>)
  from cols_append [OF this char_end_cols [OF assms]]
  show "cols (1 + (if i mod 8 = 7 then 1 else 0)) (char_cell pal p xs i)"
    by (simp add: char_cell_def no_colors [OF assms])
  from cols_append [OF cols_space(1) char_end_cols [OF assms]]
  show "cols (1 + (if i mod 8 = 7 then 1 else 0)) (blank_char pal p i)" by (simp add: blank_char_def)
qed

section \<open>Rows\<close>

lemma sum_periodic:
  assumes "\<And>i. f (i + 8) = f i"
  shows "sum_list (map f [0..<8 * k]) = k * (sum_list (map f [0..<8]) :: nat)"
proof (induction k)
  case (Suc k)
  have "f (i + 8 * j) = f i" for i j
    by (induction j) (simp_all add: assms add.assoc [symmetric] add.commute [of 8])
  then have "map f [8 * k..<8 * k + 8] = map f [0..<8]"
    by (intro nth_equalityI) (simp_all add: add.commute [of "8 * k"])
  moreover have "[0..<8 * k + 8] = [0..<8 * k] @ [8 * k..<8 * k + 8]"
    by (rule upt_add_eq_append) simp
  moreover have "8 * Suc k = 8 * k + 8" by simp
  ultimately show ?case using Suc by (simp only: map_append sum_list_append) simp
qed simp

lemma cell_width_period:
  assumes "g \<in> {1, 2, 4, 8 :: nat}"
  shows "cell_width g d (i + 8) = cell_width g d i"
    and "sum_list (map (cell_width g d) [0..<8]) = (8 div g) * (d * g + 1) + 2"
proof -
  have "g dvd 8" using assms by auto
  then have "g dvd (i + 8) \<longleftrightarrow> g dvd i" by (rule dvd_add_left_iff)
  then show "cell_width g d (i + 8) = cell_width g d i" by (simp add: cell_width_def)
  have "[0..<8] = [0, 1, 2, 3, 4, 5, 6, 7]" by (simp add: upt_rec)
  then show "sum_list (map (cell_width g d) [0..<8]) = (8 div g) * (d * g + 1) + 2"
    using assms by (auto simp: cell_width_def)
qed

definition panel_columns :: "printer \<Rightarrow> nat" where
  "panel_columns p = (8 div unat (group_size p)) * (unat (base_digits p) * unat (group_size p) + 1) + 2"

definition table_width :: "printer \<Rightarrow> nat" where
  "table_width p =
     1 + (if show_position_panel p then 9 else 0) + unat (panels p) * panel_columns p +
     (if show_char_panel p then 9 * unat (panels p) else 0)"

lemma cells_cols:
  assumes ok: "plain_ok p" and n: "length xs \<le> line_width p"
  shows "cols (unat (panels p) * panel_columns p) (byte_cells pal p xs @ blank_cells pal p (length xs))"
    and "cols (9 * unat (panels p)) (char_cells pal p xs @ blank_chars pal p (length xs))"
proof -
  let ?w = "cell_width (unat (group_size p)) (unat (base_digits p))" and ?n = "length xs"
  let ?c = "\<lambda>i :: nat. 1 + (if i mod 8 = 7 then 1 else 0) :: nat"
  have g: "unat (group_size p) \<in> {1, 2, 4, 8}" and lw: "line_width p = 8 * unat (panels p)"
    using ok by (simp_all add: plain_ok_def)
  have split: "sum_list (map f [0..<?n]) + sum_list (map f [?n..<line_width p]) = sum_list (map f [0..<line_width p])"
    for f :: "nat \<Rightarrow> nat"
    using upt_add_eq_append [of 0 ?n "line_width p - ?n"] n by (simp flip: sum_list_append map_append)
  have "cols (sum_list (map ?w [0..<?n]) + sum_list (map ?w [?n..<line_width p])) (byte_cells pal p xs @ blank_cells pal p ?n)"
    unfolding byte_cells_def blank_cells_def
    by (intro cols_append cols_concat_map byte_cell_cols blank_cell_cols ok)
  then show "cols (unat (panels p) * panel_columns p) (byte_cells pal p xs @ blank_cells pal p ?n)"
    unfolding split unfolding lw sum_periodic [of ?w, OF cell_width_period(1) [OF g]]
    by (simp add: cell_width_period(2) [OF g] panel_columns_def)
  have "cols (sum_list (map ?c [0..<?n]) + sum_list (map ?c [?n..<line_width p])) (char_cells pal p xs @ blank_chars pal p ?n)"
    unfolding char_cells_def blank_chars_def
    by (intro cols_append cols_concat_map char_cell_cols ok)
  moreover have "sum_list (map ?c [0..<8 * k]) = 9 * k" for k
    by (subst sum_periodic) (simp_all add: upt_rec)
  ultimately show "cols (9 * unat (panels p)) (char_cells pal p xs @ blank_chars pal p ?n)"
    unfolding split unfolding lw by simp
qed

lemma position_digits:
  assumes "unat v < 2 ^ 32"
  shows "length (skip_zeros 4 (be_bytes v)) = 4"
proof -
  have z: "drop_bit (8 * k) v = 0" if "4 \<le> k" for k
  proof -
    have "(2 :: nat) ^ 32 \<le> 2 ^ (8 * k)" by (rule power_increasing) (use that in auto)
    with assms have "unat v < 2 ^ (8 * k)" by (rule order.strict_trans2)
    then show ?thesis by (simp add: word_unat_eq_iff unat_drop_bit_eq drop_bit_eq_div [of _ "unat v"])
  qed
  have "be_bytes v = map (\<lambda>k. ucast (drop_bit (8 * k) v)) [7, 6, 5, 4, 3, 2, 1, 0]"
    by (simp add: be_bytes_def upt_rec)
  then show ?thesis using z [of 4] z [of 5] z [of 6] z [of 7] by (simp add: skip_zeros_def)
qed

lemma position_cols:
  assumes ok: "plain_ok p" and v: "star \<or> unat (of_nat pos + display_offset p) < 2 ^ 32"
  shows "cols (1 + (if show_position_panel p then 9 else 0)) (position_text pal p star pos)"
proof -
  let ?bs = "skip_zeros 4 (be_bytes (of_nat pos + display_offset p))"
  have "cols 2 (byte_hex_panel_g p ! unat b)" for b :: u8
    by (rule entry_cols) (use ok in \<open>simp_all add: plain_ok_def\<close>)
  then have "cols (sum_list (map (\<lambda>_. 2) ?bs)) (concat (map (\<lambda>b. byte_hex_panel_g p ! unat b) ?bs))"
    by (rule cols_concat_map)
  then have d: "\<not> star \<Longrightarrow> cols 8 (concat (map (\<lambda>b. byte_hex_panel_g p ! unat b) ?bs))"
    using v position_digits by (auto simp: sum_list_triv)
  have s: "star \<Longrightarrow> cols 8 ([42] @ replicate 7 32)"
    using cols_append [OF cols_space(3) cols_space(2) [of 7]] by simp
  have "cols 9 ((if star then [42] @ replicate 7 32 else concat (map (\<lambda>b. byte_hex_panel_g p ! unat b) ?bs)) @
      separator outer_sep p)"
    using cols_append [OF _ separator_cols(1), of 8 "if star then [42] @ replicate 7 32 else concat (map (\<lambda>b. byte_hex_panel_g p ! unat b) ?bs)" p] d s
    by auto
  from cols_append [OF separator_cols(1) this, of p] show ?thesis
    by (auto simp: position_text_def no_colors [OF ok] separator_cols)
qed

definition row_in_range :: "printer \<Rightarrow> row \<Rightarrow> bool" where
  "row_in_range p r =
     (case r of Row pos xs \<Rightarrow> length xs \<le> line_width p \<and> unat (of_nat pos + display_offset p) < 2 ^ 32 | Star \<Rightarrow> True)"

lemma row_is_line:
  assumes ok: "plain_ok p" and r: "row_in_range p r"
  shows "is_line (table_width p) (row_text pal p r)"
proof (cases r)
  case (Row pos xs)
  let ?cs = "if show_char_panel p then char_cells pal p xs @ blank_chars pal p (length xs) else []"
  from Row r have n: "length xs \<le> line_width p" and v: "unat (of_nat pos + display_offset p) < 2 ^ 32"
    by (simp_all add: row_in_range_def)
  have "cols (if show_char_panel p then 9 * unat (panels p) else 0) ?cs"
    using cells_cols(2) [OF ok n] by (auto intro: cols_intro)
  from cols_append [OF position_cols [OF ok disjI2 [OF v], where star = False] cols_append [OF cells_cols(1) [OF ok, of "shown_order p xs"] this]] n
  have "cols (table_width p) (position_text pal p False pos @ (byte_cells pal p (shown_order p xs) @ blank_cells pal p (length xs)) @ ?cs)"
    by (simp add: table_width_def add.assoc)
  with Row show ?thesis unfolding is_line_def
    by (intro exI [of _ "position_text pal p False pos @ (byte_cells pal p (shown_order p xs) @ blank_cells pal p (length xs)) @ ?cs"])
      simp
next
  case Star
  let ?cs = "if show_char_panel p then blank_chars pal p 0 else []"
  have "cols (if show_char_panel p then 9 * unat (panels p) else 0) ?cs"
    using cells_cols(2) [OF ok, of "[]"] by (auto intro: cols_intro simp: char_cells_def)
  from cols_append [OF position_cols [OF ok disjI1, where star = True and pos = 0] cols_append [OF cells_cols(1) [OF ok, of "[]"] this]]
  have "cols (table_width p) (position_text pal p True 0 @ blank_cells pal p 0 @ ?cs)"
    by (simp add: table_width_def add.assoc byte_cells_def)
  with Star show ?thesis unfolding is_line_def
    by (intro exI [of _ "position_text pal p True 0 @ blank_cells pal p 0 @ ?cs"]) simp
qed

section \<open>The table\<close>

lemma panel_sz_columns: "plain_ok p \<Longrightarrow> panel_sz p = Ok (panel_columns p - 1)"
  by (auto simp: panel_sz_def panel_columns_def plain_ok_def unat_eq_0 mult.commute)

lemma border_is_line:
  assumes ok: "plain_ok p"
    and c: "list_all shown_char [left_corner be, horizontal_line be, column_separator be, right_corner be]"
  shows "is_line (table_width p) (border_text p be)"
proof -
  let ?h = "horizontal_line be" and ?c = "column_separator be" and ?k = "unat (panels p - 1)"
  let ?w = "replicate (panel_columns p - 1) ?h" and ?n = "replicate 8 ?h"
  let ?body = "left_corner be # (if show_position_panel p then ?n @ [?c] else []) @
        concat (replicate ?k (?w @ [?c])) @ ?w @
        (if show_char_panel p then ?c # concat (replicate ?k (?n @ [?c])) @ ?n else []) @ [right_corner be]"
  have k: "unat (panels p) = Suc ?k"
    using ok by (auto simp: plain_ok_def unat_sub_if_size word_le_nat_alt)
  have pc: "panel_columns p = Suc (panel_columns p - 1)" by (simp add: panel_columns_def)
  have s: "list_all shown_char ?body" using c by (auto simp: list_all_iff)
  have r: "length (concat (replicate j xs)) = j * length xs" for j and xs :: ustring by (induction j) simp_all
  have l: "length ?body = table_width p"
    unfolding table_width_def k using pc by (simp add: r algebra_simps)
  have "border_text p be = utf8 (?body @ [10])"
    by (simp add: border_text_def Let_def panel_sz_columns [OF ok])
  also have "\<dots> = utf8 ?body @ [10]" by (simp only: utf8_append) (simp add: encode_utf8_def [of 10])
  finally show ?thesis using cols_utf8 [OF s] unfolding l is_line_def by blast
qed

lemma header_is_line:
  assumes "plain_ok p" and "border_style p \<noteq> BorderNone"
  shows "is_line (table_width p) (header_text p)" and "is_line (table_width p) (footer_text p)"
  using assms by (cases "border_style p";
    auto simp: header_text_def footer_text_def header_elems_def footer_elems_def shown_char_def intro!: border_is_line)+

lemma plain_build:
  assumes g: "unat (pb_group_size pb) \<in> {1, 2, 4, 8}" and "builder_ok pb" and "\<not> pb_show_color pb"
  shows "plain_ok (displayed pb d)"
proof -
  have b: "list_all (cols (digits_of_base b)) (map (format_byte b) [0..<256])" for b
    by (cases b) (auto simp: list_all_iff format_byte_def digits_of_base_def intro: cols_radix_digits)
  have d: "unat (of_nat (digits_of_base b) :: u8) = digits_of_base b" for b
    by (cases b) (simp_all add: digits_of_base_def)
  have "line_width (displayed pb d) = 8 * unat (panels (displayed pb d))"
    using line_width_eq [OF displayed_ready(1) [OF plain_palette_ok assms(2)]] .
  with assms b show ?thesis
    by (auto simp: plain_ok_def displayed_def set_display_offset_def printer_of_def builder_ok_def d list_all_iff
        intro: cols_radix_digits cols_encode as_char_shown)
qed

lemma rows_in_range:
  assumes "0 < n" and "n = line_width p" and "pos + length xs + unat (display_offset p) < 2 ^ 32"
  shows "list_all (row_in_range p) (rows sq n q pos xs)"
  using assms
proof (induction "length xs" arbitrary: q pos xs rule: less_induct)
  case less
  have "of_nat pos + display_offset p = of_nat (pos + unat (display_offset p))" by simp
  then have "unat (of_nat pos + display_offset p) = (pos + unat (display_offset p)) mod 2 ^ 64"
    by (simp only: unat_of_nat) simp
  also have "\<dots> \<le> pos + unat (display_offset p)" by (rule mod_less_eq_dividend)
  finally have "unat (of_nat pos + display_offset p) \<le> pos + unat (display_offset p)" .
  with less.prems(3) have v: "unat (of_nat pos + display_offset p) < 2 ^ 32" by simp
  show ?case
  proof (cases "length xs < n")
    case True
    with v less.prems show ?thesis by (simp add: rows.simps row_in_range_def)
  next
    case False
    then have "list_all (row_in_range p) (rows sq n (next_squeeze sq q (take n xs)) (pos + n) (drop n xs))"
      using less.prems by (intro less.hyps) auto
    with False v less.prems(1,2) show ?thesis
      by (subst rows.simps) (simp add: line_rows_def row_in_range_def)
  qed
qed

text \<open>
  C27. The table is a table.  Without colours, with a border, with groups of 1, 2, 4 or 8 bytes and as
  long as positions fit eight digits, what \<open>print_all\<close> prints for an input that is not empty is a sequence
  of lines that all have the same number of characters, whatever the panels, the base, the byte order,
  the squeezing and the character table.
\<close>

theorem hexyl_columns:
  assumes "byte_reader rd remaining sound" and "sound r" and "remaining r \<noteq> []" and "palette_ok pal"
    and "builder_ok pb" and "unat (pb_group_size pb) \<in> {1, 2, 4, 8}" and "pb_include_mode pb = IncludeOff"
    and "\<not> pb_show_color pb" and "pb_border_style pb \<noteq> BorderNone" and "length (remaining r) + unat d < 2 ^ 32"
  shows "\<exists>ls r' p'. print_all alnum rd memory_writer pal (r, [], displayed pb d) = ((r', concat ls, p'), Ok ()) \<and>
    list_all (is_line (table_width (displayed pb d))) ls"
proof -
  let ?p = "displayed pb d"
  let ?rs = "rows (pb_use_squeeze pb) (line_width ?p) (None, False) 0 (remaining r)"
  let ?ls = "header_text ?p # map (row_text pal ?p) ?rs @ [footer_text ?p]"
  note ready = displayed_ready [OF assms(4,5), of d]
  have m: "include_mode ?p = IncludeOff" "border_style ?p \<noteq> BorderNone" "display_offset ?p = d"
    using assms(7,9) by (simp_all add: displayed_def set_display_offset_def printer_of_def)
  have ok: "plain_ok ?p" by (rule plain_build [OF assms(6,5,8)])
  have "list_all (row_in_range ?p) ?rs"
    by (rule rows_in_range [OF line_width_pos [OF ready(1)] refl]) (use assms(10) m in simp)
  then have "list_all (is_line (table_width ?p)) ?ls"
    using row_is_line [OF ok] header_is_line [OF ok m(2)] by (auto simp: list_all_iff)
  moreover have "table_text pal ?p (pb_use_squeeze pb) (remaining r) = concat ?ls"
    using assms(3) by (simp add: table_text_def)
  moreover from print_all_dumps [OF assms(1) collected.byte_writer_axioms assms(2) ready m(1), where alnum = alnum and w = "[]"]
  obtain r' p' where "print_all alnum rd memory_writer pal (r, [], ?p) =
      ((r', table_text pal ?p (pb_use_squeeze pb) (remaining r), p'), Ok ())" by auto
  ultimately show ?thesis by metis
qed

theorem hexyl_columns_witness:
  "\<exists>ls r' p'. print_all (\<lambda>_. True) events_read memory_writer plain_palette
      ([Chunk [1, 2, 3]], [], displayed (builder_show_color False printer_builder_new) 0) = ((r', concat ls, p'), Ok ()) \<and>
    list_all (is_line 80) ls"
proof -
  have "table_width (displayed (builder_show_color False printer_builder_new) 0) = 80"
    by (simp add: table_width_def panel_columns_def displayed_def set_display_offset_def printer_of_def builder_show_color_def
        printer_builder_new_def digits_of_base_def)
  with hexyl_columns [OF events.byte_reader_axioms _ _ plain_palette_ok, where r = "[Chunk [1, 2, 3]]" and d = 0 and
      pb = "builder_show_color False printer_builder_new" and alnum = "\<lambda>_. True"]
  show ?thesis by (simp add: builder_show_color_def printer_builder_new_def builder_ok_def)
qed

section \<open>The number of panels\<close>

definition default_opt :: opt where
  \<comment> \<open>the options of an empty command line\<close>
  "default_opt =
     \<lparr>o_file = None, o_length = None, o_skip = None, o_block_size = ustr ''512'', o_no_squeezing = False,
      o_color = Always, o_border = BorderUnicode, o_plain = False, o_no_characters = False,
      o_character_table = TableDefault, o_color_scheme = SchemeDefault, o_no_position = False,
      o_display_offset = ustr ''0'', o_panels = None, o_group_size = One, o_endianness = Big,
      o_little_endian_format = False, o_base = ustr ''hexadecimal'', o_terminal_width = None,
      o_print_color_table = False, o_include_mode = False\<rparr>"

definition pipe_system :: "(reader, reader) hexyl_system" where
  \<comment> \<open>standard input only, and no terminal\<close>
  "pipe_system =
     \<lparr>sys_input = \<lparr>file_read = events_read, file_seek = (\<lambda>f _. (f, Err NotSeekable)), stdin_read = events_read\<rparr>,
      is_dir = (\<lambda>_. False), open_input = (\<lambda>_. None), file_name_of = (\<lambda>_. None), no_color = False,
      supports_color = False, terminal_columns = None\<rparr>"

definition position_shown :: "opt \<Rightarrow> bool" where
  "position_shown opt \<longleftrightarrow> \<not> o_no_position opt \<and> \<not> o_plain opt"

definition characters_shown :: "opt \<Rightarrow> bool" where
  "characters_shown opt \<longleftrightarrow> \<not> o_no_characters opt \<and> \<not> o_plain opt"

lemma dump_width:
  assumes "num < 2 ^ 64"
  shows "table_width (displayed (builder_of sys opt bas num) d) =
    1 + (if position_shown opt then 9 else 0) +
    num * ((8 div unat (group_size_u8 (o_group_size opt))) *
      (digits_of_base bas * unat (group_size_u8 (o_group_size opt)) + 1) + 2) +
    (if characters_shown opt then 9 * num else 0)"
proof -
  have b: "unat (of_nat (digits_of_base bas) :: u8) = digits_of_base bas"
    by (cases bas) (simp_all add: digits_of_base_def)
  show ?thesis
    by (simp add: table_width_def panel_columns_def displayed_def set_display_offset_def printer_of_def builder_of_def
        builder_defs b unat_of_nat_u64 [OF assms] position_shown_def characters_shown_def)
qed

definition auto_panels :: "opt \<Rightarrow> base \<Rightarrow> nat \<Rightarrow> nat" where
  \<comment> \<open>the panels chosen for a terminal of the given width\<close>
  "auto_panels opt bas tw =
     max_panels_fn (position_shown opt) (characters_shown opt) tw (digits_of_base bas)
       (unat (group_size_u8 (o_group_size opt)))"

text \<open>
  The width of the terminal.  With the number of panels chosen for a terminal of \<open>tw\<close> columns, the
  table fits when the character panel is hidden, or has only one panel; with the character panel it
  may be wider by at most one column for each panel.
\<close>

theorem hexyl_auto_width:
  assumes "tw < 2 ^ 64"
  shows "auto_panels opt bas tw = 1 \<or>
    table_width (displayed (builder_of sys opt bas (auto_panels opt bas tw)) d) \<le>
      tw + (if characters_shown opt then auto_panels opt bas tw else 0)"
proof (cases "auto_panels opt bas tw = 1")
  case False
  let ?k = "auto_panels opt bas tw" and ?g = "unat (group_size_u8 (o_group_size opt))"
  let ?off = "if position_shown opt then 10 else 1 :: nat"
  let ?w = "(8 div ?g) * (digits_of_base bas * ?g + 1) + 2 + (if characters_shown opt then 8 else 0)"
  from False have k: "?k = (tw - ?off) div ?w" "1 < ?k"
    by (auto simp: auto_panels_def max_panels_fn_def Let_def split: if_splits)
  have "?k * ?w \<le> tw - ?off" unfolding k(1) by (rule div_times_less_eq_dividend)
  moreover have "0 < tw - ?off" using k by (cases "tw - ?off = 0") auto
  ultimately have 1: "?off + ?k * ?w \<le> tw" by linarith
  have "?k * 1 \<le> ?k * ?w" by (rule mult_le_mono2) simp
  with 1 assms have "?k < 2 ^ 64" by linarith
  from dump_width [OF this, of sys opt bas d] 1
  have "table_width (displayed (builder_of sys opt bas ?k) d) \<le> tw + (if characters_shown opt then ?k else 0)"
    by (auto simp: algebra_simps)
  then show ?thesis ..
qed simp

theorem hexyl_auto_width_witness:
  "auto_panels (default_opt\<lparr>o_no_characters := True\<rparr>) Hexadecimal 100 = 3 \<and>
   table_width (displayed (builder_of pipe_system (default_opt\<lparr>o_no_characters := True\<rparr>) Hexadecimal 3) 0) \<le> 100"
proof -
  have "auto_panels (default_opt\<lparr>o_no_characters := True\<rparr>) Hexadecimal 100 = 3"
    by (simp add: auto_panels_def max_panels_fn_def default_opt_def position_shown_def characters_shown_def
        digits_of_base_def group_size_u8_def)
  with hexyl_auto_width [of 100 "default_opt\<lparr>o_no_characters := True\<rparr>" Hexadecimal pipe_system 0]
  show ?thesis by (simp add: characters_shown_def)
qed

text \<open>
  A table that is too wide.  With the default options and \<open>--terminal-width=78\<close> the program chooses two
  panels, and prints a table of 80 columns: the width of a panel leaves out the separator behind
  the character panel.
\<close>

theorem hexyl_auto_too_wide:
  "number_of_panels None (Some 78) None (auto_panels default_opt Hexadecimal) = Ok 2 \<and>
   table_width (displayed (builder_of sys default_opt Hexadecimal 2) d) = 80"
  using dump_width [of 2 sys default_opt Hexadecimal d]
  by (simp add: number_of_panels_def auto_panels_def max_panels_fn_def default_opt_def position_shown_def
      characters_shown_def digits_of_base_def group_size_u8_def)

section \<open>An empty input\<close>

text \<open>
  The line of an empty input is always drawn for two panels, whatever the number of panels of the
  border around it.
\<close>

lemma hexyl_no_content:
  assumes ok: "plain_ok p" and b: "base_digits p = 2"
  shows "is_line (table_width (p\<lparr>panels := 2\<rparr>)) (no_content_text p)"
proof -
  let ?sz = "panel_columns p - 1"
  let ?body = "(if show_position_panel p then 9474 # blanks 8 else []) @
        [9474, 32] @ ustr ''No content'' @ blanks (?sz - 11) @ [9474] @ blanks ?sz @ [9474] @
        (if show_char_panel p then blanks 8 @ [9474] @ blanks 8 @ [9474] else [])"
  have s: "list_all shown_char ?body" by (auto simp: shown_char_def blanks_def list_all_iff)
  have sz: "11 \<le> ?sz" using ok b by (auto simp: panel_columns_def plain_ok_def)
  have l: "length ?body = table_width (p\<lparr>panels := 2\<rparr>)"
  proof -
    have "panel_columns (p\<lparr>panels := 2\<rparr>) = panel_columns p" by (simp add: panel_columns_def)
    moreover have "panel_columns p = (panel_columns p - 12) + 12" using sz by linarith
    then obtain c where "panel_columns p = c + 12" ..
    ultimately show ?thesis by (simp add: table_width_def blanks_def)
  qed
  have "no_content_text p = utf8 (?body @ [10])"
    by (simp add: no_content_text_def Let_def panel_sz_columns [OF ok])
  also have "\<dots> = utf8 ?body @ [10]" by (simp only: utf8_append) (simp add: encode_utf8_def [of 10])
  finally show ?thesis using cols_utf8 [OF s] unfolding l is_line_def by blast
qed

end
