(* ===== verification/Hexyl_Offset.thy ===== *)
theory Hexyl_Offset
  imports Hexyl_Args
begin

text \<open>
  The offsets and counts of the command line of \<open>hexyl\<close>: every text parses to a value that fits a signed
  64 bit number and is not negative, or is an error; and the texts of a number with a unit are read
  back.
\<close>

section \<open>Integers\<close>

lemma digit_val_less: "digit_val radix c = Some d \<Longrightarrow> d < radix"
  by (auto simp: digit_val_def Let_def split: if_splits option.splits)

lemma parse_digits_range:
  "parse_digits radix False acc s = Ok v \<Longrightarrow> 0 \<le> acc \<Longrightarrow> acc < i64_limit \<Longrightarrow> 0 \<le> v \<and> v < i64_limit"
  by (induction s arbitrary: acc) (auto simp: Let_def split: option.splits if_splits)

lemma parse_digits_returns: "returns (parse_digits radix neg acc s)"
  by (induction s arbitrary: acc) (auto simp: Let_def split: option.splits)

lemma parse_i64_returns [simp]: "returns (parse_i64 radix s)"
  by (auto simp: parse_i64_def parse_digits_returns simp del: parse_digits.simps split: list.splits)

lemma parse_i64_unsigned:
  assumes "parse_i64 radix s = Ok v" and "s = [] \<or> hd s \<noteq> 45"
  shows "0 \<le> v \<and> v < i64_limit"
proof -
  have "0 < i64_limit" by (simp add: i64_limit_def)
  with assms show ?thesis
    by (auto simp: parse_i64_def simp del: parse_digits.simps split: list.splits if_splits dest!: parse_digits_range)
qed

lemma parse_digits_eq:
  assumes "digits_val radix (nat acc) s = Some v" and "0 \<le> acc" and "int v < i64_limit" and "0 < radix"
  shows "parse_digits radix False acc s = Ok (int v)"
  using assms
proof (induction s arbitrary: acc)
  case (Cons c s)
  then obtain d where d: "digit_val radix c = Some d" "digits_val radix (nat acc * radix + d) s = Some v"
    by (auto split: option.splits)
  have mono: "digits_val radix a s = Some v \<Longrightarrow> a \<le> v" for a s
  proof (induction s arbitrary: a)
    case (Cons c s)
    then obtain e where "digits_val radix (a * radix + e) s = Some v" by (auto split: option.splits)
    with Cons.IH have "a * radix + e \<le> v" by blast
    moreover have "a \<le> a * radix" using assms(4) by simp
    ultimately show ?case by linarith
  qed simp
  let ?a = "acc * int radix + int d"
  have a: "nat ?a = nat acc * radix + d" "0 \<le> ?a"
    using Cons.prems(2) by (simp_all add: nat_add_distrib nat_mult_distrib)
  with mono [OF d(2)] have "?a \<le> int v" by linarith
  with Cons.prems(3) have "\<not> i64_limit \<le> ?a" by linarith
  moreover have "\<not> ?a < - i64_limit" using a(2) by (simp add: i64_limit_def)
  ultimately have "parse_digits radix False acc (c # s) = parse_digits radix False ?a s"
    using d(1) by (simp only: parse_digits.simps option.case Let_def if_False)
  with Cons.IH [of ?a] a d(2) Cons.prems(3,4) show ?case by (simp only:)
qed simp

lemma parse_i64_dec:
  assumes "int n < i64_limit"
  shows "parse_i64 10 (dec_digits n) = Ok (int n)"
proof -
  obtain c cs where c: "dec_digits n = c # cs" by (cases "dec_digits n") auto
  then have "48 \<le> c" using dec_digits_range [of c n] by simp
  with parse_digits_eq [of 10 0 "dec_digits n" n] assms digits_val_dec_digits [of n] c show ?thesis
    by (simp add: parse_i64_def del: parse_digits.simps)
qed

section \<open>Offsets\<close>

lemma checked_mul_range:
  "checked_mul a b = Some v \<Longrightarrow> v < i64_limit" "checked_mul a b = Some v \<Longrightarrow> 0 \<le> a \<Longrightarrow> 0 \<le> b \<Longrightarrow> 0 \<le> v"
  by (auto simp: checked_mul_def split: if_splits)

lemma into_byte_offset_ok: "0 \<le> v \<Longrightarrow> into_byte_offset kind v = Ok \<lparr>offset_value = v, offset_kind = kind\<rparr>"
  by (simp add: into_byte_offset_def NonNegativeI64_new_def)

lemma extract_range:
  assumes "extract_num_and_unit_from n = Ok (v, un)"
  shows "un \<in> range Block \<longrightarrow> un = Block None" "0 \<le> v" "v < i64_limit"
proof -
  have d: "s = [] \<or> hd s \<noteq> 45" if "list_all is_ascii_digit s" for s
    using that by (cases s) (auto simp: is_ascii_digit_def)
  have t: "list_all is_ascii_digit (takeWhile is_ascii_digit n)" by (auto simp: list_all_iff dest: set_takeWhileD)
  show "0 \<le> v" "v < i64_limit"
    using assms parse_i64_unsigned [OF _ d, of 10 n v] parse_i64_unsigned [OF _ d [OF t], of 10 v]
    by (auto simp: extract_num_and_unit_from_def Let_def outcome_simps split: if_splits option.splits)
  show "un \<in> range Block \<longrightarrow> un = Block None"
    using assms by (auto simp: extract_num_and_unit_from_def Let_def outcome_simps unit_of_name_def
        split: if_splits option.splits)
qed

lemma extract_returns: "returns (extract_num_and_unit_from n)"
  by (auto simp: extract_num_and_unit_from_def Let_def returns_obind split: option.splits)

lemma hex_range:
  assumes "try_parse_as_hex_number n = Some r"
  shows "returns r" "r = Ok v \<Longrightarrow> 0 \<le> v \<and> v < i64_limit"
proof -
  show "returns r" using assms
    by (auto simp: try_parse_as_hex_number_def Let_def split: if_splits list.splits)
  show "0 \<le> v \<and> v < i64_limit" if "r = Ok v"
    using assms that parse_i64_unsigned [of 16 "drop 2 n" v]
    by (auto simp: try_parse_as_hex_number_def Let_def outcome_simps split: if_splits list.splits)
qed

text \<open>
  C37. The type of an offset.  With a positive block size that fits 64 bits, parsing any text returns: an
  error, or an offset whose value is not negative and fits a signed 64 bit number, which is what
  the \<open>unwrap\<close> of \<open>NonNegativeI64::new\<close> relies on; the parser never panics.
\<close>

theorem hexyl_offset_type:
  assumes "0 < block_size" and "block_size < i64_limit"
  shows "returns (parse_byte_offset s block_size) \<and>
    (case parse_byte_offset s block_size of
       Ok b \<Rightarrow> 0 \<le> offset_value b \<and> offset_value b < i64_limit \<and>
         (offset_kind b = BackwardFromEnd \<longleftrightarrow> s \<noteq> [] \<and> hd s = 45)
     | _ \<Rightarrow> True)"
proof -
  have "returns (parse_byte_offset s block_size) \<and> (\<forall>b. parse_byte_offset s block_size = Ok b \<longrightarrow>
      0 \<le> offset_value b \<and> offset_value b < i64_limit \<and> (offset_kind b = BackwardFromEnd \<longleftrightarrow> s \<noteq> [] \<and> hd s = 45))"
  proof (cases "process_sign_of s")
    case (Ok nk)
    obtain n kind where nk: "nk = (n, kind)" by (cases nk)
    have kind: "kind = BackwardFromEnd \<longleftrightarrow> s \<noteq> [] \<and> hd s = 45"
      using Ok nk by (auto simp: process_sign_of_def split: list.splits if_splits)
    show ?thesis
    proof (cases "try_parse_as_hex_number n")
      case (Some r)
      from hex_range [OF this] Ok nk Some kind show ?thesis
        by (cases r) (simp_all add: parse_byte_offset_def into_byte_offset_ok)
    next
      case None
      show ?thesis
      proof (cases "extract_num_and_unit_from n")
        case e: (Ok vu)
        obtain v un where vu: "vu = (v, un)" by (cases vu)
        note r = extract_range [OF e [unfolded vu]]
        let ?un = "if un = Block None then Block (Some block_size) else un"
        have m: "0 \<le> get_multiplier ?un"
          using r assms by (cases un) (auto simp: DEFAULT_BLOCK_SIZE_def)
        show ?thesis
        proof (cases "checked_mul v (get_multiplier ?un)")
          case c: (Some x)
          with checked_mul_range r(2) m have x: "0 \<le> x" "x < i64_limit" by blast+
          with Ok nk None e vu c kind show ?thesis
            by (simp add: parse_byte_offset_def Let_def into_byte_offset_ok)
        qed (use Ok nk None e vu in \<open>simp add: parse_byte_offset_def Let_def\<close>)
      qed (use Ok nk None extract_returns [of n] in \<open>simp_all add: parse_byte_offset_def\<close>)
    qed
  qed (auto simp: parse_byte_offset_def process_sign_of_def split: list.splits if_splits)
  then show ?thesis by (cases "parse_byte_offset s block_size") auto
qed

theorem hexyl_offset_type_witness:
  "returns (parse_byte_offset (ustr ''-0x-5'') 512) \<and> parse_byte_offset (ustr ''-2block'') 512 =
    Ok \<lparr>offset_value = 1024, offset_kind = BackwardFromEnd\<rparr>"
proof -
  have "parse_byte_offset (ustr ''-2block'') 512 = Ok \<lparr>offset_value = 1024, offset_kind = BackwardFromEnd\<rparr>"
    by code_simp
  moreover have "(0 :: int) < 512" "512 < i64_limit" by (simp_all add: i64_limit_def)
  from hexyl_offset_type [OF this, of "ustr ''-0x-5''"] have "returns (parse_byte_offset (ustr ''-0x-5'') 512)" by blast
  ultimately show ?thesis by blast
qed

definition unit_text :: "unit_of \<Rightarrow> ustring" where
  "unit_text u = (case u of UByte \<Rightarrow> [] | Kilobyte \<Rightarrow> ustr ''kB'' | Megabyte \<Rightarrow> ustr ''MB'' | Gigabyte \<Rightarrow> ustr ''GB''
     | Terabyte \<Rightarrow> ustr ''TB'' | Kibibyte \<Rightarrow> ustr ''KiB'' | Mebibyte \<Rightarrow> ustr ''MiB'' | Gibibyte \<Rightarrow> ustr ''GiB''
     | Tebibyte \<Rightarrow> ustr ''TiB'' | Block _ \<Rightarrow> ustr ''block'')"

definition sign_text :: "byte_offset_kind \<Rightarrow> ustring" where
  "sign_text k = (case k of ForwardFromBeginning \<Rightarrow> [] | ForwardFromLastOffset \<Rightarrow> [43] | BackwardFromEnd \<Rightarrow> [45])"

lemma digits_no_hex: "\<not> prefix [48, 120] (dec_digits n @ unit_text u)"
proof
  assume "prefix [48, 120] (dec_digits n @ unit_text u)"
  then obtain zs where z: "dec_digits n @ unit_text u = 48 # 120 # zs" by (auto simp: prefix_def)
  obtain c cs where c: "dec_digits n = c # cs" by (cases "dec_digits n") auto
  have "120 \<notin> set (dec_digits n)" using dec_digits_range [of 120 n] by auto
  moreover have "120 \<notin> set (unit_text u)" by (cases u) (simp_all add: unit_text_def)
  moreover have "120 \<in> set (dec_digits n @ unit_text u)" unfolding z by simp
  ultimately show False by simp
qed

lemma extract_printed:
  assumes "int n < i64_limit"
  shows "extract_num_and_unit_from (dec_digits n @ unit_text u) =
    Ok (int n, case u of Block _ \<Rightarrow> Block None | _ \<Rightarrow> u)"
proof -
  have d: "\<forall>c\<in>set (dec_digits n). is_ascii_digit c" using dec_digits_range by (auto simp: is_ascii_digit_def)
  show ?thesis
  proof (cases "u = UByte")
    case True
    with d parse_i64_dec [OF assms] show ?thesis
      by (simp add: extract_num_and_unit_from_def unit_text_def list_all_iff)
  next
    case False
    have u: "unit_text u \<noteq> []" "\<not> is_ascii_digit (hd (unit_text u))"
      "unit_of_name (to_lowercase (unit_text u)) = Some (case u of Block _ \<Rightarrow> Block None | _ \<Rightarrow> u)"
      using False by (cases u; simp add: unit_text_def is_ascii_digit_def to_lowercase_def unit_of_name_def)+
    then have t: "takeWhile is_ascii_digit (dec_digits n @ unit_text u) = dec_digits n"
      "dropWhile is_ascii_digit (dec_digits n @ unit_text u) = unit_text u"
      using d by (cases "unit_text u"; simp)+
    have "\<not> list_all is_ascii_digit (unit_text u)" using u(1,2) by (cases "unit_text u") auto
    with t u(3) parse_i64_dec [OF assms] show ?thesis
      by (simp add: extract_num_and_unit_from_def Let_def)
  qed
qed

text \<open>
  Offsets are read back.  A number in decimal digits with a sign and the name of a unit parses as
  that number times the multiplier of the unit, from the place that the sign says, whenever the
  product fits; a block counts as the given block size.
\<close>

theorem hexyl_offset_roundtrip:
  assumes "0 < block_size" and "u \<in> range Block \<longrightarrow> u = Block (Some block_size)"
    and "int n * get_multiplier u < i64_limit"
  shows "parse_byte_offset (sign_text kind @ dec_digits n @ unit_text u) block_size =
    Ok \<lparr>offset_value = int n * get_multiplier u, offset_kind = kind\<rparr>"
proof -
  let ?s = "dec_digits n @ unit_text u"
  have m: "1 \<le> get_multiplier u" using assms(1,2) by (cases u) auto
  then have "int n \<le> int n * get_multiplier u" by (simp add: mult_le_cancel_left1)
  with assms(3) have n: "int n < i64_limit" by linarith
  obtain c cs where c: "dec_digits n = c # cs" by (cases "dec_digits n") auto
  then have "c \<noteq> 43" "c \<noteq> 45" using dec_digits_range [of c n] by auto
  with c have sign: "process_sign_of (sign_text kind @ ?s) = Ok (?s, kind)"
    by (cases kind) (simp_all add: process_sign_of_def sign_text_def)
  have hex: "try_parse_as_hex_number ?s = None" by (simp add: try_parse_as_hex_number_def digits_no_hex)
  let ?u = "case u of Block _ \<Rightarrow> Block None | _ \<Rightarrow> u"
  have u: "(if ?u = Block None then Block (Some block_size) else ?u) = u"
    using assms(2) by (cases u) auto
  have "0 \<le> int n * get_multiplier u" using m by simp
  with assms(3) have "checked_mul (int n) (get_multiplier u) = Some (int n * get_multiplier u)"
    by (auto simp: checked_mul_def i64_limit_def)
  with sign hex extract_printed [OF n, of u] \<open>0 \<le> int n * get_multiplier u\<close> show ?thesis
    by (simp add: parse_byte_offset_def Let_def u into_byte_offset_ok del: append_assoc)
qed

theorem hexyl_offset_roundtrip_witness:
  "parse_byte_offset (sign_text BackwardFromEnd @ dec_digits 3 @ unit_text Kibibyte) 512 =
    Ok \<lparr>offset_value = 3072, offset_kind = BackwardFromEnd\<rparr>"
  using hexyl_offset_roundtrip [of 512 Kibibyte 3 BackwardFromEnd] by (simp add: i64_limit_def image_iff)

end
