(* ===== verification/Hexyl_Run.thy ===== *)
theory Hexyl_Run
  imports Hexyl_Width Hexyl_Offset
begin

text \<open>
  The whole run of \<open>hexyl\<close> on standard input: skipping, the limit on the length, the number of panels
  and the table together.
\<close>

section \<open>Readers of the run\<close>

fun input_remaining :: "('i \<Rightarrow> bytes) \<Rightarrow> ('f, 'i) input \<Rightarrow> bytes" where
  "input_remaining remaining (InputStdin i) = remaining i"
| "input_remaining remaining (InputFile f) = []"

fun input_sound :: "('i \<Rightarrow> bool) \<Rightarrow> ('f, 'i) input \<Rightarrow> bool" where
  "input_sound sound (InputStdin i) = sound i"
| "input_sound sound (InputFile f) = False"

lemma input_reader:
  fixes sys :: "('f, 'i) input_system"
  assumes "byte_reader (stdin_read sys) remaining sound"
  shows "byte_reader (input_read sys) (input_remaining remaining) (input_sound sound)"
proof
  fix inp :: "('f, 'i) input" and k :: nat
  assume "input_sound sound inp" "0 < k"
  then show "\<exists>inp' bs. input_read sys inp k = (inp', Chunk bs) \<and> length bs \<le> k \<and>
      input_remaining remaining inp = bs @ input_remaining remaining inp' \<and> input_sound sound inp' \<and>
      (bs = [] \<longrightarrow> input_remaining remaining inp = [])"
    using byte_reader.read_law [OF assms, of _ k] by (cases inp) (fastforce simp: input_read_def)+
qed

fun limited_remaining :: "('r \<Rightarrow> bytes) \<Rightarrow> 'r \<times> nat option \<Rightarrow> bytes" where
  "limited_remaining remaining (r, None) = remaining r"
| "limited_remaining remaining (r, Some n) = take n (remaining r)"

lemma limited_reader:
  assumes "byte_reader rd remaining sound"
  shows "byte_reader (limited_read rd) (limited_remaining remaining) (sound \<circ> fst)"
proof
  fix st :: "'a \<times> nat option" and k :: nat
  assume a: "(sound \<circ> fst) st" "0 < k"
  obtain r l where st: "st = (r, l)" by (cases st)
  show "\<exists>st' bs. limited_read rd st k = (st', Chunk bs) \<and> length bs \<le> k \<and>
      limited_remaining remaining st = bs @ limited_remaining remaining st' \<and> (sound \<circ> fst) st' \<and>
      (bs = [] \<longrightarrow> limited_remaining remaining st = [])"
  proof (cases l)
    case None
    with byte_reader.read_law [OF assms, of r k] a st show ?thesis by fastforce
  next
    case (Some n)
    with byte_reader.take_read_law [OF assms, of r k n] a st show ?thesis by fastforce
  qed
qed

section \<open>The options\<close>

definition skipped :: "opt \<Rightarrow> int \<Rightarrow> nat option \<Rightarrow> bool" where
  \<comment> \<open>the options say to skip that many bytes; \<open>None\<close> for an offset from the end\<close>
  "skipped opt block_size n \<longleftrightarrow>
     (case o_skip opt of
        None \<Rightarrow> n = Some 0
      | Some s \<Rightarrow> (case parse_byte_offset s block_size of
          Ok b \<Rightarrow> if offset_kind b = BackwardFromEnd then n = None
                  else 0 \<le> offset_value b \<and> n = Some (nat (offset_value b))
        | _ \<Rightarrow> False))"

definition length_limit :: "opt \<Rightarrow> int \<Rightarrow> nat option \<Rightarrow> bool" where
  "length_limit opt block_size l \<longleftrightarrow>
     (case o_length opt of
        None \<Rightarrow> l = None
      | Some s \<Rightarrow> (case parse_byte_count s block_size of Ok m \<Rightarrow> l = Some (nat m) | _ \<Rightarrow> False))"

definition panels_chosen :: "('f, 'i) hexyl_system \<Rightarrow> opt \<Rightarrow> base \<Rightarrow> (hexyl_error, nat) outcome" where
  "panels_chosen sys opt bas =
     number_of_panels (o_panels opt) (o_terminal_width opt) (terminal_columns sys)
       (\<lambda>tw. max_panels_fn (\<not> o_no_position opt \<and> \<not> o_plain opt) (\<not> o_no_characters opt \<and> \<not> o_plain opt)
         tw (digits_of_base bas) (unat (group_size_u8 (o_group_size opt))))"

lemma panels_positive: "panels_chosen sys opt bas = Ok n \<Longrightarrow> 0 < n"
  by (auto simp: panels_chosen_def number_of_panels_def max_panels_fn_def Let_def
      split: option.splits if_splits)

lemma builder_of_ok:
  assumes "0 < n" and "n < 2 ^ 60"
  shows "builder_ok (builder_of sys opt bas n)"
  using assms by (cases "o_group_size opt")
    (simp_all add: builder_of_def builder_ok_def builder_defs group_size_u8_def unat_of_nat_u64)

lemma builder_of_panels:
  "n < 2 ^ 64 \<Longrightarrow> unat (pb_panels (builder_of sys opt bas n)) = n"
  by (simp add: builder_of_def builder_defs unat_of_nat_u64)

lemma builder_of_fields:
  "pb_use_squeeze (builder_of sys opt bas n) = (\<not> o_no_squeezing opt)"
  "\<not> o_include_mode opt \<Longrightarrow> pb_include_mode (builder_of sys opt bas n) = IncludeOff"
  by (simp_all add: builder_of_def builder_defs include_of_def)

lemma skip_stdin:
  assumes R: "byte_reader (stdin_read (sys_input sys)) remaining sound" and s: "sound i"
    and n: "skipped opt block_size (Some n)"
  shows "\<exists>i'. skip_input sys (o_skip opt) block_size (InputStdin i) =
      (InputStdin i', Ok (min n (length (remaining i)))) \<and> sound i' \<and> remaining i' = drop n (remaining i)"
proof (cases "o_skip opt")
  case None
  with n s show ?thesis by (simp add: skip_input_def skipped_def)
next
  case (Some t)
  with n obtain b where b: "parse_byte_offset t block_size = Ok b" "offset_kind b \<noteq> BackwardFromEnd" "offset_value b = int n"
    by (auto simp: skipped_def split: outcome.splits if_splits)
  then have "seek_position_of b = SeekCurrent (int n)" by (cases "offset_kind b") (simp_all add: seek_position_of_def)
  with byte_reader.try_skip_forward [OF R s, of n] b(1) Some show ?thesis
    by (auto simp: skip_input_def input_seek_def)
qed

lemma skip_stdin_backward:
  assumes "skipped opt block_size None"
  shows "\<exists>i'. skip_input sys (o_skip opt) block_size (InputStdin i) = (InputStdin i', Err SeekFailed)"
proof -
  from assms obtain t b where "o_skip opt = Some t" "parse_byte_offset t block_size = Ok b"
    "offset_kind b = BackwardFromEnd"
    by (auto simp: skipped_def split: option.splits outcome.splits if_splits)
  then show ?thesis by (simp add: skip_input_def seek_position_of_def input_seek_def try_skip_def)
qed

text \<open>
  C36. The run on standard input.  Without the colour table, an include style or a block size in
  hexadecimal (which ends the run), and with a block size, a length, a display offset, a base and a
  number of panels that parse: an offset to skip from the end is an error before anything is
  written.  Otherwise \<open>hexyl\<close> skips the given number of bytes (or all there are), takes at most the given
  length of the rest, and writes its table; the positions count from the bytes that were skipped plus
  the display offset; or a write fails after a prefix of the table.  From \<open>2 ^ 60\<close> panels on it panics
  instead, with nothing written, because the line does not fit a vector.
\<close>

theorem hexyl_run_stdin:
  assumes "byte_reader (stdin_read (sys_input sys)) remaining sound" and "sound i"
    and "byte_writer W content settled fb" and "palette_ok pal"
    and "\<not> o_print_color_table opt" and "o_file opt = None" and "\<not> o_include_mode opt"
    and "hex_block_size (o_block_size opt) = None" and "parse_block_size (o_block_size opt) = Ok block_size"
    and "skipped opt block_size skip" and "length_limit opt block_size l"
    and "parse_byte_count (o_display_offset opt) block_size = Ok d"
    and "base_of_name (o_base opt) = Some bas" and "panels_chosen sys opt bas = Ok num" and "num < usize_limit"
  shows "\<exists>w' res. run alnum sys W pal opt i w = (w', res) \<and>
    (case skip of
       None \<Rightarrow> res = Err SeekFailed \<and> w' = w
     | Some n \<Rightarrow>
         if 2 ^ 60 \<le> num then res = Panic \<and> w' = w
         else
           let shown = (case l of None \<Rightarrow> drop n (remaining i) | Some m \<Rightarrow> take m (drop n (remaining i)));
             out = content w @ table_text pal (displayed (builder_of sys opt bas num)
               (of_nat (min n (length (remaining i))) + of_int d)) (\<not> o_no_squeezing opt) shown in
           res = Ok () \<and> content w' = out \<or> fb \<and> res = Err HexylIo \<and> prefix (content w') out)"
proof (cases skip)
  case None
  with skip_stdin_backward [of opt block_size sys i] assms(10) obtain i' where
    "skip_input sys (o_skip opt) block_size (InputStdin i) = (InputStdin i', Err SeekFailed)" by blast
  with None assms(5,6,8,9) show ?thesis by (simp add: run_def input_of_file_def run_dump_def)
next
  case (Some n)
  from skip_stdin [OF assms(1,2)] assms(10) Some obtain i' where i': "skip_input sys (o_skip opt) block_size (InputStdin i) =
      (InputStdin i', Ok (min n (length (remaining i))))" "sound i'" "remaining i' = drop n (remaining i)" by blast
  let ?pb = "builder_of sys opt bas num" and ?rd = "limited_read (input_read (sys_input sys))"
  let ?off = "of_nat (min n (length (remaining i))) + of_int d :: u64"
  have lim: "(case o_length opt of None \<Rightarrow> Ok None
      | Some s \<Rightarrow> obind (parse_byte_count s block_size) (\<lambda>n. Ok (Some (nat n)))) = Ok l"
    using assms(11) by (auto simp: length_limit_def split: option.splits outcome.splits)
  have run: "run alnum sys W pal opt i w = sbind (w, build ?pb) (\<lambda>w p.
      case print_all alnum ?rd W pal ((InputStdin i', l), w, set_display_offset ?off p) of ((_, (w, _)), r) \<Rightarrow> (w, r))"
    using assms(5,6,8,9,12,13,14) i'(1) lim
    by (simp add: run_def input_of_file_def run_dump_def panels_chosen_def)
  have panels: "unat (pb_panels ?pb) = num"
    using builder_of_panels assms(15) by (simp add: usize_limit_def)
  show ?thesis
  proof (cases "2 ^ 60 \<le> num")
    case True
    with run Some panels show ?thesis by (simp add: build_panics)
  next
    case False
    let ?p = "displayed ?pb ?off"
    have R: "byte_reader ?rd (limited_remaining (input_remaining remaining)) (input_sound sound \<circ> fst)"
      by (rule limited_reader [OF input_reader [OF assms(1)]])
    have s: "(input_sound sound \<circ> fst) (InputStdin i', l)" using i'(2) by simp
    have b: "builder_ok ?pb" using panels_positive [OF assms(14)] False by (intro builder_of_ok) simp_all
    have r: "limited_remaining (input_remaining remaining) (InputStdin i', l) =
        (case l of None \<Rightarrow> drop n (remaining i) | Some m \<Rightarrow> take m (drop n (remaining i)))"
      using i'(3) by (cases l) simp_all
    note ready = displayed_ready [OF assms(4) b, of ?off]
    have m: "include_mode ?p = IncludeOff"
      using builder_of_fields(2) [OF assms(7)] by (simp add: displayed_def set_display_offset_def printer_of_def)
    from print_all_dumps [OF R assms(3) s ready m, of alnum w] obtain r' w' p' res where
      "print_all alnum ?rd W pal ((InputStdin i', l), w, ?p) = ((r', w', p'), res)"
      "res = Ok () \<and> content w' = content w @ table_text pal ?p (\<not> o_no_squeezing opt)
           (case l of None \<Rightarrow> drop n (remaining i) | Some m \<Rightarrow> take m (drop n (remaining i))) \<or>
       fb \<and> res = Err HexylIo \<and> prefix (content w') (content w @ table_text pal ?p (\<not> o_no_squeezing opt)
           (case l of None \<Rightarrow> drop n (remaining i) | Some m \<Rightarrow> take m (drop n (remaining i))))"
      unfolding r builder_of_fields(1) by blast
    moreover have "build ?pb = Ok (printer_of ?pb)" using panels False by (simp add: build_panics)
    ultimately show ?thesis using run Some False by (simp add: displayed_def Let_def)
  qed
qed

theorem hexyl_run_stdin_witness:
  "\<exists>w' res. run (\<lambda>_. True) pipe_system memory_writer plain_palette
      (default_opt\<lparr>o_skip := Some (ustr ''1''), o_length := Some (ustr ''0x2'')\<rparr>) [Chunk [1, 2], Chunk [3, 4, 5]] [] = (w', res) \<and>
    res = Ok () \<and>
    w' = table_text plain_palette (displayed (builder_of pipe_system default_opt Hexadecimal 2) 1) True [2, 3]"
proof -
  let ?opt = "default_opt\<lparr>o_skip := Some (ustr ''1''), o_length := Some (ustr ''0x2'')\<rparr>"
  have p: "hex_block_size (o_block_size ?opt) = None" "parse_block_size (o_block_size ?opt) = Ok 512"
    "skipped ?opt 512 (Some 1)" "length_limit ?opt 512 (Some 2)" "parse_byte_count (o_display_offset ?opt) 512 = Ok 0"
    "base_of_name (o_base ?opt) = Some Hexadecimal" "panels_chosen pipe_system ?opt Hexadecimal = Ok 2"
    by code_simp+
  have R: "byte_reader (stdin_read (sys_input pipe_system)) stream_bytes all_chunks"
    using events.byte_reader_axioms by (simp add: pipe_system_def)
  have b: "builder_of pipe_system ?opt Hexadecimal 2 = builder_of pipe_system default_opt Hexadecimal 2"
    by (simp add: builder_of_def include_of_def default_opt_def)
  from hexyl_run_stdin [OF R _ collected.byte_writer_axioms plain_palette_ok _ _ _ p, where i = "[Chunk [1, 2], Chunk [3, 4, 5]]"
      and w = "[]" and alnum = "\<lambda>_. True"]
  show ?thesis unfolding b by (simp add: default_opt_def usize_limit_def)
qed

end
