(* ===== verification/Hexyl_Failures.thy ===== *)
theory Hexyl_Failures
  imports Hexyl_Facts
begin

text \<open>
  What \<open>print_all\<close> makes of a read that fails: the loop ignores the error and prints the line that is in
  the buffer, so one failure shows a line that is not in the input, and an input that keeps failing
  is dumped for ever.
\<close>

section \<open>One failure\<close>

lemma dump_all_failed:
  assumes R: "byte_reader rd remaining sound" and W: "byte_writer W content settled fb"
    and f: "rd r (line_width p) = (r', e)" "e \<in> {Interrupted, ReadFailed}" and s: "sound r'"
    and ok: "printer_ok pal p" and z: "line_buf p = replicate (line_width p) 0" and c: "curr_color p = None"
    and i: "idx p = 0" and t: "tracks squeeze (None, False) p"
  shows "\<exists>r2 w' p' res. dump_all rd W pal (r, w, p) = ((r2, w', p'), res) \<and>
    (res = Ok () \<and> content w' = content w @ table_text pal p squeeze (line_buf p @ remaining r') \<or>
     fb \<and> res = Err HexylIo \<and> prefix (content w') (content w @ table_text pal p squeeze (line_buf p @ remaining r')))"

proof -
  let ?E = "\<lambda>e. fb \<and> e = HexylIo" and ?C = "\<lambda>st. printed content (snd st)" and ?step = "print_all_step rd W pal"
  let ?n = "line_width p" and ?xs = "line_buf p @ remaining r'"
  let ?q = "next_squeeze squeeze (None, False) (line_buf p)"
  have n: "length (line_buf p) = ?n" using z by simp
  have pos: "0 < ?n" by (rule line_width_pos [OF ok])
  have rl: "read_line rd W True (r, w, p) = ((r', w, p), Ok (True, Full))"
    using f by (auto simp: read_line_def n)
  from byte_writer.prints_print_line [OF W ok n c _ t, of 0 True] i obtain p' where
    pl: "prints fb content (print_line W pal True) p
      (header_text p @ concat (map (row_text pal p) (line_rows (None, False) 0 (line_buf p)))) p'" and
    p': "tracks squeeze ?q p'" "idx p' = of_nat ?n" "length (line_buf p') = ?n" "curr_color p' = None"
      "options_of p' = options_of p" by auto
  note same = same_texts [OF p'(5)]
  let ?rest = "concat (map (row_text pal p) (rows squeeze ?n ?q ?n (remaining r'))) @ footer_text p"
  have go_on: "emits ?E ?C (False, r', w', p') (sbind (repeat ?step (False, r', w', p')) (finish_all W pal)) ?rest (\<lambda>_ _. True)"
    for w' using dump_loop [OF R W s, of pal p' ?n squeeze ?q False w'] ok p' same by simp
  have sk: "squeezer p \<noteq> SqDelete" using t by (auto simp: tracks_def split: if_splits)
  let ?row = "header_text p @ concat (map (row_text pal p) (line_rows (None, False) 0 (line_buf p)))"
  let ?Q = "\<lambda>s'. emits ?E ?C s' (sbind (repeat ?step s') (finish_all W pal)) ?rest (\<lambda>_ _. True)"
  obtain s1 res where m: "on_printer (print_line W pal True) (r', w, p) = (s1, res)"
    by (cases "on_printer (print_line W pal True) (r', w, p)")
  have st: "?step (True, r, w, p) = ((False, s1), obind res (\<lambda>_. Ok None))"
    using sk by (simp add: print_all_step_def rl m)
  have e: "emits ?E (printed content) (r', w, p) (s1, res) ?row (\<lambda>s _. fst s = r' \<and> snd (snd s) = p')"
    using emits_on_printer [OF pl, of r' w] by (simp add: m)
  have "emits ?E ?C (True, r, w, p) (?step (True, r, w, p)) ?row (\<lambda>s' x. x = None \<and> ?Q s')"
  proof (cases res)
    case (Ok x)
    with e have "s1 = (r', fst (snd s1), p')" by (cases s1) (auto simp: emits_def)
    with go_on [of "fst (snd s1)"] have "?Q (False, s1)" by simp
    with e Ok show ?thesis unfolding st by (auto simp: emits_def [of _ _ _ "(_, Ok _)"])
  next
    case (Err er)
    with e show ?thesis unfolding st by (auto simp: emits_def)
  qed (use e in \<open>simp_all add: emits_def\<close>)
  then have "emits ?E ?C (True, r, w, p) (sbind (repeat ?step (True, r, w, p)) (finish_all W pal))
      ((header_text p @ concat (map (row_text pal p) (line_rows (None, False) 0 (line_buf p)))) @ ?rest) (\<lambda>_ _. True)"
    by (rule emits_repeat_then)
  moreover have "rows squeeze ?n (None, False) 0 ?xs = line_rows (None, False) 0 (line_buf p) @ rows squeeze ?n ?q ?n (remaining r')"
    using pos by (subst rows.simps) (simp add: n)
  then have "table_text pal p squeeze ?xs =
      (header_text p @ concat (map (row_text pal p) (line_rows (None, False) 0 (line_buf p)))) @ ?rest"
    using pos n by (auto simp: table_text_def)
  ultimately have "emits ?E ?C (True, r, w, p) (sbind (repeat ?step (True, r, w, p)) (finish_all W pal))
      (table_text pal p squeeze ?xs) (\<lambda>_ _. True)" by simp
  from emits_result [OF this] show ?thesis by (fastforce simp: dump_all_def)
qed

text \<open>
  C28. A failed read shows bytes that are not there.  When the first read of the input fails or is
  interrupted and the others succeed, the table begins with a line of zeros, as if the input began
  with them, and the error is lost.
\<close>

theorem hexyl_failed_read:
  assumes "byte_writer W content settled fb" and "all_chunks es" and "e \<in> {Interrupted, ReadFailed}"
    and "palette_ok pal" and "builder_ok pb" and "pb_include_mode pb = IncludeOff"
  shows "\<exists>r' w' p' res. print_all alnum events_read W pal (e # es, w, displayed pb d) = ((r', w', p'), res) \<and>
    (res = Ok () \<and> content w' = content w @
       table_text pal (displayed pb d) (pb_use_squeeze pb) (replicate (8 * unat (pb_panels pb)) 0 @ stream_bytes es) \<or>
     fb \<and> res = Err HexylIo)"
proof -
  let ?p = "displayed pb d"
  note ready = displayed_ready [OF assms(4,5), of d]
  have m: "include_mode ?p = IncludeOff" using assms(6) by (simp add: displayed_def set_display_offset_def printer_of_def)
  have z: "line_buf ?p = replicate (line_width ?p) 0"
    by (simp add: displayed_def set_display_offset_def printer_of_def line_width_def)
  have w: "line_width ?p = 8 * unat (pb_panels pb)"
    using line_width_eq [OF ready(1)] by (simp add: displayed_def set_display_offset_def printer_of_def)
  have f: "buf_read events_read ([], e # es) (line_width ?p) = (([], es), e)"
    using assms(3) by (auto simp: buf_read_def)
  have "(all_chunks \<circ> snd) ([], es)" using assms(2) by simp
  from dump_all_failed [OF events.buf_reader assms(1) f assms(3) this ready(1) z ready(3,4,5), of w]
  obtain r2 w' p' res where "dump_all (buf_read events_read) W pal (([], e # es), w, ?p) = ((r2, w', p'), res) \<and>
    (res = Ok () \<and> content w' = content w @
       table_text pal ?p (pb_use_squeeze pb) (replicate (8 * unat (pb_panels pb)) 0 @ stream_bytes es) \<or>
     fb \<and> res = Err HexylIo)"
    by (auto simp: events.buf_remaining_def z w)
  with m show ?thesis by (cases r2) (auto simp: print_all_def print_from_def)
qed

theorem hexyl_failed_read_witness:
  "\<exists>r' w' p' res. print_all (\<lambda>_. True) events_read memory_writer plain_palette
      ([ReadFailed, Chunk [65]], [], displayed printer_builder_new 0) = ((r', w', p'), res) \<and>
    res = Ok () \<and> w' = table_text plain_palette (displayed printer_builder_new 0) True (replicate 16 0 @ [65])"
  using hexyl_failed_read [OF collected.byte_writer_axioms _ _ plain_palette_ok default_builder_ok,
      where es = "[Chunk [65]]" and e = ReadFailed and w = "[]" and d = 0 and alnum = "\<lambda>_. True"]
  by (simp add: printer_builder_new_def)

section \<open>Failures without end\<close>

definition broken_read :: "unit read_op" where
  \<comment> \<open>an input whose reads all fail, as those of a directory do\<close>
  "broken_read r k = (r, ReadFailed)"

lemma dump_broken:
  assumes W: "byte_writer W content settled False"
    and ok: "printer_ok pal p" and n: "length (line_buf p) = line_width p" and c: "curr_color p = None"
    and i: "idx p = 0" and t: "tracks squeeze (None, False) p"
  shows "snd (dump_all (buf_read broken_read) W pal (([] :: bytes, ()), w, p)) = Diverge"
proof -
  let ?I = "\<lambda>st :: bool \<times> (bytes \<times> unit) \<times> 'a \<times> printer. \<exists>e w p q pos. st = (e, ([] :: bytes, ()), w, p) \<and> printer_ok pal p \<and> length (line_buf p) = line_width p \<and>
      curr_color p = None \<and> idx p = of_nat pos \<and> tracks squeeze q p"
  have "snd (repeat (print_all_step (buf_read broken_read) W pal) (True, ([] :: bytes, ()), w, p)) = Diverge"
  proof (rule repeat_same_diverges [where I = ?I])
    show "?I (True, ([] :: bytes, ()), w, p)" using assms by (auto intro!: exI [of _ 0] exI [of _ "(None, False)"])
    fix st :: "bool \<times> (bytes \<times> unit) \<times> 'a \<times> printer"
    assume "?I st"
    then obtain e w p q pos where st: "st = (e, ([] :: bytes, ()), w, p)" and a: "printer_ok pal p"
      "length (line_buf p) = line_width p" "curr_color p = None" "idx p = of_nat pos" "tracks squeeze q p" by blast
    have rl: "read_line (buf_read broken_read) W e (([] :: bytes, ()), w, p) = ((([] :: bytes, ()), w, p), Ok (e, Full))"
      by (simp add: read_line_def buf_read_def broken_read_def)
    from byte_writer.prints_print_line [OF W a, of e] obtain bs p' where
      pl: "prints False content (print_line W pal e) p bs p'" and
      p': "tracks squeeze (next_squeeze squeeze q (line_buf p)) p'" "idx p' = of_nat (pos + line_width p)"
        "length (line_buf p') = line_width p" "curr_color p' = None" "options_of p' = options_of p" by auto
    obtain s1 res where m: "on_printer (print_line W pal e) (([] :: bytes, ()), w, p) = (s1, res)"
      by (cases "on_printer (print_line W pal e) (([] :: bytes, ()), w, p)")
    with emits_on_printer [OF pl, of "([] :: bytes, ())" w] have "res = Ok ()" "fst s1 = ([] :: bytes, ())" "snd (snd s1) = p'"
      by (auto simp: emits_def split: outcome.splits)
    then have s1: "res = Ok ()" "s1 = (([] :: bytes, ()), fst (snd s1), p')" by (cases s1, auto)+
    have "print_all_step (buf_read broken_read) W pal st =
        ((e \<and> squeezed p \<and> squeezer p = SqDelete, s1), Ok None)"
      by (simp add: st print_all_step_def rl m s1(1))
    moreover have "?I (e \<and> squeezed p \<and> squeezer p = SqDelete, s1)"
    proof (intro exI conjI)
      show "(e \<and> squeezed p \<and> squeezer p = SqDelete, s1) =
          (e \<and> squeezed p \<and> squeezer p = SqDelete, ([] :: bytes, ()), fst (snd s1), p')" using s1(2) by simp
      show "tracks squeeze (next_squeeze squeeze q (line_buf p)) p'" "idx p' = of_nat (pos + line_width p)" by fact+
    qed (use p' a(1) same_texts(2,3) [OF p'(5)] in simp_all)
    ultimately show "\<exists>s'. print_all_step (buf_read broken_read) W pal st = (s', Ok None) \<and> ?I s'" by blast
  qed
  then show ?thesis
    by (cases "repeat (print_all_step (buf_read broken_read) W pal) (True, ([] :: bytes, ()), w, p)") (auto simp: dump_all_def)
qed

text \<open>
  An input that keeps failing is never given up: \<open>print_all\<close> does not return, on any writer
  that takes everything.
\<close>

theorem hexyl_broken_input:
  assumes "byte_writer W content settled False"
    and "palette_ok pal" and "builder_ok pb" and "pb_include_mode pb = IncludeOff"
  shows "snd (print_all alnum broken_read W pal ((), w, displayed pb d)) = Diverge"
proof -
  have m: "include_mode (displayed pb d) = IncludeOff" using assms(4)
    by (simp add: displayed_def set_display_offset_def printer_of_def)
  from dump_broken [OF assms(1) displayed_ready [OF assms(2,3)], of w d] m show ?thesis
    by (auto simp: print_all_def print_from_def split: prod.splits)
qed

end
