(* ===== verification/Hexyl_Include.thy ===== *)
theory Hexyl_Include
  imports Hexyl_Failures
begin

text \<open>
  The C include style of \<open>hexyl\<close>: the array of bytes that it prints and its length.
\<close>

definition include_item :: "nat \<Rightarrow> u8 \<Rightarrow> bytes" where
  \<comment> \<open>byte number \<open>i\<close>: twelve bytes on a line\<close>
  "include_item i b =
     (if i = 0 then bstr ''  '' else if i mod 12 = 0 then bstr '','' @ [10] @ bstr ''  '' else bstr '', '') @
     bstr ''0x'' @ radix_digits 16 2 (unat b)"

fun include_items :: "nat \<Rightarrow> bytes \<Rightarrow> bytes" where
  "include_items i [] = []"
| "include_items i (b # bs) = include_item i b @ include_items (Suc i) bs"

definition array_text :: "(uchar \<Rightarrow> bool) \<Rightarrow> ustring \<Rightarrow> bytes \<Rightarrow> bytes" where
  \<comment> \<open>the file that a C compiler reads\<close>
  "array_text alnum name xs =
     (let var = map (\<lambda>c. if alnum c then c else 95) name in
      utf8 (ustr ''unsigned char '' @ var @ ustr ''[] = {'' @ [10]) @ include_items 0 xs @ [10] @
      bstr ''};'' @ [10] @ utf8 (ustr ''unsigned int '' @ var @ ustr ''_len = '' @ dec_digits (length xs) @ [59, 10]))"

lemma include_items_append: "include_items i (xs @ ys) = include_items i xs @ include_items (i + length xs) ys"
  by (induction xs arbitrary: i) simp_all

definition counter :: "nat \<Rightarrow> bool \<times> u32" where
  \<comment> \<open>\<open>is_first_chunk\<close> and \<open>line_counter\<close> after \<open>i\<close> bytes\<close>
  "counter i = (i = 0, of_nat i)"

lemma sint_counter: "i < 2 ^ 31 \<Longrightarrow> sint (of_nat i :: u32) = int i"
  by (simp add: signed_of_nat signed_take_bit_int_eq_self)

lemma include_count_counter:
  assumes "i < 2 ^ 31"
  shows "include_count (counter i) = counter (Suc i)"
  using assms by (cases "i = 0") (auto simp: include_count_def counter_def sint_counter add.commute)

context byte_writer
begin

lemma prints_include_byte:
  assumes "i < 2 ^ 31"
  shows "prints fb content (include_byte W b (counter i)) p (include_item i b) p"
proof -
  have d: "(12 :: int) dvd int i \<longleftrightarrow> i mod 12 = 0"
    by (metis dvd_eq_mod_eq_0 int_dvd_int_iff of_nat_numeral)
  show ?thesis
    unfolding include_byte_def
    by (rule prints_subst, (rule prints_cons prints_if prints_given_out prints_out prints_nil)+)
      (use assms in \<open>auto simp: include_item_def counter_def sint_counter d\<close>)
qed

lemma prints_include_bytes:
  "i + length bs < 2 ^ 31 \<Longrightarrow> prints fb content (include_bytes W bs (counter i)) p (include_items i bs) p"
proof (induction bs arbitrary: i)
  case Nil
  show ?case unfolding include_bytes.simps include_items.simps by (rule prints_nil)
next
  case (Cons b bs)
  then have i: "i < 2 ^ 31" and "Suc i + length bs < 2 ^ 31" by auto
  from prints_cons [OF prints_include_byte [OF i] prints_cons [OF Cons.IH [OF this(2)] prints_nil]]
  show ?case by (simp add: include_count_counter [OF i] del: steps.simps)
qed

end

lemma count_steps: "i + n < 2 ^ 31 \<Longrightarrow> (include_count ^^ n) (counter i) = counter (i + n)"
  by (induction n) (simp_all add: include_count_counter)

lemma include_loop:
  assumes R: "byte_reader rd remaining sound" and W: "byte_writer W content settled fb"
    and "sound r" and "n + length (remaining r) < 2 ^ 31"
  shows "emits (\<lambda>e. fb \<and> e = HexylIo) (\<lambda>st. printed content (snd st)) ((n, counter n), (r, w, p))
    (repeat (include_step rd W) ((n, counter n), (r, w, p))) (include_items n (remaining r))
    (\<lambda>st _. fst (fst st) = n + length (remaining r) \<and> snd (snd (snd st)) = p)"
  using assms(3-)
proof (induction "length (remaining r)" arbitrary: n r w rule: less_induct)
  case less
  let ?E = "\<lambda>e. fb \<and> e = HexylIo" and ?C = "\<lambda>st. printed content (snd st)"
  have "0 < (1024 :: nat)" by simp
  from byte_reader.read_law [OF R less.prems(1) this] obtain r' bs where r': "rd r 1024 = (r', Chunk bs)"
    "remaining r = bs @ remaining r'" "sound r'" "bs = [] \<longrightarrow> remaining r = []" by blast
  show ?case
  proof (cases "bs = []")
    case True
    with r' have "include_step rd W ((n, counter n), (r, w, p)) = (((n, counter n), (r', w, p)), Ok (Some ()))"
      by (simp add: include_step_def)
    from repeat_break [of "include_step rd W", OF this] True r' show ?thesis by (simp add: emits_def)
  next
    case False
    let ?m = "n + length bs"
    have b: "?m < 2 ^ 31" "?m + length (remaining r') < 2 ^ 31" using less.prems(2) r'(2) by auto
    obtain s res where m: "include_bytes W bs (counter n) (w, p) = (s, res)"
      by (cases "include_bytes W bs (counter n) (w, p)")
    have st: "include_step rd W ((n, counter n), (r, w, p)) = (((?m, counter ?m), (r', s)), obind res (\<lambda>_. Ok None))"
      using r' False m count_steps [OF b(1)] by (simp add: include_step_def)
    have e: "emits ?E (content \<circ> fst) (w, p) (s, res) (include_items n bs) (\<lambda>s _. snd s = p)"
      using prints_emits [OF byte_writer.prints_include_bytes [OF W b(1), of "snd (w, p)"]] m by simp
    let ?Q = "\<lambda>st _. fst (fst st) = n + length (remaining r) \<and> snd (snd (snd st)) = p"
    from r' False have "length (remaining r') < length (remaining r)" by simp
    from less.hyps [OF this r'(3) b(2)]
    have IH: "emits ?E ?C ((?m, counter ?m), (r', w', p)) (repeat (include_step rd W) ((?m, counter ?m), (r', w', p)))
        (include_items ?m (remaining r')) ?Q" for w'
      using r'(2) by (simp add: add.assoc)
    have "emits ?E ?C ((n, counter n), (r, w, p)) (include_step rd W ((n, counter n), (r, w, p))) (include_items n bs)
        (\<lambda>st' x. x = None \<and> emits ?E ?C st' (repeat (include_step rd W) st') (include_items ?m (remaining r')) ?Q)"
    proof (cases res)
      case (Ok x)
      with e have "s = (fst s, p)" by (cases s) (auto simp: emits_def)
      with IH [of "fst s"] have "emits ?E ?C ((?m, counter ?m), (r', s)) (repeat (include_step rd W) ((?m, counter ?m), (r', s)))
          (include_items ?m (remaining r')) ?Q" by simp
      with e Ok show ?thesis unfolding st by (auto simp: emits_def [of _ _ _ "(_, Ok _)"])
    next
      case (Err er)
      with e show ?thesis unfolding st by (auto simp: emits_def)
    qed (use e in \<open>simp_all add: emits_def\<close>)
    then have "emits ?E ?C ((n, counter n), (r, w, p)) (repeat (include_step rd W) ((n, counter n), (r, w, p)))
        (include_items n bs @ include_items ?m (remaining r')) ?Q"
      by (rule emits_repeat)
    with r'(2) show ?thesis by (simp add: include_items_append)
  qed
qed

lemma emits_include_style:
  assumes R: "byte_reader rd remaining sound" and W: "byte_writer W content settled fb"
    and s: "sound r" and b: "length (remaining r) < 2 ^ 31"
  shows "emits (\<lambda>e. fb \<and> e = HexylIo) (printed content) (r, w, p) (print_bytes_in_include_style rd W (r, w, p))
    (include_items 0 (remaining r) @ [10]) (\<lambda>s x. x = length (remaining r) \<and> snd (snd s) = p)"
proof -
  obtain tot c s' res where m: "repeat (include_step rd W) ((0, (True, 0)), (r, w, p)) = (((tot, c), s'), res)"
    by (metis surj_pair)
  have "emits (\<lambda>e. fb \<and> e = HexylIo) (\<lambda>st. printed content (snd st)) ((0, (True, 0)), (r, w, p)) (((tot, c), s'), res)
      (include_items 0 (remaining r)) (\<lambda>st _. fst (fst st) = length (remaining r) \<and> snd (snd (snd st)) = p)"
    using include_loop [OF R W s, of 0 w p] b m by (simp add: counter_def)
  then have 1: "emits (\<lambda>e. fb \<and> e = HexylIo) (printed content) (r, w, p) (s', res) (include_items 0 (remaining r))
      (\<lambda>s _. tot = length (remaining r) \<and> snd (snd s) = p)"
    by (auto simp: emits_def split: outcome.splits)
  have "emits (\<lambda>e. fb \<and> e = HexylIo) (printed content) (r, w, p)
      (sbind (s', res) (\<lambda>s _. sbind (on_printer (out W [10]) s) (\<lambda>s _. (s, Ok tot))))
      (include_items 0 (remaining r) @ [10]) (\<lambda>s x. x = length (remaining r) \<and> snd (snd s) = p)"
  proof (rule emits_bind [OF 1])
    fix s2 :: "'a \<times> 'b \<times> printer" and x assume "tot = length (remaining r) \<and> snd (snd s2) = p"
    then have s2: "s2 = (fst s2, fst (snd s2), p)" and t: "tot = length (remaining r)" by (cases s2, auto)+
    have "emits (\<lambda>e. fb \<and> e = HexylIo) (printed content) s2 (on_printer (out W [10]) s2) [10]
        (\<lambda>s _. fst s = fst s2 \<and> snd (snd s) = p)"
      by (subst (1 2) s2) (rule emits_on_printer [OF byte_writer.prints_out [OF W]])
    then show "emits (\<lambda>e. fb \<and> e = HexylIo) (printed content) s2
        (sbind (on_printer (out W [10]) s2) (\<lambda>s _. (s, Ok tot))) [10] (\<lambda>s x. x = length (remaining r) \<and> snd (snd s) = p)"
      by (rule emits_last) (auto intro: emits_Ok simp: t)
  qed
  then show ?thesis by (simp add: print_bytes_in_include_style_def m)
qed

lemma example_digits:
  "radix_digits 16 2 (Suc 0) = [48, 49]" "radix_digits 16 2 255 = [102, 102]" "dec_digits (Suc (Suc 0)) = [50]"
  by code_simp+

text \<open>
  C26. The C include style writes an array that holds the input.  For an input of fewer than \<open>2 ^ 31\<close> bytes
  \<open>print_all\<close> writes the declaration of an array with one initialiser for each byte of the input, in
  order, twelve on a line, named after the file with every character that is not alphanumeric
  replaced by an underscore, and the declaration of its length; or a write fails after a prefix of it.
\<close>

theorem hexyl_include:
  assumes R: "byte_reader rd remaining sound" and W: "byte_writer W content settled fb" and s: "sound r"
    and m: "pb_include_mode pb = IncludeFile name" and b: "length (remaining r) < 2 ^ 31"
  shows "\<exists>r' w' p' res. print_all alnum rd W pal (r, w, displayed pb d) = ((r', w', p'), res) \<and>
    (res = Ok () \<and> content w' = content w @ array_text alnum name (remaining r) \<or>
     fb \<and> res = Err HexylIo \<and> prefix (content w') (content w @ array_text alnum name (remaining r)))"
proof -
  let ?E = "\<lambda>e. fb \<and> e = HexylIo" and ?p = "displayed pb d" and ?rd = "buf_read rd"
  let ?rem = "byte_reader.buf_remaining remaining" and ?r = "([], r)"
  let ?var = "map (\<lambda>c. if alnum c then c else 95) name"
  have rem: "?rem ?r = remaining r" by (simp add: byte_reader.buf_remaining_def [OF R])
  have B: "byte_reader ?rd ?rem (sound \<circ> snd)" by (rule byte_reader.buf_reader [OF R])
  have sn: "(sound \<circ> snd) ?r" using s by simp
  have mode: "include_mode ?p = IncludeFile name"
    using m by (simp add: displayed_def set_display_offset_def printer_of_def)
  note out = emits_on_printer [OF byte_writer.prints_out [OF W]]
  have tail: "emits ?E (printed content) s2 (on_printer (steps
        [out W (bstr ''};'' @ [10]),
         out W (utf8 (ustr ''unsigned int '' @ ?var @ ustr ''_len = '' @ dec_digits n @ [59, 10]))]) s2)
      (bstr ''};'' @ [10] @ utf8 (ustr ''unsigned int '' @ ?var @ ustr ''_len = '' @ dec_digits n @ [59, 10])) (\<lambda>_ _. True)"
    for s2 :: "(bytes \<times> 'a) \<times> 'b \<times> printer" and n
  proof -
    have "prints fb content (steps
        [out W (bstr ''};'' @ [10]),
         out W (utf8 (ustr ''unsigned int '' @ ?var @ ustr ''_len = '' @ dec_digits n @ [59, 10]))]) (snd (snd s2))
      (bstr ''};'' @ [10] @ utf8 (ustr ''unsigned int '' @ ?var @ ustr ''_len = '' @ dec_digits n @ [59, 10])) (snd (snd s2))"
      by (rule prints_subst, (rule prints_cons byte_writer.prints_out [OF W] prints_nil)+) simp_all
    from emits_on_printer [OF this, of "fst s2" "fst (snd s2)"] show ?thesis
      by (auto simp: emits_def simp del: steps.simps split: outcome.splits)
  qed
  let ?head = "utf8 (ustr ''unsigned char '' @ ?var @ ustr ''[] = {'' @ [10])"
  have "emits ?E (printed content) (?r, w, ?p) (print_from alnum ?rd W pal (?r, w, ?p))
      (?head @ (include_items 0 (remaining r) @ [10]) @
       (bstr ''};'' @ [10] @ utf8 (ustr ''unsigned int '' @ ?var @ ustr ''_len = '' @ dec_digits (length (remaining r)) @ [59, 10])))
      (\<lambda>_ _. True)"
    unfolding print_from_def Let_def snd_conv mode include_mode.case
  proof (rule emits_bind [OF out])
    fix s1 :: "(bytes \<times> 'a) \<times> 'b \<times> printer" and x
    assume 1: "fst s1 = ?r \<and> snd (snd s1) = ?p"
    then have s1: "s1 = (?r, fst (snd s1), ?p)" by (cases s1) auto
    show "emits ?E (printed content) s1 (sbind (print_bytes_in_include_style ?rd W s1) (\<lambda>s total_bytes.
          on_printer (steps
            [out W (bstr ''};'' @ [10]),
             out W (utf8 (ustr ''unsigned int '' @ ?var @ ustr ''_len = '' @ dec_digits total_bytes @ [59, 10]))]) s))
        ((include_items 0 (remaining r) @ [10]) @
         (bstr ''};'' @ [10] @ utf8 (ustr ''unsigned int '' @ ?var @ ustr ''_len = '' @ dec_digits (length (remaining r)) @ [59, 10])))
        (\<lambda>_ _. True)"
    proof (rule emits_bind)
      show "emits ?E (printed content) s1 (print_bytes_in_include_style ?rd W s1)
          (include_items 0 (remaining r) @ [10]) (\<lambda>s x. x = length (remaining r) \<and> snd (snd s) = ?p)"
        using emits_include_style [OF B W sn, of "fst (snd s1)" ?p] b rem s1 by simp
    qed (use tail in simp)
  qed
  from emits_result [OF this] mode show ?thesis
    by (fastforce simp: print_all_def array_text_def Let_def)
qed

theorem hexyl_include_witness:
  "\<exists>r' w' p' res. print_all (\<lambda>c. c \<noteq> 46) events_read memory_writer plain_palette
      ([Chunk [1, 255]], [], displayed (builder_include_mode (IncludeFile (ustr ''a.b'')) printer_builder_new) 0) =
        ((r', w', p'), res) \<and>
    res = Ok () \<and>
    w' = bstr ''unsigned char a_b[] = {'' @ [10] @ bstr ''  0x01, 0xff'' @ [10] @ bstr ''};'' @ [10] @
      bstr ''unsigned int a_b_len = 2;'' @ [10]"
  using hexyl_include [OF events.byte_reader_axioms collected.byte_writer_axioms,
      where r = "[Chunk [1, 255]]" and w = "[]" and d = 0 and alnum = "\<lambda>c. c \<noteq> 46" and pal = plain_palette
        and pb = "builder_include_mode (IncludeFile (ustr ''a.b'')) printer_builder_new" and name = "ustr ''a.b''"]
  by (simp add: builder_include_mode_def array_text_def include_item_def encode_utf8_def example_digits)

end
