(* ===== verification/Spec2Isabelle.thy ===== *)
theory Spec2Isabelle
  imports Tr_Main Cat_Facts Cat_Windows Echo Redis_Buffered Redis_Blocking Redis_Cli Redis_Listener Wgetopt_Facts Fish_Color_Facts Fish_Timer
    Hexyl_Palette Hexyl_Run Hexyl_Failures Hexyl_Include
begin

text \<open>
  Verification of the Rust programs of The Reverse Rewrite.

  The repository holds four case studies under \<open>src/\<close>, each with a program in Rust: the hex viewer
  \<open>hexyl\<close> (\<open>01-hexyl/original-rust\<close>), the coreutils \<open>cat\<close>, \<open>echo\<close> and \<open>tr\<close>
  (\<open>02-coreutils/*/rust-rewrite\<close>), the server and client of \<open>mini-redis\<close>
  (\<open>03-mini-redis/original-rust\<close>), and three modules of the fish shell
  (\<open>04-fish-shell/rust-rewrite\<close>). The programs do not call each other. The C and C++ versions beside
  them are not modelled, except the rules of \<open>echo.c\<close>, to which \<open>echo\<close> is compared.

  \<^bold>\<open>How the code is modelled.\<close> Machine integers are words of their width, or numbers where the code
  cannot leave the range or the range is checked explicitly; bytes are 8 bit words, a \<open>char\<close> is its
  code point. \<open>Prelude\<close> has the type \<open>outcome\<close> of a computation: \<open>Ok\<close> and \<open>Err\<close> are those of \<open>Result\<close>, \<open>Panic\<close>
  is an unwinding panic and \<open>Diverge\<close> a computation that never returns, so that "no panic" and
  "returns" are statements of the model. Functions that change state return it beside their outcome
  on every path; \<open>sbind\<close> and \<open>obind\<close> are the question mark operator. A reader is the list of the results
  of its \<open>read\<close> calls (\<open>read_event\<close>), or a function with the interface \<open>byte_reader\<close> (\<open>Hexyl_Input\<close>); a
  writer is a record of \<open>write_all\<close> and \<open>flush\<close> with the interface \<open>byte_writer\<close> (\<open>Io_Writer\<close>). The
  predicate \<open>emits\<close> is the specification of an operation that writes: all of a text and a result, or a
  prefix of it and the error of a write. A \<open>loop\<close> that ends by a \<open>break\<close> is \<open>repeat\<close>, which is \<open>Diverge\<close> when it
  never ends. Code outside the repository is an argument of the definitions that use it, with its
  documented behaviour as a hypothesis, and an instance in the witnesses.

  \<^bold>\<open>tr\<close> (\<open>operation.rs\<close>, \<open>simd.rs\<close>, \<open>tr.rs\<close>, \<open>unicode_table.rs\<close>).
  \<open>Nom_Interface\<close> states the laws of the nom combinators as an interface, and interprets it on an
  executable parser. \<open>Tr_Seq\<close> is the set language: the parsers of \<open>impl Sequence\<close>; \<open>Tr_Syntax\<close> prints sequences and
  shows that they are read back. \<open>Tr_Solve\<close> is \<open>solve_set_characters\<close>: classes, ranges, stars and the
  complement; draining the endless iterator of a star would be \<open>Diverge\<close>, and collecting more bytes than
  a vector holds is \<open>Panic\<close>. \<open>Tr_Ops\<close> has the three
  operations, their \<open>translate\<close> and \<open>process_chunk\<close>, and the loops of \<open>simd.rs\<close>; \<open>Tr_Flow\<close> shows that an operation
  with a chunk law gives the same output for every way the input is cut. \<open>Tr_Main\<close> is \<open>uumain\<close> from the operands to
  the flush, with the theorems on whole runs.

  \<^bold>\<open>cat\<close> (\<open>cat.rs\<close>, \<open>splice.rs\<close>, \<open>platform/\<close>).
  \<open>Cat_Number\<close> is the counter of lines that is incremented as text, \<open>Cat\<close> the plain copy, the splice
  path, \<open>write_lines\<close> and the program; \<open>Cat_Lines\<close> has the lemmas on single lines. \<open>Cat_Automaton\<close> is the byte by byte
  reference; \<open>Cat_Device\<close> shows that \<open>BufWriter\<close> on a device that may fail is a \<open>byte_writer\<close> and that
  \<open>write_lines\<close> refines the reference; \<open>Cat_Spec\<close> says what the reference prints, and \<open>Cat_Facts\<close> what a
  run prints. \<open>Cat_Windows\<close> is the check of the same file on Windows.

  \<^bold>\<open>echo\<close> (\<open>echo.rs\<close>). \<open>Echo\<close> has the flags, the mode of \<open>POSIXLY_CORRECT\<close> and the output, the
  rules of \<open>echo.c\<close> (flags, escapes, output), and the theorem that both print the same: exactly, where no
  escape is interpreted, and otherwise up to what the escape parser of uucore, which is not in the
  repository, makes of the escapes of one argument.

  \<^bold>\<open>mini-redis\<close>. The layers, from the wire up: \<open>Redis_Frame\<close> is \<open>frame.rs\<close> (the cursor, \<open>check\<close>, \<open>parse\<close>), whose
  recursion has the length of the buffer and one as fuel, enough because each level reads a byte
  (\<open>Redis_Decode\<close>). \<open>Redis_Connection\<close> is \<open>connection.rs\<close> over a stream that arrives in any
  chunks; \<open>Redis_Wire\<close> and \<open>Redis_Protocol\<close> show that encoding and decoding are inverse and that
  the chunks do not matter. \<open>Redis_Command\<close> is \<open>parse.rs\<close> and the parsers and builders of \<open>cmd/\<close>. \<open>Redis_Db\<close> is
  \<open>db.rs\<close> with its mutex (and its poisoning), the index of expirations and the broadcast channels;
  \<open>Redis_Store\<close> states what the commands and the purge task rely on as the interfaces \<open>key_value_store\<close> and
  \<open>expiring_store\<close>, interprets them on the database and shows when a key with a time to live is gone.
  \<open>Redis_Purge\<close> adds the purge task as interleaved steps and shows that no expiration is missed and that
  expired entries are removed.
  \<open>Redis_Server\<close> is \<open>Handler::run\<close> and the subscriber loop as a state machine, one step per completed branch of
  a \<open>select!\<close>; \<open>Redis_Service\<close> refines it to a map of keys to values with deadlines. \<open>Redis_Listener\<close> is the accept loop,
  the semaphore, the backoff and the shutdown. \<open>Redis_Client\<close> is \<open>clients/client.rs\<close>
  and puts client and server together: calls return what the abstract map gives. \<open>Redis_Buffered\<close> is
  \<open>clients/buffered_client.rs\<close>, callers and a task as interleaved steps over a bounded channel,
  \<open>Redis_Blocking\<close> is \<open>clients/blocking_client.rs\<close> with its iterator, and \<open>Redis_Cli\<close> what \<open>bin/cli.rs\<close> prints for
  scripts of calls against the server and for a subscription.

  \<^bold>\<open>fish\<close>. \<open>Wgetopt\<close> is the option parser \<open>wgetopt.rs\<close>; \<open>Wgetopt_Scan\<close> follows the permutation of the arguments,
  \<open>Wgetopt_Safe\<close> the invariant that excludes the panics, \<open>Wgetopt_Facts\<close> holds the theorems. \<open>Fish_Color\<close> is \<open>color.rs\<close>
  with its tables, and \<open>Fish_Color_Facts\<close> the theorems on parsing, the binary search and the nearest color of
  a palette. \<open>Fish_Timer\<close> is \<open>timer.rs\<close>.

  \<^bold>\<open>hexyl\<close> (\<open>main.rs\<close>, \<open>lib.rs\<close>, \<open>input.rs\<close>, \<open>colors.rs\<close>).
  \<open>Hexyl_Args\<close> parses offsets, counts and block sizes, \<open>Hexyl_Offset\<close> has its theorems. \<open>Hexyl_Byte\<close> has the categories of
  bytes, the character tables and the colors, \<open>Hexyl_Palette\<close> the colors from the environment, \<open>Hexyl_Input\<close> the readers and the skipping.
  \<open>Hexyl_Printer\<close> is the builder and the printer with its buffer, its squeezer and the loop of \<open>print_all\<close>; \<open>Hexyl_Main\<close> is
  \<open>run\<close>. \<open>Hexyl_Prints\<close> and \<open>Hexyl_Rows\<close> say what each step of the printer writes, \<open>Hexyl_Dump\<close> abstracts the
  squeezer to rows and marks, \<open>Hexyl_Table\<close> runs the loop, and \<open>Hexyl_Facts\<close>, \<open>Hexyl_Width\<close>, \<open>Hexyl_Failures\<close>,
  \<open>Hexyl_Include\<close> and \<open>Hexyl_Run\<close> hold the theorems: the text of the table, squeezing without loss, the width of
  lines, reads that fail, the array of the include style, and the whole run on standard input.

  \<^bold>\<open>Bounds.\<close> The database counts instants in nanoseconds up to \<open>instant_limit\<close>; lengths of buffers
  are below \<open>usize_limit\<close> where a theorem says \<open>fits\<close> or \<open>small\<close>; the include style counts
  lines in a signed 32 bit number, so its theorem is for inputs of less than \<open>2 ^ 31\<close> bytes; the
  widths of tables are for positions of at most eight digits and \<open>panels\<close> below \<open>2 ^ 60\<close>, from
  where on the line of \<open>build\<close> does not fit a vector (\<open>isize_limit\<close>) and it panics, as \<open>tr\<close> does when a
  repeated character of a set expands to \<open>isize_limit\<close> bytes (\<open>tr_solve_returns\<close>). Additions
  and multiplications that a build with overflow checks would stop are explicit panics where an input reaches them
  (\<open>usize_add\<close>, \<open>duration_add\<close>, \<open>instant_add\<close>) or shown not to overflow (\<open>unat_squared_difference\<close>).

  \<^bold>\<open>What the code does wrong.\<close> Some theorems state behaviour that the code hardly means:
  \<open>hexyl_failed_read\<close> and \<open>hexyl_broken_input\<close> (errors of a read are ignored, and a reader that always fails is
  dumped for ever), \<open>redis_ttl_overflow_poisons\<close>, \<open>redis_huge_bulk_panics\<close>, \<open>redis_unknown_reply_splits\<close>,
  \<open>redis_cli_subscribe\<close>, \<open>redis_unsubscribe_twice\<close>, \<open>redis_blocking_iterator\<close>, \<open>wgetopt_unknown_panics\<close>, \<open>timer_backwards_panics\<close>,
  \<open>cat_squeeze_boundary\<close>, \<open>tr_solve_returns\<close> and \<open>hexyl_run_stdin\<close> (a capacity overflow), \<open>hexyl_identical_lines\<close>, \<open>cat_splice_blocks\<close>, \<open>cat_windows_long_path\<close>, \<open>tr_graph_print_exchanged\<close>, \<open>tr_star_nul_dropped\<close> and
  \<open>hexyl_auto_too_wide\<close>.

  \<^bold>\<open>Not modelled.\<close> The command lines (clap), the texts of error messages and translations, logging;
  the entry points and the binary of the server of mini-redis; connecting sockets; the gradients of colors that hexyl computes with
  floating point numbers (the palette is a parameter); the division and rounding of the times in the fish timer (the text of a
  value is a parameter); the texts of the parsing errors of
  \<open>wgetopt\<close>'s callers. Memory that runs out and stacks that overflow are not modelled: the depth of the
  recursion of the frame decoder is a theorem (\<open>redis_recursion_unbounded\<close>).
\<close>

end
